(* ===== verification/Fragua_Prelude.thy ===== *)
theory Fragua_Prelude
  imports Complex_Main "HOL-Library.Word" "HOL-Library.AList" "HOL-Library.List_Lexorder"
begin

text \<open>
  What the components of the development share: the values of the source language and the
  generic lemmas about them.

  \<^item> A TypeScript \<open>number\<close> that the code treats as a quantity (a cost, a token count, a time, a
    limit) is an exact rational, \<open>number\<close>. Rounding of IEEE doubles is not modelled. Where the
    code inspects an untyped number (\<open>Number.isFinite\<close>), the value is a \<open>jsnum\<close>, which has the
    non-finite values too.
  \<^item> A TypeScript \<open>string\<close> is the list of its UTF-16 code units, \<open>ustring\<close>; \<open>U ''abc''\<close> is a
    string literal.
  \<^item> An \<open>unknown\<close> value that came out of JSON is a \<open>jsval\<close>; a \<open>Record<string, unknown>\<close> is a
    \<open>jsobj\<close>, the list of its own properties in insertion order. Spread, assignment and
    \<open>delete\<close> are \<open>obj_merge\<close>, \<open>obj_set\<close> and \<open>obj_del\<close>.
\<close>

named_theorems ustr \<open>unfolding of string literals\<close>
named_theorems obj_simps \<open>reads of objects after writes\<close>

section \<open>Numbers\<close>

type_synonym number = rat

datatype (plugins only: code size) jsnum = Fin number | NaN | PosInf | NegInf

definition isFinite :: "jsnum \<Rightarrow> bool" where
  "isFinite n = (case n of Fin _ \<Rightarrow> True | _ \<Rightarrow> False)"

definition js_pos :: "jsnum \<Rightarrow> bool" where
  \<comment> \<open>\<open>n > 0\<close> for an arbitrary number.\<close>
  "js_pos n = (case n of Fin r \<Rightarrow> r > 0 | PosInf \<Rightarrow> True | _ \<Rightarrow> False)"

definition Math_floor :: "number \<Rightarrow> number" where
  "Math_floor x = of_int (floor x)"

definition Math_round :: "number \<Rightarrow> number" where
  \<comment> \<open>\<open>Math.round\<close> rounds a tie up.\<close>
  "Math_round x = of_int (floor (x + 1 / 2))"

lemma Math_floor_le [simp]: "Math_floor x \<le> x"
  by (simp add: Math_floor_def)

lemma Math_floor_nonneg: "0 \<le> x \<Longrightarrow> 0 \<le> Math_floor x"
  by (simp add: Math_floor_def)

lemma Math_floor_int [simp]: "Math_floor (of_int n) = of_int n"
  by (simp add: Math_floor_def)

lemma Math_floor_ge_int: "of_int n \<le> x \<Longrightarrow> of_int n \<le> Math_floor x"
  by (simp add: Math_floor_def le_floor_iff)

section \<open>Strings\<close>

type_synonym ustring = "16 word list"

definition U :: "string \<Rightarrow> ustring" where
  [ustr]: "U s = map of_char s"

lemma of_char_unat16: "unat (of_char c :: 16 word) = of_char c"
proof -
  have "(of_char c :: nat) < 256" by (rule nat_of_char_less_256)
  also have "(256 :: nat) < 2 ^ LENGTH(16)" by simp
  finally have "(of_char c :: nat) < 2 ^ LENGTH(16)" .
  moreover have "(of_char c :: 16 word) = of_nat (of_char c)"
    by (rule of_nat_of_char [symmetric])
  ultimately show ?thesis by (simp only: unat_of_nat mod_less)
qed

lemma of_char_inj16 [simp]: "((of_char c :: 16 word) = of_char d) = (c = d)"
  by (metis of_char_unat16 of_char_eq_iff)

lemma U_eq_iff [simp]: "(U a = U b) = (a = b)"
proof -
  have "inj (of_char :: char \<Rightarrow> 16 word)" by (simp add: inj_def)
  then show ?thesis by (simp add: U_def inj_map_eq_map)
qed

lemma U_eq_Nil [simp]: "(U s = []) = (s = [])" "([] = U s) = (s = [])"
  by (simp_all add: U_def)

lemma length_U [simp]: "length (U s) = length s"
  by (simp add: U_def)

definition startsWith :: "ustring \<Rightarrow> ustring \<Rightarrow> bool" where
  "startsWith s p = (take (length p) s = p)"

lemma startsWith_append [simp]: "startsWith (p @ s) p"
  by (simp add: startsWith_def)

lemma startsWith_obtain: "startsWith s p \<Longrightarrow> \<exists>t. s = p @ t"
  by (metis startsWith_def append_take_drop_id)

definition isSpace :: "16 word \<Rightarrow> bool" where
  \<comment> \<open>\<open>\s\<close>\<close>
  "isSpace c = ((9 \<le> c \<and> c \<le> 13) \<or> c = 32 \<or> c = 0xA0 \<or> c = 0x1680 \<or> (0x2000 \<le> c \<and> c \<le> 0x200A) \<or> c = 0x2028
     \<or> c = 0x2029 \<or> c = 0x202F \<or> c = 0x205F \<or> c = 0x3000 \<or> c = 0xFEFF)"

definition ujoin :: "ustring \<Rightarrow> ustring list \<Rightarrow> ustring" where
  \<comment> \<open>\<open>Array.prototype.join\<close>\<close>
  "ujoin sep xs = (case xs of [] \<Rightarrow> [] | x # r \<Rightarrow> x @ concat (map (\<lambda>y. sep @ y) r))"

text \<open>
  Rendering of a number in a template literal: an integer in decimal; a fraction with its
  decimal expansion, cut after twenty places. On the exact rationals of the model this is what
  \<open>Number.prototype.toString\<close> prints for the values with a short decimal expansion.
\<close>

fun nat_digits :: "nat \<Rightarrow> ustring" where
  "nat_digits n = (if n < 10 then [48 + of_nat n] else nat_digits (n div 10) @ [48 + of_nat (n mod 10)])"

declare nat_digits.simps [simp del]

fun frac_digits :: "nat \<Rightarrow> number \<Rightarrow> ustring" where
  "frac_digits 0 x = []"
| "frac_digits (Suc k) x =
     (if x = 0 then []
      else (48 + of_nat (nat (floor (10 * x)))) # frac_digits k (10 * x - of_int (floor (10 * x))))"

definition numberToString :: "number \<Rightarrow> ustring" where
  "numberToString x =
     (let a = \<bar>x\<bar>; i = floor a; f = a - of_int i
      in (if x < 0 then U ''-'' else []) @ nat_digits (nat i)
         @ (if f = 0 then [] else U ''.'' @ frac_digits 20 f))"

lemma nat_digits_nonempty [simp]: "nat_digits n \<noteq> []"
  by (subst nat_digits.simps) simp

lemma length_nat_digits_mono: "m \<le> n \<Longrightarrow> length (nat_digits m) \<le> length (nat_digits n)"
proof (induction n arbitrary: m rule: nat_digits.induct)
  case (1 n)
  show ?case
  proof (cases "n < 10")
    case True
    with "1.prems" have "m < 10" by simp
    with True show ?thesis by (simp add: nat_digits.simps [of n] nat_digits.simps [of m])
  next
    case False
    show ?thesis
    proof (cases "m < 10")
      case True
      with False show ?thesis
        by (simp add: nat_digits.simps [of n] nat_digits.simps [of m])
    next
      case m: False
      from "1.prems" have "m div 10 \<le> n div 10" by (rule div_le_mono)
      then have "length (nat_digits (m div 10)) \<le> length (nat_digits (n div 10))"
        using "1.IH" False by blast
      with False m show ?thesis
        by (simp add: nat_digits.simps [of n] nat_digits.simps [of m])
    qed
  qed
qed

lemma nat_digits_ascii: "\<forall>c \<in> set (nat_digits n). 48 \<le> c \<and> c < 58"
proof (induction n rule: nat_digits.induct)
  case (1 n)
  have dig: "48 \<le> (48 + of_nat k :: 16 word) \<and> (48 + of_nat k :: 16 word) < 58" if "k < 10" for k :: nat
    using that by (simp add: word_le_nat_alt word_less_nat_alt unat_word_ariths unat_of_nat
        take_bit_nat_eq_self)
  show ?case
  proof (cases "n < 10")
    case True
    then show ?thesis using dig by (simp add: nat_digits.simps [of n])
  next
    case False
    with 1 show ?thesis using dig [of "n mod 10"] by (simp add: nat_digits.simps [of n])
  qed
qed

section \<open>JSON values and objects\<close>

datatype (plugins only: code size) jsval =
    JNull
  | JBool bool
  | JNum jsnum
  | JStr ustring
  | JArr "jsval list"
  | JObj "(ustring \<times> jsval) list"

type_synonym jsobj = "(ustring \<times> jsval) list"

abbreviation JFin :: "number \<Rightarrow> jsval" where
  "JFin x \<equiv> JNum (Fin x)"

abbreviation obj_get :: "('k \<times> 'v) list \<Rightarrow> 'k \<Rightarrow> 'v option" where
  "obj_get ob k \<equiv> map_of ob k"

abbreviation obj_set :: "'k \<Rightarrow> 'v \<Rightarrow> ('k \<times> 'v) list \<Rightarrow> ('k \<times> 'v) list" where
  "obj_set k v ob \<equiv> AList.update k v ob"

definition obj_del :: "'k \<Rightarrow> ('k \<times> 'v) list \<Rightarrow> ('k \<times> 'v) list" where
  "obj_del k ob = filter (\<lambda>p. fst p \<noteq> k) ob"

fun obj_merge :: "('k \<times> 'v) list \<Rightarrow> ('k \<times> 'v) list \<Rightarrow> ('k \<times> 'v) list" where
  \<comment> \<open>\<open>{ ...a, ...b }\<close>\<close>
  "obj_merge a [] = a"
| "obj_merge a ((k, v) # b) = obj_merge (obj_set k v a) b"

lemma obj_get_set [obj_simps]: "obj_get (obj_set k v ob) k' = (if k' = k then Some v else obj_get ob k')"
  by (simp add: update_conv')

lemma obj_get_del [obj_simps]: "obj_get (obj_del k ob) k' = (if k' = k then None else obj_get ob k')"
  by (induction ob) (auto simp: obj_del_def)

lemma set_obj_set: "(a, b) \<in> set (obj_set k v ob) \<Longrightarrow> (a, b) = (k, v) \<or> (a, b) \<in> set ob"
  by (induction ob) (auto split: if_splits)

lemma set_obj_merge: "p \<in> set (obj_merge a b) \<Longrightarrow> p \<in> set a \<or> p \<in> set b"
proof (induction a b rule: obj_merge.induct)
  case (1 a)
  then show ?case by simp
next
  case (2 a k v b)
  then show ?case using set_obj_set [of "fst p" "snd p" k v a] by auto
qed

lemma obj_merge_Nil_right [simp]: "obj_merge a [] = a"
  by simp

subsection \<open>Interface: a predicate on the entries of an object\<close>

text \<open>
  A gate on objects that checks each entry on its own (such as the store's routing-patch gate) is
  kept by every way the code builds an object: assignment and spread.
\<close>

locale entry_gate =
  fixes ok :: "'k \<Rightarrow> 'v \<Rightarrow> bool"
    and accepts :: "('k \<times> 'v) list \<Rightarrow> bool"
  assumes accepts_iff: "accepts ob = (\<forall>(k, v) \<in> set ob. ok k v)"
begin

lemma accepts_Nil [simp]: "accepts []"
  by (simp add: accepts_iff)

lemma accepts_set: "accepts ob \<Longrightarrow> ok k v \<Longrightarrow> accepts (obj_set k v ob)"
  using set_obj_set by (fastforce simp: accepts_iff)

lemma accepts_merge: "accepts a \<Longrightarrow> accepts b \<Longrightarrow> accepts (obj_merge a b)"
  using set_obj_merge by (fastforce simp: accepts_iff)

lemma accepts_Cons: "accepts ((k, v) # ob) = (ok k v \<and> accepts ob)"
  by (simp add: accepts_iff)

end

section \<open>Optional values\<close>

definition orElse :: "'a option \<Rightarrow> 'a \<Rightarrow> 'a" where
  \<comment> \<open>\<open>x ?? d\<close>\<close>
  "orElse x d = (case x of None \<Rightarrow> d | Some v \<Rightarrow> v)"

lemma orElse_simps [simp]: "orElse None d = d" "orElse (Some v) d = v"
  by (simp_all add: orElse_def)

definition orOption :: "'a option \<Rightarrow> 'a option \<Rightarrow> 'a option" where
  \<comment> \<open>\<open>x ?? y\<close> where \<open>y\<close> may be absent too\<close>
  "orOption x y = (case x of None \<Rightarrow> y | Some v \<Rightarrow> Some v)"

lemma orOption_simps [simp]: "orOption None y = y" "orOption (Some v) y = Some v"
  by (simp_all add: orOption_def)

definition pos_only :: "number option \<Rightarrow> number option" where
  \<comment> \<open>the guard \<open>x != null && x > 0\<close> in front of an optional field\<close>
  "pos_only x = (case x of Some v \<Rightarrow> if v > 0 then Some v else None | None \<Rightarrow> None)"

lemma orElse_pos_only: "0 \<le> orElse x 0 \<Longrightarrow> orElse (pos_only x) 0 = orElse x 0"
  by (auto simp: pos_only_def orElse_def split: option.splits)

section \<open>Folds\<close>

text \<open>
  A state machine driven by a list of inputs. Whatever one step keeps, the whole run keeps; a
  measure that each step raises by the input's contribution ends raised by the sum.
\<close>

primrec admissible :: "('s \<Rightarrow> 'f \<Rightarrow> 's) \<Rightarrow> ('s \<Rightarrow> 'f \<Rightarrow> bool) \<Rightarrow> 's \<Rightarrow> 'f list \<Rightarrow> bool" where
  \<comment> \<open>every input is one the machine may be given in the state it is given in\<close>
  "admissible step ok s [] = True"
| "admissible step ok s (f # fs) = (ok s f \<and> admissible step ok (step s f) fs)"

locale step_invariant =
  fixes step :: "'s \<Rightarrow> 'f \<Rightarrow> 's"
    and inv :: "'s \<Rightarrow> bool"
    and ok :: "'s \<Rightarrow> 'f \<Rightarrow> bool"
  assumes step_inv: "inv s \<Longrightarrow> ok s f \<Longrightarrow> inv (step s f)"
begin

lemma foldl_inv: "inv s \<Longrightarrow> admissible step ok s fs \<Longrightarrow> inv (foldl step s fs)"
  by (induction fs arbitrary: s) (auto intro: step_inv)

end

locale additive_measure =
  fixes step :: "'s \<Rightarrow> 'f \<Rightarrow> 's"
    and measure_of :: "'s \<Rightarrow> number"
    and credit :: "'f \<Rightarrow> number"
  assumes step_adds: "measure_of (step s f) = measure_of s + credit f"
begin

lemma foldl_adds: "measure_of (foldl step s fs) = measure_of s + sum_list (map credit fs)"
  by (induction fs arbitrary: s) (auto simp: step_adds)

lemma foldl_mono: "\<forall>f \<in> set fs. 0 \<le> credit f \<Longrightarrow> measure_of s \<le> measure_of (foldl step s fs)"
  by (auto simp: foldl_adds intro!: sum_list_nonneg)

end

end
