(* ===== verification/Payload_Text.thy ===== *)
theory Payload_Text
  imports Fragua_Prelude
begin

text \<open>
  The free-text clipper of fact payloads, \<open>packages/core/src/payload-text.ts\<close>, and the part of
  the language it rests on: code points of a UTF-16 string, the escapes of \<open>JSON.stringify\<close> and
  the length of a UTF-8 encoding. The clipper walks the string by index; the theorems compare it
  with the code-point list of the string (\<open>codePoints\<close>) and with the size of the encoded JSON
  text, which is what the store's payload cap measures.
\<close>

section \<open>Code points, JSON escapes, UTF-8 sizes\<close>

definition isHigh :: "16 word \<Rightarrow> bool" where
  "isHigh u = (0xD800 \<le> unat u \<and> unat u \<le> 0xDBFF)"

definition isLow :: "16 word \<Rightarrow> bool" where
  "isLow u = (0xDC00 \<le> unat u \<and> unat u \<le> 0xDFFF)"

definition pairPoint :: "16 word \<Rightarrow> 16 word \<Rightarrow> nat" where
  "pairPoint a b = (unat a - 0xD800) * 0x400 + (unat b - 0xDC00) + 0x10000"

definition codePointAt :: "ustring \<Rightarrow> nat \<Rightarrow> nat option" where
  \<comment> \<open>\<open>String.prototype.codePointAt\<close>\<close>
  "codePointAt s i =
     (if i < length s then
        (if isHigh (s ! i) \<and> i + 1 < length s \<and> isLow (s ! (i + 1))
         then Some (pairPoint (s ! i) (s ! (i + 1))) else Some (unat (s ! i)))
      else None)"

fun codePoints :: "ustring \<Rightarrow> nat list" where
  \<comment> \<open>what \<open>for (const ch of s)\<close> iterates over\<close>
  "codePoints [] = []"
| "codePoints [a] = [unat a]"
| "codePoints (a # b # r) =
     (if isHigh a \<and> isLow b then pairPoint a b # codePoints r else unat a # codePoints (b # r))"

definition utf8Bytes :: "nat \<Rightarrow> nat" where
  "utf8Bytes cp = (if cp < 0x80 then 1 else if cp < 0x800 then 2 else if cp < 0x10000 then 3 else 4)"

definition byteLength :: "ustring \<Rightarrow> nat" where
  \<comment> \<open>\<open>new TextEncoder().encode(s).length\<close>: a lone surrogate is encoded as U+FFFD, three bytes\<close>
  "byteLength s = sum_list (map utf8Bytes (codePoints s))"

definition utf16Encode :: "nat \<Rightarrow> ustring" where
  "utf16Encode cp =
     (if cp > 0xFFFF
      then [of_nat (0xD800 + (cp - 0x10000) div 0x400), of_nat (0xDC00 + (cp - 0x10000) mod 0x400)]
      else [of_nat cp])"

definition hexDigit :: "nat \<Rightarrow> 16 word" where
  "hexDigit n = (if n < 10 then of_nat (48 + n) else of_nat (87 + n))"

definition unicodeEscape :: "nat \<Rightarrow> ustring" where
  "unicodeEscape cp =
     [92, 117, hexDigit (cp div 4096 mod 16), hexDigit (cp div 256 mod 16), hexDigit (cp div 16 mod 16),
      hexDigit (cp mod 16)]"

definition quotePoint :: "nat \<Rightarrow> ustring" where
  \<comment> \<open>one code point under \<open>JSON.stringify\<close>\<close>
  "quotePoint cp =
     (if cp = 8 then [92, 98] else if cp = 9 then [92, 116] else if cp = 10 then [92, 110]
      else if cp = 12 then [92, 102] else if cp = 13 then [92, 114]
      else if cp = 0x22 then [92, 0x22] else if cp = 0x5C then [92, 0x5C]
      else if cp < 0x20 \<or> (0xD800 \<le> cp \<and> cp \<le> 0xDFFF) then unicodeEscape cp
      else utf16Encode cp)"

definition JSON_quote :: "ustring \<Rightarrow> ustring" where
  \<comment> \<open>\<open>JSON.stringify\<close> of a string\<close>
  "JSON_quote s = [0x22] @ concat (map quotePoint (codePoints s)) @ [0x22]"

section \<open>The clipper\<close>

definition FACT_TEXT_MAX_BYTES :: int where
  "FACT_TEXT_MAX_BYTES = 2048"

definition CLIP_MARKER_PREFIX :: ustring where
  "CLIP_MARKER_PREFIX = U '' '' @ [0x2026] @ U '' [clipped ''"

definition CLIP_MARKER_SUFFIX :: ustring where
  "CLIP_MARKER_SUFFIX = U '' bytes]''"

definition escapedBytes :: "nat \<Rightarrow> nat" where
  "escapedBytes cp =
     (if cp = 0x22 \<or> cp = 0x5C then 2
      else if cp < 0x20
      then (if cp = 0x08 \<or> cp = 0x09 \<or> cp = 0x0A \<or> cp = 0x0C \<or> cp = 0x0D then 2 else 6)
      else if cp < 0x80 then 1
      else if cp < 0x800 then 2
      else if cp \<ge> 0xD800 \<and> cp \<le> 0xDFFF then 6
      else if cp < 0x10000 then 3
      else 4)"

definition marker :: "nat \<Rightarrow> ustring" where
  "marker droppedBytes = CLIP_MARKER_PREFIX @ nat_digits droppedBytes @ CLIP_MARKER_SUFFIX"

definition markerBytes :: "ustring \<Rightarrow> nat" where
  "markerBytes m = foldl (\<lambda>n cp. n + escapedBytes cp) 0 (codePoints m)"

record fit =
  fit_end :: nat
  fit_whole :: bool

function fitEnd_loop :: "ustring \<Rightarrow> nat \<Rightarrow> nat \<Rightarrow> nat \<Rightarrow> fit" where
  "fitEnd_loop s budget used i =
     (if i < length s then
        (let cp = orElse (codePointAt s i) 0; cost = escapedBytes cp in
         if used + cost > budget then \<lparr>fit_end = i, fit_whole = False\<rparr>
         else fitEnd_loop s budget (used + cost) (i + (if cp > 0xFFFF then 2 else 1)))
      else \<lparr>fit_end = i, fit_whole = True\<rparr>)"
  by pat_completeness auto
termination
  by (relation "measure (\<lambda>(s, budget, used, i). length s - i)") auto

declare fitEnd_loop.simps [simp del]

definition fitEnd :: "ustring \<Rightarrow> nat \<Rightarrow> fit" where
  "fitEnd s budget = fitEnd_loop s budget 0 0"

function utf8LengthFrom_loop :: "ustring \<Rightarrow> nat \<Rightarrow> nat \<Rightarrow> nat" where
  "utf8LengthFrom_loop s n i =
     (if i < length s then
        (let cp = orElse (codePointAt s i) 0
         in utf8LengthFrom_loop s (n + utf8Bytes cp) (i + (if cp > 0xFFFF then 2 else 1)))
      else n)"
  by pat_completeness auto
termination
  by (relation "measure (\<lambda>(s, n, i). length s - i)") auto

declare utf8LengthFrom_loop.simps [simp del]

definition utf8LengthFrom :: "ustring \<Rightarrow> nat \<Rightarrow> nat" where
  "utf8LengthFrom s from = utf8LengthFrom_loop s 0 from"

definition clipPayloadText :: "ustring \<Rightarrow> int \<Rightarrow> ustring" where
  "clipPayloadText s maxBytes =
     (if maxBytes \<le> 0 then []
      else
        let head = fitEnd s (nat maxBytes) in
        if fit_whole head then s
        else
          let reserve = markerBytes (marker (length s * 3)) in
          if int reserve \<ge> maxBytes then take (fit_end head) s
          else
            let e = fit_end (fitEnd s (nat maxBytes - reserve))
            in take e s @ marker (utf8LengthFrom s e))"

section \<open>Code points of a string\<close>

lemma isHigh_not_isLow: "isHigh a \<Longrightarrow> \<not> isLow a"
  by (simp add: isHigh_def isLow_def)

lemma unat16_less: "unat (u :: 16 word) < 0x10000"
  using unsigned_less [of u] by simp

lemma codePoints_append:
  "\<not> (isHigh (last a) \<and> isLow (hd b)) \<or> a = [] \<or> b = [] \<Longrightarrow> codePoints (a @ b) = codePoints a @ codePoints b"
proof (induction a rule: codePoints.induct)
  case (2 x)
  then show ?case by (cases b) auto
next
  case (3 x y r)
  show ?case
  proof (cases "isHigh x \<and> isLow y")
    case True
    then have "\<not> isHigh y" using isHigh_not_isLow by blast
    with 3 True show ?thesis by (cases r) (auto split: if_splits)
  next
    case False
    with 3 show ?thesis by auto
  qed
qed simp

lemma codePoints_Cons: "\<not> isHigh a \<Longrightarrow> codePoints (a # r) = unat a # codePoints r"
  by (cases r) auto

lemma codePoints_plain: "\<forall>a \<in> set s. \<not> isHigh a \<Longrightarrow> codePoints s = map unat s"
  by (induction s) (simp_all add: codePoints_Cons)

definition stepOf :: "nat \<Rightarrow> nat" where
  "stepOf cp = (if cp > 0xFFFF then 2 else 1)"

lemma codePointAt_drop:
  assumes "i < length s"
  obtains cp where "codePointAt s i = Some cp" "i + stepOf cp \<le> length s"
    "codePoints (drop i s) = cp # codePoints (drop (i + stepOf cp) s)"
    "\<forall>b. codePoints (take (stepOf cp) (drop i s) @ take b (drop (i + stepOf cp) s))
        = cp # codePoints (take b (drop (i + stepOf cp) s))"
proof -
  let ?a = "s ! i"
  have d: "drop i s = ?a # drop (Suc i) s" using assms by (simp add: Cons_nth_drop_Suc)
  show ?thesis
  proof (cases "isHigh ?a \<and> Suc i < length s \<and> isLow (s ! Suc i)")
    case True
    let ?b = "s ! Suc i"
    have d2: "drop (Suc i) s = ?b # drop (i + 2) s"
      using True by (simp add: Cons_nth_drop_Suc)
    have st: "stepOf (pairPoint ?a ?b) = 2" by (simp add: stepOf_def pairPoint_def)
    show ?thesis
      by (rule that [of "pairPoint ?a ?b"])
        (use True assms d d2 st in \<open>auto simp: codePointAt_def numeral_2_eq_2\<close>)
  next
    case False
    have st: "stepOf (unat ?a) = 1" using unat16_less [of ?a] by (simp add: stepOf_def)
    have ad: "codePoints ([?a] @ r) = unat ?a # codePoints r" if "r = [] \<or> hd r = s ! Suc i \<and> Suc i < length s" for r
      using that False codePoints_append [of "[?a]" r] by auto
    have hd: "drop (Suc i) s = [] \<or> hd (drop (Suc i) s) = s ! Suc i \<and> Suc i < length s"
      by (metis hd_drop_conv_nth drop_all linorder_not_le)
    then have hdt: "take b (drop (Suc i) s) = [] \<or> hd (take b (drop (Suc i) s)) = s ! Suc i \<and> Suc i < length s" for b
      by (cases b; cases "drop (Suc i) s") auto
    show ?thesis
      by (rule that [of "unat ?a"])
        (use False assms d st ad [OF hd] ad [OF hdt] in \<open>auto simp: codePointAt_def\<close>)
  qed
qed

lemma codePoints_length: "length (codePoints s) \<le> length s"
  by (induction s rule: codePoints.induct) auto

lemma byteLength_le: "byteLength s \<le> 3 * length s"
proof (induction s rule: codePoints.induct)
  case (2 a)
  then show ?case using unat16_less [of a] by (simp add: byteLength_def utf8Bytes_def)
next
  case (3 a b r)
  then show ?case using unat16_less [of a] by (auto simp: byteLength_def utf8Bytes_def)
qed (simp add: byteLength_def)

section \<open>Sizes\<close>

definition escapedSize :: "ustring \<Rightarrow> nat" where
  "escapedSize s = sum_list (map escapedBytes (codePoints s))"

lemma markerBytes_eq: "markerBytes m = escapedSize m"
proof -
  have "foldl (\<lambda>n cp. n + escapedBytes cp) k cps = k + sum_list (map escapedBytes cps)" for k cps
    by (induction cps arbitrary: k) auto
  then show ?thesis by (simp add: markerBytes_def escapedSize_def)
qed

lemma escapedSize_append:
  "\<not> (isHigh (last a) \<and> isLow (hd b)) \<or> a = [] \<or> b = [] \<Longrightarrow> escapedSize (a @ b) = escapedSize a + escapedSize b"
  by (simp add: escapedSize_def codePoints_append)

lemma digits_plain:
  "\<forall>c \<in> set (nat_digits n). \<not> isHigh c \<and> \<not> isLow c \<and> escapedBytes (unat c) = 1"
proof
  fix c assume "c \<in> set (nat_digits n)"
  then have "48 \<le> c \<and> c < 58" using nat_digits_ascii by blast
  then have "48 \<le> unat c" "unat c < 58" by (simp_all add: word_le_nat_alt word_less_nat_alt)
  then show "\<not> isHigh c \<and> \<not> isLow c \<and> escapedBytes (unat c) = 1"
    by (simp add: isHigh_def isLow_def escapedBytes_def)
qed

lemma affixes_plain:
  "\<forall>c \<in> set CLIP_MARKER_PREFIX. \<not> isHigh c" "\<forall>c \<in> set CLIP_MARKER_SUFFIX. \<not> isHigh c"
  by (auto simp: CLIP_MARKER_PREFIX_def CLIP_MARKER_SUFFIX_def ustr isHigh_def)

lemma marker_plain: "\<forall>c \<in> set (marker n). \<not> isHigh c"
  using affixes_plain digits_plain by (auto simp: marker_def)

lemma marker_hd: "marker n \<noteq> [] \<and> \<not> isLow (hd (marker n))"
  by (simp add: marker_def CLIP_MARKER_PREFIX_def ustr isLow_def)

lemma escapedSize_marker: "escapedSize (marker n) = 21 + length (nat_digits n)"
proof -
  have pl: "escapedSize t = sum_list (map (\<lambda>c. escapedBytes (unat c)) t)" if "\<forall>c \<in> set t. \<not> isHigh c" for t
    using that by (simp add: escapedSize_def codePoints_plain comp_def)
  have one: "sum_list (map (\<lambda>c. escapedBytes (unat c)) t) = length t"
    if "\<forall>c \<in> set t. escapedBytes (unat c) = 1" for t :: ustring
    using that by (induction t) auto
  have d: "sum_list (map (\<lambda>c. escapedBytes (unat c)) (nat_digits n)) = length (nat_digits n)"
    using one digits_plain by blast
  show ?thesis
    unfolding pl [OF marker_plain]
    unfolding marker_def map_append sum_list_append d
    by (simp add: CLIP_MARKER_PREFIX_def CLIP_MARKER_SUFFIX_def ustr escapedBytes_def)
qed

lemma escapedSize_marker_mono: "m \<le> n \<Longrightarrow> escapedSize (marker m) \<le> escapedSize (marker n)"
  by (simp add: escapedSize_marker length_nat_digits_mono)

section \<open>The two walks\<close>

lemma utf8LengthFrom_loop_eq: "utf8LengthFrom_loop s n i = n + byteLength (drop i s)"
proof (induction s n i rule: utf8LengthFrom_loop.induct)
  case (1 s n i)
  show ?case
  proof (cases "i < length s")
    case True
    then obtain cp where cp: "codePointAt s i = Some cp"
      "codePoints (drop i s) = cp # codePoints (drop (i + stepOf cp) s)"
      by (rule codePointAt_drop)
    have "utf8LengthFrom_loop s n i = utf8LengthFrom_loop s (n + utf8Bytes cp) (i + stepOf cp)"
      using True cp(1) by (subst utf8LengthFrom_loop.simps) (simp add: stepOf_def)
    also have "\<dots> = n + utf8Bytes cp + byteLength (drop (i + stepOf cp) s)"
      using 1 [of cp] True cp(1) by (simp add: stepOf_def)
    finally show ?thesis by (simp add: byteLength_def cp(2))
  next
    case False
    then show ?thesis by (simp add: utf8LengthFrom_loop.simps byteLength_def)
  qed
qed

text \<open>
  The walk stops at a code point boundary \<open>e\<close>: the code points before and after \<open>e\<close> are those of
  the string. What is before fits the budget; the walk is whole only at the end of the string, and
  otherwise the next code point would not have fitted.
\<close>

definition walked :: "ustring \<Rightarrow> nat \<Rightarrow> nat \<Rightarrow> nat \<Rightarrow> fit \<Rightarrow> bool" where
  "walked s budget used i r =
     (i \<le> fit_end r \<and> fit_end r \<le> length s
      \<and> codePoints (drop i s) = codePoints (take (fit_end r - i) (drop i s)) @ codePoints (drop (fit_end r) s)
      \<and> used + escapedSize (take (fit_end r - i) (drop i s)) \<le> budget
      \<and> (if fit_whole r then fit_end r = length s
         else fit_end r < length s
           \<and> used + escapedSize (take (fit_end r - i) (drop i s))
               + escapedBytes (hd (codePoints (drop (fit_end r) s))) > budget))"

lemma walked_step:
  assumes "codePoints (drop i s) = cp # codePoints (drop (i + stepOf cp) s)"
    and "\<forall>b. codePoints (take (stepOf cp) (drop i s) @ take b (drop (i + stepOf cp) s))
        = cp # codePoints (take b (drop (i + stepOf cp) s))"
    and w: "walked s budget (used + escapedBytes cp) (i + stepOf cp) r"
  shows "walked s budget used i r"
proof -
  let ?e = "fit_end r"
  have le: "i + stepOf cp \<le> ?e" using w by (simp add: walked_def)
  then have "?e - i = stepOf cp + (?e - (i + stepOf cp))" by simp
  then have tk: "take (?e - i) (drop i s)
      = take (stepOf cp) (drop i s) @ take (?e - (i + stepOf cp)) (drop (i + stepOf cp) s)"
    by (metis take_add drop_drop add.commute)
  have cps: "codePoints (take (?e - i) (drop i s)) = cp # codePoints (take (?e - (i + stepOf cp)) (drop (i + stepOf cp) s))"
    unfolding tk by (rule assms(2) [rule_format])
  then have sz: "escapedSize (take (?e - i) (drop i s))
      = escapedBytes cp + escapedSize (take (?e - (i + stepOf cp)) (drop (i + stepOf cp) s))"
    by (simp add: escapedSize_def)
  show ?thesis using w le by (auto simp: walked_def sz cps assms(1))
qed

lemma fitEnd_loop_walked: "used \<le> budget \<Longrightarrow> i \<le> length s \<Longrightarrow> walked s budget used i (fitEnd_loop s budget used i)"
proof (induction s budget used i rule: fitEnd_loop.induct)
  case (1 s budget used i)
  show ?case
  proof (cases "i < length s")
    case True
    then obtain cp where cp: "codePointAt s i = Some cp" "i + stepOf cp \<le> length s"
      "codePoints (drop i s) = cp # codePoints (drop (i + stepOf cp) s)"
      "\<forall>b. codePoints (take (stepOf cp) (drop i s) @ take b (drop (i + stepOf cp) s))
        = cp # codePoints (take b (drop (i + stepOf cp) s))"
      by (rule codePointAt_drop)
    show ?thesis
    proof (cases "used + escapedBytes cp > budget")
      case over: True
      have "fitEnd_loop s budget used i = \<lparr>fit_end = i, fit_whole = False\<rparr>"
        using True over cp(1) by (subst fitEnd_loop.simps) simp
      then show ?thesis using True over "1.prems" by (simp add: walked_def cp(3) escapedSize_def)
    next
      case False
      have eq: "fitEnd_loop s budget used i = fitEnd_loop s budget (used + escapedBytes cp) (i + stepOf cp)"
        using True False cp(1) by (subst fitEnd_loop.simps) (simp add: stepOf_def)
      have "walked s budget (used + escapedBytes cp) (i + stepOf cp)
          (fitEnd_loop s budget (used + escapedBytes cp) (i + stepOf cp))"
        using "1.IH" [OF True refl refl] False cp(1,2) by (simp add: stepOf_def split: if_splits)
      then show ?thesis unfolding eq by (rule walked_step [OF cp(3,4)])
    qed
  next
    case False
    with "1.prems" show ?thesis
      by (simp add: fitEnd_loop.simps walked_def escapedSize_def)
  qed
qed

lemma fitEnd_walked: "walked s budget 0 0 (fitEnd s budget)"
  unfolding fitEnd_def by (rule fitEnd_loop_walked) simp_all

lemma fitEnd_facts:
  fixes s budget
  defines "e \<equiv> fit_end (fitEnd s budget)"
  shows "codePoints s = codePoints (take e s) @ codePoints (drop e s)"
    and "escapedSize (take e s) \<le> budget"
    and "fit_whole (fitEnd s budget) = (escapedSize s \<le> budget)"
proof -
  note w = fitEnd_walked [of s budget, unfolded walked_def, folded e_def, simplified]
  show 1: "codePoints s = codePoints (take e s) @ codePoints (drop e s)" using w by simp
  show "escapedSize (take e s) \<le> budget" using w by simp
  have sz: "escapedSize s = escapedSize (take e s) + escapedSize (drop e s)"
    unfolding escapedSize_def by (subst 1) simp
  show "fit_whole (fitEnd s budget) = (escapedSize s \<le> budget)"
  proof (cases "fit_whole (fitEnd s budget)")
    case False
    with w have e: "e < length s" "escapedSize (take e s) + escapedBytes (hd (codePoints (drop e s))) > budget"
      by simp_all
    obtain cp r where "codePoints (drop e s) = cp # r"
      using codePointAt_drop [OF e(1)] by metis
    then have "escapedBytes (hd (codePoints (drop e s))) \<le> escapedSize (drop e s)"
      by (simp add: escapedSize_def)
    with e sz False show ?thesis by simp
  next
    case True
    with w have "e = length s" by simp
    moreover have "escapedSize (take e s) \<le> budget" using w by blast
    ultimately show ?thesis using True by simp
  qed
qed

section \<open>The escaped size is the size of the encoded JSON text\<close>

lemma codePoints_range: "cp \<in> set (codePoints s) \<Longrightarrow> cp < 0x110000"
proof (induction s rule: codePoints.induct)
  case (2 a)
  then show ?case using unat16_less [of a] by simp
next
  case (3 a b r)
  then show ?case using unat16_less [of a]
    by (auto simp: pairPoint_def isHigh_def isLow_def split: if_splits)
qed simp

lemma unat_of_nat16: "unat (of_nat n :: 16 word) = n mod 0x10000"
  by (simp add: unat_of_nat)

lemma quote_utf16:
  assumes "cp < 0x110000" "\<not> (0xD800 \<le> cp \<and> cp \<le> 0xDFFF)"
  shows "utf16Encode cp \<noteq> []" "\<not> isHigh (last (utf16Encode cp))" "codePoints (utf16Encode cp) = [cp]"
proof -
  let ?x = "cp - 0x10000"
  show "utf16Encode cp \<noteq> []" by (simp add: utf16Encode_def)
  show "\<not> isHigh (last (utf16Encode cp))"
    using assms mod_less_divisor [of "0x400" ?x]
    by (auto simp: utf16Encode_def isHigh_def unat_of_nat16 simp del: mod_less_divisor of_nat_add)
  show "codePoints (utf16Encode cp) = [cp]"
  proof (cases "cp > 0xFFFF")
    case True
    have x: "?x div 0x400 < 0x400" "?x mod 0x400 < 0x400" using assms True by (auto simp: div_less_iff_less_mult)
    then have u: "unat (of_nat (0xD800 + ?x div 0x400) :: 16 word) = 0xD800 + ?x div 0x400"
      "unat (of_nat (0xDC00 + ?x mod 0x400) :: 16 word) = 0xDC00 + ?x mod 0x400"
      unfolding unat_of_nat16 by (simp_all add: mod_less del: mod_add_self1)
    have "?x div 0x400 * 0x400 + ?x mod 0x400 + 0x10000 = cp"
      using True by (simp add: div_mult_mod_eq)
    with True x show ?thesis
      by (simp add: utf16Encode_def isHigh_def isLow_def pairPoint_def u del: of_nat_add)
  next
    case False
    then show ?thesis by (simp add: utf16Encode_def unat_of_nat16)
  qed
qed

lemma hexDigit_ascii: "n < 16 \<Longrightarrow> unat (hexDigit n) < 0x80 \<and> 48 \<le> unat (hexDigit n)"
  by (simp add: hexDigit_def unat_of_nat16 del: of_nat_add)

lemma quote_unicode:
  "unicodeEscape cp \<noteq> []" "\<not> isHigh (last (unicodeEscape cp))" "byteLength (unicodeEscape cp) = 6"
proof -
  have h: "unat (hexDigit (n mod 16)) < 0x80" "\<not> isHigh (hexDigit (n mod 16))" for n
    using hexDigit_ascii [of "n mod 16"] by (auto simp: isHigh_def)
  show "unicodeEscape cp \<noteq> []" "\<not> isHigh (last (unicodeEscape cp))"
    by (simp_all add: unicodeEscape_def h)
  have "codePoints (unicodeEscape cp) = map unat (unicodeEscape cp)"
    by (rule codePoints_plain) (simp add: unicodeEscape_def h, simp add: isHigh_def)
  then show "byteLength (unicodeEscape cp) = 6"
    by (simp add: byteLength_def unicodeEscape_def utf8Bytes_def h)
qed

lemma quotePoint_piece:
  assumes "cp < 0x110000"
  shows "quotePoint cp \<noteq> [] \<and> \<not> isHigh (last (quotePoint cp)) \<and> byteLength (quotePoint cp) = escapedBytes cp"
proof (cases "cp \<in> {8, 9, 10, 12, 13, 0x22, 0x5C}")
  case True
  then show ?thesis
    by (auto simp: quotePoint_def isHigh_def byteLength_def codePoints_plain utf8Bytes_def escapedBytes_def)
next
  case False
  show ?thesis
  proof (cases "cp < 0x20 \<or> (0xD800 \<le> cp \<and> cp \<le> 0xDFFF)")
    case True
    with False have "quotePoint cp = unicodeEscape cp" "escapedBytes cp = 6"
      by (auto simp: quotePoint_def escapedBytes_def)
    then show ?thesis using quote_unicode by simp
  next
    case plain: False
    with False have q: "quotePoint cp = utf16Encode cp" by (auto simp: quotePoint_def)
    have "\<not> (0xD800 \<le> cp \<and> cp \<le> 0xDFFF)" using plain by simp
    note u = quote_utf16 [OF assms this]
    have "utf8Bytes cp = escapedBytes cp" using plain False by (auto simp: utf8Bytes_def escapedBytes_def)
    then show ?thesis using u by (simp add: q byteLength_def)
  qed
qed

lemma byteLength_append: "\<not> isHigh (last a) \<or> a = [] \<Longrightarrow> byteLength (a @ b) = byteLength a + byteLength b"
  by (auto simp: byteLength_def codePoints_append)

lemma byteLength_JSON_quote: "byteLength (JSON_quote s) = escapedSize s + 2"
proof -
  have "byteLength (concat (map quotePoint cps) @ [0x22]) = sum_list (map escapedBytes cps) + 1"
    if "\<forall>cp \<in> set cps. cp < 0x110000" for cps
    using that
  proof (induction cps)
    case Nil
    then show ?case by (simp add: byteLength_def utf8Bytes_def)
  next
    case (Cons cp cps)
    then show ?case using quotePoint_piece [of cp] by (simp add: byteLength_append)
  qed
  moreover have "byteLength ([0x22] @ t) = 1 + byteLength t" for t
    by (subst byteLength_append) (simp_all add: isHigh_def byteLength_def utf8Bytes_def)
  ultimately show ?thesis using codePoints_range by (simp add: JSON_quote_def escapedSize_def)
qed

section \<open>What the clipper promises\<close>

lemma escapedSize_aligned:
  assumes "codePoints s = codePoints (take e s) @ codePoints (drop e s)"
  shows "escapedSize (take e s @ marker d) = escapedSize (take e s) + escapedSize (marker d)"
  using marker_hd by (intro escapedSize_append) auto

lemma clip_cases:
  obtains (none) "n \<le> 0" "clipPayloadText s n = []"
  | (whole) "0 < n" "escapedSize s \<le> nat n" "clipPayloadText s n = s"
  | (bare) e where "0 < n" "escapedSize s > nat n" "clipPayloadText s n = take e s"
      "codePoints s = codePoints (take e s) @ codePoints (drop e s)" "escapedSize (take e s) \<le> nat n"
  | (marked) e where "0 < n" "escapedSize s > nat n" "clipPayloadText s n = take e s @ marker (byteLength (drop e s))"
      "codePoints s = codePoints (take e s) @ codePoints (drop e s)"
      "escapedSize (take e s) + escapedSize (marker (byteLength (drop e s))) \<le> nat n"
proof -
  let ?r = "markerBytes (marker (length s * 3))"
  show thesis
  proof (cases "n \<le> 0")
    case True
    then show thesis using none by (simp add: clipPayloadText_def)
  next
    case False
    then have n: "0 < n" by simp
    show thesis
    proof (cases "escapedSize s \<le> nat n")
      case True
      then show thesis using n whole fitEnd_facts(3) [of s "nat n"] by (simp add: clipPayloadText_def)
    next
      case nofit: False
      note f = fitEnd_facts [of s "nat n"]
      show thesis
      proof (cases "int ?r \<ge> n")
        case True
        then show thesis using n nofit f bare by (simp add: clipPayloadText_def)
      next
        case False
        define e where "e = fit_end (fitEnd s (nat n - ?r))"
        note g = fitEnd_facts [of s "nat n - ?r", folded e_def]
        have "byteLength (drop e s) \<le> length s * 3"
          using byteLength_le [of "drop e s"] by simp
        then have "escapedSize (marker (byteLength (drop e s))) \<le> ?r"
          by (simp add: markerBytes_eq escapedSize_marker_mono)
        then have fits: "escapedSize (take e s) + escapedSize (marker (byteLength (drop e s))) \<le> nat n"
          using g(2) False n by linarith
        have "clipPayloadText s n = take e s @ marker (byteLength (drop e s))"
          using n nofit f(3) False
          by (simp add: clipPayloadText_def Let_def e_def utf8LengthFrom_def utf8LengthFrom_loop_eq)
        then show thesis using marked n nofit g(1) fits by simp
      qed
    qed
  qed
qed

lemma clip_escapedSize: "escapedSize (clipPayloadText s n) \<le> nat n"
proof (cases rule: clip_cases [of n s])
  case (marked e)
  then show ?thesis by (simp add: escapedSize_aligned)
qed (simp_all add: escapedSize_def)

lemma escapedSize_prefixed:
  "a \<noteq> [] \<Longrightarrow> \<not> isHigh (last a) \<Longrightarrow> escapedSize (a @ clipPayloadText s n) \<le> escapedSize a + nat n"
  using clip_escapedSize [of s n] by (simp add: escapedSize_append)

text \<open>whatever the text and the byte budget, the UTF-8 encoding of the clipped text under
  \<open>JSON.stringify\<close> is at most the budget, the two quotes apart.\<close>

theorem clipPayloadText_bound: "byteLength (JSON_quote (clipPayloadText s n)) \<le> nat n + 2"
  by (simp add: byteLength_JSON_quote clip_escapedSize)

lemma escapedSize_zero: "escapedSize s = 0 \<Longrightarrow> s = []"
proof -
  have pos: "(escapedBytes cp = 0) = False" for cp by (simp add: escapedBytes_def)
  have "cps = []" if "sum_list (map escapedBytes cps) = 0" for cps
    using that by (cases cps) (auto simp: pos)
  moreover have "s = []" if "codePoints s = []"
    using that by (cases s rule: codePoints.cases) (auto split: if_splits)
  ultimately show "escapedSize s = 0 \<Longrightarrow> s = []" unfolding escapedSize_def by blast
qed

text \<open>the clipper returns its input exactly when the input's encoded JSON text fits the
  budget; every clipped result is a prefix that ends on a code point boundary (so no surrogate
  pair is split), alone or followed by a marker that counts exactly the UTF-8 bytes dropped.\<close>

theorem clipPayloadText_shape:
  "(clipPayloadText s n = s \<longleftrightarrow> byteLength (JSON_quote s) \<le> nat n + 2)
   \<and> (\<exists>e. codePoints s = codePoints (take e s) @ codePoints (drop e s)
        \<and> clipPayloadText s n \<in> {take e s, take e s @ marker (byteLength (drop e s))})"
proof (cases rule: clip_cases [of n s])
  case none
  then have "clipPayloadText s n = take 0 s" "codePoints s = codePoints (take 0 s) @ codePoints (drop 0 s)"
    "clipPayloadText s n = s \<longleftrightarrow> escapedSize s = 0"
    using escapedSize_zero [of s] by (auto simp: escapedSize_def)
  then show ?thesis unfolding byteLength_JSON_quote using none(1) by (auto intro!: exI [of _ 0])
next
  case whole
  then show ?thesis unfolding byteLength_JSON_quote by (auto intro!: exI [of _ "length s"])
next
  case (bare e)
  then have "clipPayloadText s n \<noteq> s" by auto
  with bare show ?thesis unfolding byteLength_JSON_quote by auto
next
  case (marked e)
  then have "escapedSize (clipPayloadText s n) \<le> nat n" by (simp add: escapedSize_aligned)
  with marked have "clipPayloadText s n \<noteq> s" by auto
  with marked show ?thesis unfolding byteLength_JSON_quote by auto
qed

end
