(* ===== verification/Events.thy ===== *)
theory Events
  imports Fragua_Prelude
begin

text \<open>
  The vocabulary of the event log, \<open>packages/types/src/events.ts\<close>: run statuses and their
  classification, pause and halt reasons, the genesis payload, and the union of fact events the
  daemon appends (the reducer of theory \<open>Reducers\<close> folds them, the planners emit them).

  A payload with many fields is a record, a small one is the argument list of its constructor, in
  the order of the source; an optional field is an \<open>option\<close>. The eight optional token and cost
  buckets that several payloads repeat (with and without the \<open>partial\<close> prefix) are the record
  \<open>UsageSplit\<close>. Counters are rationals (\<open>number\<close>); event sequence numbers are \<open>int\<close>.
\<close>

section \<open>Statuses and reasons\<close>

datatype (plugins only: code size) RunStatus = St_queued | St_running | St_paused | St_paused_human | St_paused_auto
  | St_completed | St_cancelled | St_halted | St_quarantined

definition RUN_STATUSES :: "RunStatus list" where
  "RUN_STATUSES = [St_queued, St_running, St_paused, St_paused_human, St_paused_auto,
     St_completed, St_cancelled, St_halted, St_quarantined]"

datatype (plugins only: code size) UiStatus = Ui_queued | Ui_running | Ui_paused | Ui_success | Ui_fail | Ui_canceled

primrec STATUS_TO_UI :: "RunStatus \<Rightarrow> UiStatus" where
  "STATUS_TO_UI St_completed = Ui_success"
| "STATUS_TO_UI St_cancelled = Ui_canceled"
| "STATUS_TO_UI St_halted = Ui_fail"
| "STATUS_TO_UI St_quarantined = Ui_fail"
| "STATUS_TO_UI St_running = Ui_running"
| "STATUS_TO_UI St_queued = Ui_queued"
| "STATUS_TO_UI St_paused = Ui_paused"
| "STATUS_TO_UI St_paused_human = Ui_paused"
| "STATUS_TO_UI St_paused_auto = Ui_paused"

definition mapStatus :: "RunStatus \<Rightarrow> UiStatus" where
  "mapStatus status = STATUS_TO_UI status"

definition TERMINAL_STATUSES :: "RunStatus list" where
  "TERMINAL_STATUSES = [St_completed, St_cancelled, St_halted]"

definition isTerminal :: "RunStatus \<Rightarrow> bool" where
  "isTerminal status = (status \<in> set TERMINAL_STATUSES)"

definition SETTLED_STATUSES :: "RunStatus list" where
  "SETTLED_STATUSES = [St_completed, St_cancelled, St_halted, St_quarantined]"

definition isSettled :: "RunStatus \<Rightarrow> bool" where
  "isSettled status = (status \<in> set SETTLED_STATUSES)"

datatype (plugins only: code size) PauseReason = PR_operator | PR_provider_error | PR_payment_required | PR_budget
  | PR_max_retries | PR_goal_gate | PR_max_loops | PR_abort_loop | PR_provider_exhausted
  | PR_engine_incompatible | PR_provider_retry | PR_handler_retry | PR_timeout_retry

definition AUTO_WAKE_PAUSE_REASONS :: "PauseReason list" where
  "AUTO_WAKE_PAUSE_REASONS = [PR_provider_retry, PR_handler_retry, PR_timeout_retry]"

datatype (plugins only: code size) HaltReason = HR_budget | HR_error | HR_aborted_exit | HR_occ_exhausted
  | HR_timeout_exhausted | HR_route_not_picked | HR_route_call_not_isolated | HR_edge_no_match
  | HR_worktree_error

datatype (plugins only: code size) QuarantineReason = QR_orphan_side_effect | QR_other

datatype (plugins only: code size) WorkflowScope = WS_global | WS_local | WS_path | WS_ephemeral

datatype (plugins only: code size) OutcomeStatus = OS_success | OS_fail | OS_retry

section \<open>Genesis\<close>

record RunEnqueuedPayload =
  rq_workflowSha :: ustring
  rq_priority :: "number option"
  rq_projectId :: ustring
  rq_projectName :: ustring
  rq_routing :: jsobj
  rq_contractVersion :: number
  rq_workflowName :: "ustring option"
  rq_workflowScope :: "WorkflowScope option"
  rq_workflowPath :: "ustring option"
  rq_scheduleId :: "ustring option"
  rq_title :: "ustring option"
  rq_baseGitSha :: "ustring option"
  rq_baseGitRef :: "ustring option"
  rq_baseHeadSha :: "ustring option"
  rq_inCheckout :: bool

section \<open>Facts\<close>

record SnapshotStat =
  ss_filesChanged :: number
  ss_insertions :: number
  ss_deletions :: number

record ChangeStat =
  cs_committed :: "SnapshotStat option"
  cs_uncommitted :: "SnapshotStat option"

datatype (plugins only: code size) InboxStatus = IB_pending | IB_acted | IB_discarded

datatype (plugins only: code size) SteerDisposition = SD_delivered | SD_buffered

record UsageSplit =
  us_inputTokens :: "number option"
  us_outputTokens :: "number option"
  us_cacheReadTokens :: "number option"
  us_cacheWriteTokens :: "number option"
  us_inputCostUsd :: "number option"
  us_outputCostUsd :: "number option"
  us_cacheReadCostUsd :: "number option"
  us_cacheWriteCostUsd :: "number option"

definition emptySplit :: UsageSplit where
  "emptySplit = \<lparr>us_inputTokens = None, us_outputTokens = None, us_cacheReadTokens = None,
     us_cacheWriteTokens = None, us_inputCostUsd = None, us_outputCostUsd = None,
     us_cacheReadCostUsd = None, us_cacheWriteCostUsd = None\<rparr>"

record RunStartedPayload =
  rs_workflowSha :: ustring
  rs_contractVersion :: number
  rs_startNode :: ustring
  rs_baseGitSha :: "ustring option"
  rs_baseGitRef :: "ustring option"
  rs_baseHeadSha :: "ustring option"

datatype (plugins only: code size) ResumeOf = RO_fresh | RO_crash | RO_paused | RO_paused_human | RO_paused_auto | RO_quarantined

record DispatchStartedPayload =
  ds_nodeId :: ustring
  ds_iteration :: number
  ds_pass :: "number option"
  ds_resumeOf :: ResumeOf

record NodeCompletedPayload =
  nc_nodeId :: ustring
  nc_iteration :: number
  nc_pass :: "number option"
  nc_tokens :: number
  nc_costUsd :: number
  nc_split :: UsageSplit
  nc_modelName :: "ustring option"
  nc_nextNode :: ustring
  nc_outcomeStatus :: "OutcomeStatus option"
  nc_route :: "ustring option"
  nc_outputs :: "jsobj option"

record NodeAbortedPayload =
  ab_nodeId :: ustring
  ab_iteration :: number
  ab_pass :: "number option"
  ab_cause :: ustring
  ab_partialTokens :: number
  ab_partialCostUsd :: number
  ab_split :: UsageSplit

record HumanSnapshot =
  hs_treeSha :: ustring
  hs_commitSha :: ustring
  hs_headSha :: "ustring option"
  hs_headRef :: "ustring option"
  hs_baseGitSha :: ustring
  hs_diffBaseSha :: ustring
  hs_committed :: "SnapshotStat option"
  hs_uncommitted :: "SnapshotStat option"

record HumanPause =
  hp_nodeId :: ustring
  hp_text :: ustring
  hp_routes :: "ustring list"
  hp_routeLabels :: "(ustring \<times> ustring) list option"
  hp_snapshot :: "HumanSnapshot option"

datatype (plugins only: code size) BudgetScope = BS_node | BS_run
datatype (plugins only: code size) BudgetMetric = BM_cost | BM_tokens

record RetryTimer =
  \<comment> \<open>the fields the two timed retries of \<open>fact.run_paused\<close> share\<close>
  rt_attempt :: number
  rt_delayMs :: number
  rt_resumeAt :: number
  rt_max :: number

datatype (plugins only: code size) RunPausedPayload =
    RP_human HumanPause
  | RP_operator ustring \<comment> \<open>nodeId\<close>
  | RP_provider_error ustring "number option" ustring ustring "ustring option" "number option"
      \<comment> \<open>nodeId httpStatus provider errorMessage detail retryAfterMs\<close>
  | RP_payment_required ustring ustring ustring \<comment> \<open>nodeId provider errorMessage\<close>
  | RP_budget ustring BudgetScope BudgetMetric jsnum number \<comment> \<open>nodeId scope metric limit actual\<close>
  | RP_provider_retry ustring "number option" ustring ustring number number "number option"
      \<comment> \<open>nodeId httpStatus provider errorMessage attempt resumeAt retryAfterMs\<close>
  | RP_handler_retry ustring RetryTimer \<comment> \<open>nodeId attempt delayMs resumeAt maxRetries\<close>
  | RP_timeout_retry ustring RetryTimer number
      \<comment> \<open>nodeId attempt delayMs resumeAt maxAttempts attemptedMs\<close>
  | RP_max_retries ustring number number \<comment> \<open>nodeId currentLimit attempts\<close>
  | RP_goal_gate ustring number \<comment> \<open>gateNodeId currentLimit\<close>
  | RP_max_loops number number \<comment> \<open>currentLimit dispatches\<close>
  | RP_abort_loop ustring number \<comment> \<open>nodeId consecutiveAborts\<close>
  | RP_provider_exhausted ustring number number \<comment> \<open>nodeId attempts cumulativeMs\<close>
  | RP_engine_incompatible number number number \<comment> \<open>pinnedVersion supportedMin supportedMax\<close>

primrec pauseReason :: "RunPausedPayload \<Rightarrow> PauseReason option" where
  \<comment> \<open>\<open>payload.reason\<close>; None is the reason \<open>human\<close>, which is not a \<open>PauseReason\<close>\<close>
  "pauseReason (RP_human _) = None"
| "pauseReason (RP_operator _) = Some PR_operator"
| "pauseReason (RP_provider_error _ _ _ _ _ _) = Some PR_provider_error"
| "pauseReason (RP_payment_required _ _ _) = Some PR_payment_required"
| "pauseReason (RP_budget _ _ _ _ _) = Some PR_budget"
| "pauseReason (RP_provider_retry _ _ _ _ _ _ _) = Some PR_provider_retry"
| "pauseReason (RP_handler_retry _ _) = Some PR_handler_retry"
| "pauseReason (RP_timeout_retry _ _ _) = Some PR_timeout_retry"
| "pauseReason (RP_max_retries _ _ _) = Some PR_max_retries"
| "pauseReason (RP_goal_gate _ _) = Some PR_goal_gate"
| "pauseReason (RP_max_loops _ _) = Some PR_max_loops"
| "pauseReason (RP_abort_loop _ _) = Some PR_abort_loop"
| "pauseReason (RP_provider_exhausted _ _ _) = Some PR_provider_exhausted"
| "pauseReason (RP_engine_incompatible _ _ _) = Some PR_engine_incompatible"

record OccContext =
  occ_count :: number
  occ_nodeId :: ustring
  occ_iteration :: number
  occ_lastVersion :: int
  occ_attemptedFactType :: ustring

record RunErrored =
  re_reason :: HaltReason
  re_detail :: "ustring option"
  re_nodeId :: "ustring option"
  re_partialTokens :: "number option"
  re_partialCostUsd :: "number option"
  re_split :: UsageSplit
  re_occContext :: "OccContext option"

datatype (plugins only: code size) RunTerminatedPayload =
    RT_completed ustring \<comment> \<open>finalNode\<close>
  | RT_errored RunErrored
  | RT_aborted int \<comment> \<open>intentSeq\<close>

record SnapshotRecordedPayload =
  sr_eventIdx :: number
  sr_treeSha :: ustring
  sr_commitSha :: ustring
  sr_parentSnap :: ustring
  sr_headSha :: "ustring option"
  sr_headRef :: "ustring option"
  sr_diffBaseSha :: ustring
  sr_committed :: "SnapshotStat option"
  sr_uncommitted :: "SnapshotStat option"

datatype (plugins only: code size) FactEvent =
    F_run_started RunStartedPayload
  | F_dispatch_started DispatchStartedPayload
  | F_node_started ustring number "number option" \<comment> \<open>nodeId iteration pass\<close>
  | F_node_completed NodeCompletedPayload
  | F_node_aborted NodeAbortedPayload
  | F_intents_folded int ustring \<comment> \<open>intentSeq folded\<close>
  | F_side_effect_intent ustring number ustring ustring number ustring
      \<comment> \<open>nodeId iteration toolName argsHash attempt idempotencyKey\<close>
  | F_side_effect_done ustring ustring "number option" "number option"
      \<comment> \<open>idempotencyKey artifactKey tokens costUsd\<close>
  | F_side_effect_failed ustring ustring bool \<comment> \<open>idempotencyKey errorCode retriable\<close>
  | F_steering_applied int SteerDisposition "(ustring \<times> number) list" number
      \<comment> \<open>intentSeq disposition targets targetCount\<close>
  | F_tool_completed ustring ustring ustring ustring "ustring option"
      \<comment> \<open>toolName argsHash artifactKey preview summary\<close>
  | F_message_appended number ustring "ustring option" number \<comment> \<open>ordinal role nodeId iteration\<close>
  | F_run_paused RunPausedPayload
  | F_provider_retry_attempted ustring number "number option" number
      \<comment> \<open>nodeId attempt httpStatus delayMs\<close>
  | F_run_resumed RunStatus "int option" \<comment> \<open>fromStatus inputIntentSeq\<close>
  | F_run_terminated RunTerminatedPayload
  | F_run_completed ustring \<comment> \<open>legacy: finalNode\<close>
  | F_run_halted RunErrored \<comment> \<open>legacy\<close>
  | F_run_cancelled int \<comment> \<open>legacy: intentSeq\<close>
  | F_run_paused_human HumanPause \<comment> \<open>legacy\<close>
  | F_snapshot_recorded SnapshotRecordedPayload
  | F_run_quarantined QuarantineReason "int list option" \<comment> \<open>reason orphanedIntents\<close>
  | F_run_requeued_after_crash "ustring option" "number option" \<comment> \<open>prevNode lastAliveAt\<close>
  | F_handler_timeout_leaked ustring number \<comment> \<open>nodeId leakedAt\<close>
  | F_daemon_takeover number number \<comment> \<open>reclaimedFrom at\<close>
  | F_run_accepted ustring number bool bool \<comment> \<open>sha replayed tailStaged landedUnstaged\<close>
  | F_run_discarded "ustring list" \<comment> \<open>refs\<close>
  | F_checkout_released
  | F_fanout_started ustring number "number option" "ustring list" \<comment> \<open>nodeId iteration pass branches\<close>
  | F_fanout_joined ustring number "number option" ustring number
      \<comment> \<open>nodeId iteration pass nextNode branchesCompleted\<close>

primrec factType :: "FactEvent \<Rightarrow> ustring" where
  \<comment> \<open>the \<open>type\<close> discriminator\<close>
  "factType (F_run_started _) = U ''fact.run_started''"
| "factType (F_dispatch_started _) = U ''fact.dispatch_started''"
| "factType (F_node_started _ _ _) = U ''fact.node_started''"
| "factType (F_node_completed _) = U ''fact.node_completed''"
| "factType (F_node_aborted _) = U ''fact.node_aborted''"
| "factType (F_intents_folded _ _) = U ''fact.intents_folded''"
| "factType (F_side_effect_intent _ _ _ _ _ _) = U ''fact.side_effect_intent''"
| "factType (F_side_effect_done _ _ _ _) = U ''fact.side_effect_done''"
| "factType (F_side_effect_failed _ _ _) = U ''fact.side_effect_failed''"
| "factType (F_steering_applied _ _ _ _) = U ''fact.steering_applied''"
| "factType (F_tool_completed _ _ _ _ _) = U ''fact.tool_completed''"
| "factType (F_message_appended _ _ _ _) = U ''fact.message_appended''"
| "factType (F_run_paused _) = U ''fact.run_paused''"
| "factType (F_provider_retry_attempted _ _ _ _) = U ''fact.provider_retry_attempted''"
| "factType (F_run_resumed _ _) = U ''fact.run_resumed''"
| "factType (F_run_terminated _) = U ''fact.run_terminated''"
| "factType (F_run_completed _) = U ''fact.run_completed''"
| "factType (F_run_halted _) = U ''fact.run_halted''"
| "factType (F_run_cancelled _) = U ''fact.run_cancelled''"
| "factType (F_run_paused_human _) = U ''fact.run_paused_human''"
| "factType (F_snapshot_recorded _) = U ''fact.snapshot_recorded''"
| "factType (F_run_quarantined _ _) = U ''fact.run_quarantined''"
| "factType (F_run_requeued_after_crash _ _) = U ''fact.run_requeued_after_crash''"
| "factType (F_handler_timeout_leaked _ _) = U ''fact.handler_timeout_leaked''"
| "factType (F_daemon_takeover _ _) = U ''fact.daemon_takeover''"
| "factType (F_run_accepted _ _ _ _) = U ''fact.run_accepted''"
| "factType (F_run_discarded _) = U ''fact.run_discarded''"
| "factType F_checkout_released = U ''fact.checkout_released''"
| "factType (F_fanout_started _ _ _ _) = U ''fact.fanout_started''"
| "factType (F_fanout_joined _ _ _ _ _) = U ''fact.fanout_joined''"

fun SETTLED_STATUS_TERMINAL_FACT :: "RunStatus \<Rightarrow> ustring option" where
  "SETTLED_STATUS_TERMINAL_FACT St_completed = Some (U ''fact.run_terminated'')"
| "SETTLED_STATUS_TERMINAL_FACT St_cancelled = Some (U ''fact.run_terminated'')"
| "SETTLED_STATUS_TERMINAL_FACT St_halted = Some (U ''fact.run_terminated'')"
| "SETTLED_STATUS_TERMINAL_FACT St_quarantined = Some (U ''fact.run_quarantined'')"
| "SETTLED_STATUS_TERMINAL_FACT _ = None"

definition TERMINAL_FACT_TYPES :: "ustring list" where
  "TERMINAL_FACT_TYPES = remdups (List.map_filter SETTLED_STATUS_TERMINAL_FACT SETTLED_STATUSES)"

definition TERMINAL_RUN_FACT_TYPES :: "ustring list" where
  "TERMINAL_RUN_FACT_TYPES = TERMINAL_FACT_TYPES
     @ [U ''fact.run_completed'', U ''fact.run_halted'', U ''fact.run_cancelled'']"

definition RUN_STATE_FACT_TYPES :: "ustring list" where
  "RUN_STATE_FACT_TYPES = TERMINAL_RUN_FACT_TYPES
     @ [U ''fact.run_paused'', U ''fact.run_resumed'', U ''fact.run_paused_human'']"

lemmas status_sets = isTerminal_def TERMINAL_STATUSES_def isSettled_def SETTLED_STATUSES_def

lemma terminal_fact_types:
  "set TERMINAL_FACT_TYPES = {U ''fact.run_terminated'', U ''fact.run_quarantined''}"
  by (simp add: TERMINAL_FACT_TYPES_def SETTLED_STATUSES_def List.map_filter_def)

lemma isTerminal_isSettled: "isTerminal s \<Longrightarrow> isSettled s"
  by (auto simp: status_sets)

section \<open>Observability events\<close>

record ObservabilityEvent =
  oe_type :: ustring
  oe_payload :: jsobj

end
