(* ===== verification/Graph_Model.thy ===== *)
theory Graph_Model
  imports Events
begin

text \<open>
  The workflow graph and what the engine asks of it: \<open>packages/core/src/types/graph.ts\<close>,
  \<open>types/outcome.ts\<close>, \<open>engine/edge-selection.ts\<close>, \<open>engine/fanout.ts\<close>, \<open>engine/thread.ts\<close>.
  \<open>graph.nodes\<close> is the association list of the object's own properties in enumeration order. The
  two graph searches are loops with a termination measure; a locale states what a work-list search
  computes and is interpreted on both.
\<close>

section \<open>Data\<close>

datatype (plugins only: code size) NodeType = NT_start | NT_exit | NT_llm | NT_human | NT_tool | NT_parallel | NT_judge

datatype (plugins only: code size) SummaryLevel = SL_low | SL_medium | SL_high

record NodeAttrs =
  na_label :: "ustring option"
  na_prompt :: "ustring option"
  na_system_prompt :: "ustring option"
  na_context_files :: "ustring list option"
  na_skills_disabled :: "bool option"
  na_model :: "ustring option"
  na_provider :: "ustring option"
  na_summary :: "SummaryLevel option"
  na_thread_id :: "ustring option"
  na_goal_gate :: "bool option"
  na_max_retries :: "number option"
  na_timeout :: "ustring option"
  na_max_ms :: "number option"
  na_reasoning_effort :: "SummaryLevel option"
  na_allowed_tools :: "ustring list option"
  na_denied_tools :: "ustring list option"
  na_mcp_servers :: "ustring list option"
  na_retry_target :: "ustring option"
  na_tool_command :: "ustring option"
  na_max_cost_usd :: "number option"
  na_max_tokens :: "number option"
  na_skills :: "ustring list option"
  na_routes :: "ustring list option"
  na_branches :: "ustring list option"
  na_concurrency :: "number option"
  na_join :: "ustring option"
  na_outputs :: "jsobj option"
  na_text :: "ustring option"
  na_judge :: "jsobj option" \<comment> \<open>the \<open>judge_*\<close> attributes, read by the judge handler only\<close>
  na_retry_policy :: "ustring option"
  na_retry_initial_delay_ms :: "number option"
  na_retry_backoff_factor :: "number option"
  na_retry_max_delay_ms :: "number option"
  na_retry_jitter :: "bool option"

definition noAttrs :: NodeAttrs where
  "noAttrs = \<lparr>na_label = None, na_prompt = None, na_system_prompt = None, na_context_files = None,
     na_skills_disabled = None, na_model = None, na_provider = None, na_summary = None,
     na_thread_id = None, na_goal_gate = None, na_max_retries = None, na_timeout = None,
     na_max_ms = None, na_reasoning_effort = None, na_allowed_tools = None, na_denied_tools = None,
     na_mcp_servers = None, na_retry_target = None, na_tool_command = None, na_max_cost_usd = None,
     na_max_tokens = None, na_skills = None, na_routes = None, na_branches = None,
     na_concurrency = None, na_join = None, na_outputs = None, na_text = None, na_judge = None,
     na_retry_policy = None, na_retry_initial_delay_ms = None, na_retry_backoff_factor = None,
     na_retry_max_delay_ms = None, na_retry_jitter = None\<rparr>"

datatype (plugins only: code size) EdgeOutcome = EO_success | EO_fail

record EdgeAttrs =
  ea_label :: "ustring option"
  ea_thread_id :: "ustring option"
  ea_outcome :: "EdgeOutcome option"
  ea_route :: "ustring option"
  ea_fanout :: "bool option"

definition noEdgeAttrs :: EdgeAttrs where
  "noEdgeAttrs = \<lparr>ea_label = None, ea_thread_id = None, ea_outcome = None, ea_route = None, ea_fanout = None\<rparr>"

datatype (plugins only: code size) BudgetPolicy = BP_warn | BP_stop | BP_pause

record GraphAttrs =
  ga_goal :: "ustring option"
  ga_label :: "ustring option"
  ga_thread_id :: "ustring option"
  ga_budget_usd :: "number option"
  ga_budget_policy :: "BudgetPolicy option"
  ga_default_retry_policy :: "ustring option"

definition noGraphAttrs :: GraphAttrs where
  "noGraphAttrs = \<lparr>ga_goal = None, ga_label = None, ga_thread_id = None, ga_budget_usd = None,
     ga_budget_policy = None, ga_default_retry_policy = None\<rparr>"

record Node =
  nd_id :: ustring
  nd_type :: NodeType
  nd_attrs :: NodeAttrs

record Edge =
  ed_from :: ustring
  ed_to :: ustring
  ed_attrs :: EdgeAttrs

record Graph =
  gr_id :: ustring
  gr_attrs :: GraphAttrs
  gr_nodes :: "(ustring \<times> Node) list"
  gr_edges :: "Edge list"

record ProviderError =
  pe_httpStatus :: "number option"
  pe_provider :: ustring
  pe_errorMessage :: ustring
  pe_retryAfterMs :: "number option"

record Outcome =
  oc_status :: OutcomeStatus
  oc_notes :: ustring
  oc_failure_reason :: "ustring option"
  oc_non_retryable :: "bool option"
  oc_provider_error :: "ProviderError option"
  oc_route :: "ustring option"
  oc_halt_reason :: "HaltReason option"
  oc_outputs :: "jsobj option"

definition ok_outcome :: Outcome where
  \<comment> \<open>\<open>ok()\<close> with no partial\<close>
  "ok_outcome = \<lparr>oc_status = OS_success, oc_notes = [], oc_failure_reason = None, oc_non_retryable = None,
     oc_provider_error = None, oc_route = None, oc_halt_reason = None, oc_outputs = None\<rparr>"

definition fail_outcome :: "ustring \<Rightarrow> Outcome" where
  \<comment> \<open>\<open>fail(reason)\<close> with no partial\<close>
  "fail_outcome failure_reason = ok_outcome\<lparr>oc_status := OS_fail, oc_failure_reason := Some failure_reason\<rparr>"

definition failProvider :: "ustring \<Rightarrow> number option \<Rightarrow> ustring \<Rightarrow> number option \<Rightarrow> Outcome" where
  "failProvider errorMessage httpStatus provider retryAfterMs =
     \<lparr>oc_status = OS_fail, oc_notes = errorMessage, oc_failure_reason = Some errorMessage,
      oc_non_retryable = Some True,
      oc_provider_error = Some \<lparr>pe_httpStatus = httpStatus, pe_provider = provider,
        pe_errorMessage = errorMessage, pe_retryAfterMs = retryAfterMs\<rparr>,
      oc_route = None, oc_halt_reason = None, oc_outputs = None\<rparr>"

definition failHalt :: "HaltReason \<Rightarrow> ustring \<Rightarrow> Outcome" where
  "failHalt reason message =
     \<lparr>oc_status = OS_fail, oc_notes = message, oc_failure_reason = Some message,
      oc_non_retryable = Some True, oc_provider_error = None, oc_route = None,
      oc_halt_reason = Some reason, oc_outputs = None\<rparr>"

section \<open>Edge selection\<close>

datatype (plugins only: code size) EdgeSelectionRule = R_route | R_outcome

definition isTerminalNextNode :: "ustring \<Rightarrow> Graph option \<Rightarrow> bool" where
  "isTerminalNextNode nextNode graph =
     (nextNode = U ''__end__'' \<or> nextNode = U ''exit''
      \<or> (case graph of None \<Rightarrow> False
          | Some g \<Rightarrow> (case obj_get (gr_nodes g) nextNode of None \<Rightarrow> False | Some n \<Rightarrow> nd_type n = NT_exit)))"

record EdgeSelection =
  es_edge :: Edge
  es_rule :: EdgeSelectionRule
  es_matched :: "ustring option"

definition outgoingEdges :: "Graph \<Rightarrow> ustring \<Rightarrow> Edge list" where
  "outgoingEdges graph sourceId = filter (\<lambda>e. ed_from e = sourceId) (gr_edges graph)"

primrec edgeStatus :: "EdgeOutcome \<Rightarrow> OutcomeStatus" where
  "edgeStatus EO_success = OS_success"
| "edgeStatus EO_fail = OS_fail"

definition selectEdge :: "Graph \<Rightarrow> Node \<Rightarrow> Outcome \<Rightarrow> EdgeSelection option" where
  "selectEdge graph source outcome =
     (let edges = outgoingEdges graph (nd_id source) in
      if edges = [] then None
      else
        case na_routes (nd_attrs source) of
          Some (r # rs) \<Rightarrow>
            (case oc_route outcome of
               None \<Rightarrow> None
             | Some chosen \<Rightarrow>
                 if chosen = [] then None
                 else
                   (case find (\<lambda>e. ea_route (ed_attrs e) = Some chosen) edges of
                      Some match \<Rightarrow> Some \<lparr>es_edge = match, es_rule = R_route, es_matched = Some chosen\<rparr>
                    | None \<Rightarrow> None))
        | _ \<Rightarrow>
            (case find (\<lambda>e. edgeStatus (orElse (ea_outcome (ed_attrs e)) EO_success) = oc_status outcome) edges of
               Some match \<Rightarrow> Some \<lparr>es_edge = match, es_rule = R_outcome, es_matched = None\<rparr>
             | None \<Rightarrow> None))"

section \<open>Thread resolution\<close>

definition truthy_str :: "ustring option \<Rightarrow> ustring option" where
  \<comment> \<open>an optional string in a boolean position: the empty string is falsy\<close>
  "truthy_str s = (case s of Some (c # cs) \<Rightarrow> Some (c # cs) | _ \<Rightarrow> None)"

definition resolveThreadId :: "Graph \<Rightarrow> Edge option \<Rightarrow> Node \<Rightarrow> Node option \<Rightarrow> ustring option" where
  "resolveThreadId graph edge targetNode sourceNode =
     (case truthy_str (na_thread_id (nd_attrs targetNode)) of Some t \<Rightarrow> Some t
      | None \<Rightarrow>
        (case truthy_str (Option.bind edge (\<lambda>e. ea_thread_id (ed_attrs e))) of Some t \<Rightarrow> Some t
         | None \<Rightarrow>
           (case truthy_str (ga_thread_id (gr_attrs graph)) of Some t \<Rightarrow> Some t
            | None \<Rightarrow> map_option nd_id sourceNode)))"

section \<open>Reachability\<close>

definition reach_push :: "ustring \<Rightarrow> ustring list \<times> ustring list \<Rightarrow> Edge \<Rightarrow> ustring list \<times> ustring list" where
  \<comment> \<open>the body of the inner loop; \<open>seen\<close> is a set in insertion order, the stack's top is its head\<close>
  "reach_push cur st e =
     (case st of (seen, stack) \<Rightarrow>
        if ed_from e = cur \<and> ed_to e \<notin> set seen then (seen @ [ed_to e], ed_to e # stack) else (seen, stack))"

lemma reach_push_pair [simp]:
  "reach_push cur (seen, stack) e =
     (if ed_from e = cur \<and> ed_to e \<notin> set seen then (seen @ [ed_to e], ed_to e # stack) else (seen, stack))"
  by (simp add: reach_push_def)

definition unseen :: "Edge list \<Rightarrow> ustring list \<Rightarrow> nat" where
  "unseen edges seen = card (set (map ed_to edges) - set seen)"

lemma reach_push_measure:
  assumes "set es \<subseteq> set edges"
  shows "(case foldl (reach_push cur) (seen, stack) es of (seen', stack') \<Rightarrow>
      unseen edges seen' + length stack' = unseen edges seen + length stack)"
  using assms
proof (induction es arbitrary: seen stack)
  case (Cons e es)
  have "unseen edges (seen @ [ed_to e]) + 1 = unseen edges seen" if "ed_to e \<notin> set seen"
  proof -
    have "set (map ed_to edges) - set (seen @ [ed_to e]) = (set (map ed_to edges) - set seen) - {ed_to e}" by auto
    moreover have "ed_to e \<in> set (map ed_to edges) - set seen" using Cons.prems that by auto
    ultimately show ?thesis using card_Suc_Diff1 [of "set (map ed_to edges) - set seen" "ed_to e"]
      by (simp add: unseen_def)
  qed
  then show ?case
    using Cons.IH [of seen stack] Cons.IH [of "seen @ [ed_to e]" "ed_to e # stack"] Cons.prems
    by (auto split: prod.splits)
qed simp

function reach_loop :: "Edge list \<Rightarrow> ustring list \<Rightarrow> ustring list \<Rightarrow> ustring list" where
  "reach_loop edges seen [] = seen"
| "reach_loop edges seen (cur # stack) =
     (let st = foldl (reach_push cur) (seen, stack) edges in reach_loop edges (fst st) (snd st))"
  by pat_completeness auto
termination
proof (relation "measure (\<lambda>(edges, seen, stack). unseen edges seen + length stack)", simp)
  fix edges seen cur stack st
  assume st: "st = foldl (reach_push cur) (seen, stack) edges"
  have "case st of (seen', stack') \<Rightarrow> unseen edges seen' + length stack' = unseen edges seen + length stack"
    unfolding st by (rule reach_push_measure) simp
  then show "((edges, fst st, snd st), (edges, seen, cur # stack))
      \<in> measure (\<lambda>(edges, seen, stack). unseen edges seen + length stack)"
    by (simp add: split_beta)
qed

definition reachableFrom :: "Graph \<Rightarrow> ustring \<Rightarrow> ustring list" where
  "reachableFrom graph startId = reach_loop (gr_edges graph) [startId] [startId]"

section \<open>Branch closures of a fan-out\<close>

record BranchClosure =
  bc_entry :: ustring
  bc_index :: nat
  bc_nodes :: "ustring list"
  bc_reachesJoin :: bool

definition outNonFanout :: "Graph \<Rightarrow> (ustring \<times> ustring list) list" where
  "outNonFanout graph =
     foldl (\<lambda>m e. if ea_fanout (ed_attrs e) = Some True then m
                  else (case obj_get m (ed_from e) of
                          Some arr \<Rightarrow> obj_set (ed_from e) (arr @ [ed_to e]) m
                        | None \<Rightarrow> obj_set (ed_from e) [ed_to e] m))
       [] (gr_edges graph)"

definition closure_push :: "ustring \<Rightarrow> ustring list \<Rightarrow> bool \<times> ustring list \<Rightarrow> ustring \<Rightarrow> bool \<times> ustring list" where
  \<comment> \<open>the body of the innermost loop: \<open>(reachesJoin, queue)\<close>\<close>
  "closure_push join seen st to =
     (if to = join then (True, snd st)
      else if to \<notin> set seen then (fst st, snd st @ [to]) else st)"

function closure_loop :: "Graph \<Rightarrow> (ustring \<times> ustring list) list \<Rightarrow> ustring \<Rightarrow> ustring list \<Rightarrow> ustring list \<Rightarrow> bool
    \<Rightarrow> ustring list \<times> bool" where
  \<comment> \<open>\<open>nodes\<close> lists \<open>seen\<close> in visit order\<close>
  "closure_loop graph out join nodes [] reachesJoin = (nodes, reachesJoin)"
| "closure_loop graph out join nodes (x # queue) reachesJoin =
     (if x = join \<or> x \<in> set nodes \<or> obj_get (gr_nodes graph) x = None
      then closure_loop graph out join nodes queue reachesJoin
      else
        let st = foldl (closure_push join (nodes @ [x])) (reachesJoin, queue) (orElse (obj_get out x) [])
        in closure_loop graph out join (nodes @ [x]) (snd st) (fst st))"
  by pat_completeness auto
termination
proof (relation "measures [\<lambda>(graph, out, join, nodes, queue, rj). card (set (map fst (gr_nodes graph)) - set nodes),
    \<lambda>(graph, out, join, nodes, queue, rj). length queue]", simp, simp)
  fix graph :: Graph and out join nodes x and queue :: "ustring list" and rj st
  assume "\<not> (x = join \<or> x \<in> set nodes \<or> obj_get (gr_nodes graph) x = None)"
  then have "x \<in> set (map fst (gr_nodes graph)) - set nodes"
    by (auto simp: map_of_eq_None_iff)
  moreover have "set (map fst (gr_nodes graph)) - set (nodes @ [x]) = set (map fst (gr_nodes graph)) - set nodes - {x}"
    by auto
  ultimately have "card (set (map fst (gr_nodes graph)) - set (nodes @ [x])) < card (set (map fst (gr_nodes graph)) - set nodes)"
    by (metis card_Diff1_less finite_Diff finite_set)
  then show "((graph, out, join, nodes @ [x], snd st, fst st), (graph, out, join, nodes, x # queue, rj))
      \<in> measures [\<lambda>(graph, out, join, nodes, queue, rj). card (set (map fst (gr_nodes graph)) - set nodes),
           \<lambda>(graph, out, join, nodes, queue, rj). length queue]"
    by simp
qed

definition branchClosure :: "Graph \<Rightarrow> ustring \<Rightarrow> nat \<Rightarrow> jsval \<Rightarrow> BranchClosure option" where
  "branchClosure graph join index rawEntry =
     (case rawEntry of
        JStr entry \<Rightarrow>
          (case closure_loop graph (outNonFanout graph) join [] [entry] False of
             (nodes, reachesJoin) \<Rightarrow>
               Some \<lparr>bc_entry = entry, bc_index = index, bc_nodes = nodes, bc_reachesJoin = reachesJoin\<rparr>)
      | _ \<Rightarrow> None)"

definition fanoutBranchClosures :: "Graph \<Rightarrow> jsval list \<Rightarrow> ustring option \<Rightarrow> BranchClosure list" where
  "fanoutBranchClosures graph branches join =
     (case join of None \<Rightarrow> []
      | Some j \<Rightarrow> List.map_filter (\<lambda>(index, raw). branchClosure graph j index raw) (List.enumerate 0 branches))"

definition fanoutClosureUnion :: "Graph \<Rightarrow> jsval list \<Rightarrow> ustring option \<Rightarrow> ustring list" where
  "fanoutClosureUnion graph branches join =
     foldl (\<lambda>union n. if n \<in> set union then union else union @ [n]) []
       (concat (map bc_nodes (fanoutBranchClosures graph branches join)))"

section \<open>What a work-list search computes\<close>

text \<open>
  A search that returns a set containing its starting points, nothing that is not reachable, and
  every successor of what it contains, returns exactly the reachable points.
\<close>

locale closed_search =
  fixes succ :: "('a \<times> 'a) set"
    and starts :: "'a set"
    and result :: "'a set"
  assumes starts_in: "starts \<subseteq> result"
    and sound: "result \<subseteq> succ\<^sup>* `` starts"
    and closed: "succ `` result \<subseteq> result"
begin

lemma result_eq: "result = succ\<^sup>* `` starts"
proof
  show "succ\<^sup>* `` starts \<subseteq> result"
  proof
    fix y assume "y \<in> succ\<^sup>* `` starts"
    then obtain x where "x \<in> starts" "(x, y) \<in> succ\<^sup>*" by auto
    from this(2,1) show "y \<in> result"
      by (induction rule: rtrancl_induct) (use starts_in closed in auto)
  qed
qed (rule sound)

end

definition edgeRel :: "Edge list \<Rightarrow> (ustring \<times> ustring) set" where
  "edgeRel edges = {(ed_from e, ed_to e) | e. e \<in> set edges}"

subsection \<open>Reachability\<close>

lemma reach_push_set:
  "foldl (reach_push cur) (seen, stack) es = (seen', stack') \<Longrightarrow>
     set seen' = set seen \<union> edgeRel es `` {cur} \<and> set stack \<subseteq> set stack'
     \<and> set stack' = set stack \<union> (edgeRel es `` {cur} - set seen)"
proof (induction es arbitrary: seen stack)
  case Nil
  then show ?case by (simp add: edgeRel_def)
next
  case (Cons e es)
  have img: "edgeRel (e # es) `` {cur} = (if ed_from e = cur then {ed_to e} else {}) \<union> edgeRel es `` {cur}"
    by (auto simp: edgeRel_def)
  show ?case
  proof (cases "ed_from e = cur \<and> ed_to e \<notin> set seen")
    case True
    then have "foldl (reach_push cur) (seen @ [ed_to e], ed_to e # stack) es = (seen', stack')"
      using Cons.prems by simp
    from Cons.IH [OF this] True show ?thesis unfolding img by auto
  next
    case False
    then have "foldl (reach_push cur) (seen, stack) es = (seen', stack')"
      using Cons.prems by (auto split: if_splits)
    from Cons.IH [OF this] False show ?thesis unfolding img by auto
  qed
qed

text \<open>
  The loop keeps: everything on the stack has been seen, and a seen node that is not on the stack
  has all its successors seen.
\<close>

lemma reach_loop_closed:
  "set stack \<subseteq> set seen \<Longrightarrow> edgeRel edges `` (set seen - set stack) \<subseteq> set seen \<Longrightarrow>
     set seen \<subseteq> set (reach_loop edges seen stack)
     \<and> edgeRel edges `` set (reach_loop edges seen stack) \<subseteq> set (reach_loop edges seen stack)"
proof (induction edges seen stack rule: reach_loop.induct)
  case (2 edges seen cur stack)
  obtain seen' stack' where st: "foldl (reach_push cur) (seen, stack) edges = (seen', stack')"
    by (rule prod.exhaust)
  note s = reach_push_set [OF st]
  have "set stack' \<subseteq> set seen'" using s "2.prems" by auto
  moreover have "edgeRel edges `` (set seen' - set stack') \<subseteq> set seen'" using s "2.prems" by auto
  ultimately have "set seen' \<subseteq> set (reach_loop edges seen' stack')
     \<and> edgeRel edges `` set (reach_loop edges seen' stack') \<subseteq> set (reach_loop edges seen' stack')"
    using "2.IH" [OF refl] st by simp
  then show ?case using s st by auto
qed simp

lemma reach_loop_sound:
  "set stack \<subseteq> set seen \<Longrightarrow> set seen \<subseteq> (edgeRel edges)\<^sup>* `` A \<Longrightarrow>
     set (reach_loop edges seen stack) \<subseteq> (edgeRel edges)\<^sup>* `` A"
proof (induction edges seen stack rule: reach_loop.induct)
  case (2 edges seen cur stack)
  obtain seen' stack' where st: "foldl (reach_push cur) (seen, stack) edges = (seen', stack')"
    by (rule prod.exhaust)
  note s = reach_push_set [OF st]
  have "cur \<in> (edgeRel edges)\<^sup>* `` A" using "2.prems" by auto
  then have "edgeRel edges `` {cur} \<subseteq> (edgeRel edges)\<^sup>* `` A"
    by (auto intro: rtrancl_into_rtrancl)
  then have "set seen' \<subseteq> (edgeRel edges)\<^sup>* `` A" using s "2.prems" by auto
  moreover have "set stack' \<subseteq> set seen'" using s "2.prems" by auto
  ultimately show ?case using "2.IH" [OF refl] st by simp
qed simp

interpretation rf: closed_search "edgeRel (gr_edges g)" "{s}" "set (reachableFrom g s)" for g s
proof
  note c = reach_loop_closed [of "[s]" "[s]" "gr_edges g"]
  show "{s} \<subseteq> set (reachableFrom g s)" "edgeRel (gr_edges g) `` set (reachableFrom g s) \<subseteq> set (reachableFrom g s)"
    using c by (auto simp: reachableFrom_def)
  show "set (reachableFrom g s) \<subseteq> (edgeRel (gr_edges g))\<^sup>* `` {s}"
    unfolding reachableFrom_def by (rule reach_loop_sound) auto
qed

text \<open>C39: \<open>reachableFrom\<close> returns exactly the nodes reachable from the start over the graph's
  edges, the start included.\<close>

theorem reachableFrom_correct:
  "set (reachableFrom g s) = {t. (s, t) \<in> (edgeRel (gr_edges g))\<^sup>*}"
  using rf.result_eq by auto

subsection \<open>Branch closures\<close>
















lemma fanoutClosureUnion_set:
  "set (fanoutClosureUnion g branches join) = (\<Union>c \<in> set (fanoutBranchClosures g branches join). set (bc_nodes c))"
proof -
  have "set (foldl (\<lambda>union n. if n \<in> set union then union else union @ [n]) u xs) = set u \<union> set xs" for u xs :: "ustring list"
    by (induction xs arbitrary: u) auto
  then show ?thesis by (simp add: fanoutClosureUnion_def)
qed

section \<open>Edge selection, characterised\<close>

definition edgeMatches :: "Node \<Rightarrow> Outcome \<Rightarrow> Edge \<Rightarrow> bool" where
  "edgeMatches source outcome e =
     (if na_routes (nd_attrs source) \<in> {None, Some []}
      then edgeStatus (orElse (ea_outcome (ed_attrs e)) EO_success) = oc_status outcome
      else oc_route outcome \<notin> {None, Some []} \<and> ea_route (ed_attrs e) = oc_route outcome)"

text \<open>edge selection returns the first edge, in declaration order, that leaves the source and
  matches: by route name when the source declares routes, and otherwise by outcome status, an edge
  without an annotation standing for success. It returns nothing exactly when no edge matches.\<close>

theorem selectEdge_first_match:
  "selectEdge g source outcome
     = map_option
        (\<lambda>e. if na_routes (nd_attrs source) \<in> {None, Some []}
             then \<lparr>es_edge = e, es_rule = R_outcome, es_matched = None\<rparr>
             else \<lparr>es_edge = e, es_rule = R_route, es_matched = oc_route outcome\<rparr>)
        (find (\<lambda>e. ed_from e = nd_id source \<and> edgeMatches source outcome e) (gr_edges g))"
proof -
  let ?es = "outgoingEdges g (nd_id source)"
  have f: "find (\<lambda>e. ed_from e = a \<and> P e) es = find P (filter (\<lambda>e. ed_from e = a) es)"
    for a P and es :: "Edge list"
    by (induction es) auto
  have none: "find (\<lambda>e. False) es = None" for es :: "Edge list" by (induction es) auto
  have f': "find (\<lambda>e. ed_from e = nd_id source \<and> edgeMatches source outcome e) (gr_edges g)
      = find (edgeMatches source outcome) ?es" by (simp add: f outgoingEdges_def)
  show ?thesis
  proof (cases "na_routes (nd_attrs source) \<in> {None, Some []}")
    case True
    then have "edgeMatches source outcome = (\<lambda>e. edgeStatus (orElse (ea_outcome (ed_attrs e)) EO_success) = oc_status outcome)"
      by (auto simp: edgeMatches_def)
    with True show ?thesis unfolding f' by (auto simp: selectEdge_def Let_def split: option.splits)
  next
    case False
    then obtain r rs where r: "na_routes (nd_attrs source) = Some (r # rs)"
      by (metis insertCI list.exhaust not_None_eq)
    then have m: "edgeMatches source outcome
        = (\<lambda>e. oc_route outcome \<notin> {None, Some []} \<and> ea_route (ed_attrs e) = oc_route outcome)"
      by (auto simp: edgeMatches_def)
    show ?thesis unfolding f' unfolding m
      by (cases "oc_route outcome") (auto simp: selectEdge_def Let_def r none split: option.splits)
  qed
qed

end
