(* ===== verification/Routing.thy ===== *)
theory Routing
  imports Payload_Text Graph_Model
begin

text \<open>
  The typed layer over \<open>run_state.routing\<close>, \<open>packages/core/src/routing.ts\<close>: the key vocabulary,
  the write-time gate \<open>validateRoutingPatch\<close>, the enqueue allow-list, the validate-and-degrade
  accessors and the byte budgets of operator notes. The routing object is a \<open>jsobj\<close>; an accessor
  view with methods is a record whose method fields are functions.
\<close>

section \<open>Keys\<close>

definition INPUTS_KEY :: ustring where "INPUTS_KEY = U ''inputs''"
definition ACTIVE_NODES_KEY :: ustring where "ACTIVE_NODES_KEY = U ''internal.active_nodes''"
definition AUTO_RESUME_AT_KEY :: ustring where "AUTO_RESUME_AT_KEY = U ''internal.auto_resume_at''"

definition RETRY_COUNT_PREFIX :: ustring where "RETRY_COUNT_PREFIX = U ''internal.retry_count.''"
definition TIMEOUT_RETRIES_PREFIX :: ustring where "TIMEOUT_RETRIES_PREFIX = U ''internal.timeout_retries.''"
definition MAX_RETRIES_OVERRIDE_PREFIX :: ustring where "MAX_RETRIES_OVERRIDE_PREFIX = U ''max_retries_override.''"

definition retryCountKey :: "ustring \<Rightarrow> ustring" where
  "retryCountKey nodeId = U ''internal.retry_count.'' @ nodeId"

definition timeoutRetriesKey :: "ustring \<Rightarrow> ustring" where
  "timeoutRetriesKey nodeId = U ''internal.timeout_retries.'' @ nodeId"

definition PROVIDER_RETRY_ATTEMPT_KEY :: ustring where
  "PROVIDER_RETRY_ATTEMPT_KEY = U ''internal.provider_retry.attempt''"
definition PROVIDER_RETRY_CUMULATIVE_MS_KEY :: ustring where
  "PROVIDER_RETRY_CUMULATIVE_MS_KEY = U ''internal.provider_retry.cumulative_ms''"

primrec scopeString :: "BudgetScope \<Rightarrow> ustring" where
  "scopeString BS_run = U ''run''" | "scopeString BS_node = U ''node''"

primrec metricString :: "BudgetMetric \<Rightarrow> ustring" where
  "metricString BM_cost = U ''cost''" | "metricString BM_tokens = U ''tokens''"

definition budgetOverrideKey :: "BudgetScope \<Rightarrow> BudgetMetric \<Rightarrow> ustring" where
  "budgetOverrideKey scope metric = U ''budget_override.'' @ scopeString scope @ U ''.'' @ metricString metric"

definition BUDGET_WARNED_KEY :: ustring where "BUDGET_WARNED_KEY = U ''__budget_warned''"

definition maxRetriesOverrideKey :: "ustring \<Rightarrow> ustring" where
  "maxRetriesOverrideKey nodeId = U ''max_retries_override.'' @ nodeId"

definition MAX_LOOPS_OVERRIDE_KEY :: ustring where "MAX_LOOPS_OVERRIDE_KEY = U ''max_loops_override''"
definition MAX_GOAL_GATE_RETRIES_OVERRIDE_KEY :: ustring where
  "MAX_GOAL_GATE_RETRIES_OVERRIDE_KEY = U ''max_goal_gate_retries_override''"
definition GOAL_GATE_OUTCOME_KEY_PREFIX :: ustring where "GOAL_GATE_OUTCOME_KEY_PREFIX = U ''goal_gates.''"

definition goalGateOutcomeKey :: "ustring \<Rightarrow> ustring" where
  "goalGateOutcomeKey nodeId = GOAL_GATE_OUTCOME_KEY_PREFIX @ nodeId"

definition GOAL_GATE_RETRIES_KEY :: ustring where "GOAL_GATE_RETRIES_KEY = U ''goal_gates.__retries''"
definition GRAPH_GOAL_KEY :: ustring where "GRAPH_GOAL_KEY = U ''graph.goal''"
definition GRAPH_RUN_ID_KEY :: ustring where "GRAPH_RUN_ID_KEY = U ''graph.run_id''"
definition PRIORITY_KEY :: ustring where "PRIORITY_KEY = U ''priority''"
definition OPERATOR_NOTES_KEY :: ustring where "OPERATOR_NOTES_KEY = U ''internal.operator_notes''"
definition PENDING_STEER_KEY :: ustring where "PENDING_STEER_KEY = U ''internal.pending_steer''"
definition PAUSE_AFTER_DISPATCH_KEY :: ustring where
  "PAUSE_AFTER_DISPATCH_KEY = U ''internal.pause_after_dispatch''"

lemmas routing_keys = INPUTS_KEY_def ACTIVE_NODES_KEY_def AUTO_RESUME_AT_KEY_def
  PROVIDER_RETRY_ATTEMPT_KEY_def PROVIDER_RETRY_CUMULATIVE_MS_KEY_def BUDGET_WARNED_KEY_def
  MAX_LOOPS_OVERRIDE_KEY_def MAX_GOAL_GATE_RETRIES_OVERRIDE_KEY_def GOAL_GATE_RETRIES_KEY_def
  GRAPH_GOAL_KEY_def GRAPH_RUN_ID_KEY_def PRIORITY_KEY_def OPERATOR_NOTES_KEY_def
  PENDING_STEER_KEY_def PAUSE_AFTER_DISPATCH_KEY_def

lemmas routing_prefixes = RETRY_COUNT_PREFIX_def TIMEOUT_RETRIES_PREFIX_def
  MAX_RETRIES_OVERRIDE_PREFIX_def GOAL_GATE_OUTCOME_KEY_PREFIX_def

section \<open>The write gate\<close>

datatype (plugins only: code size) RoutingValueKind = RK_number | RK_string | RK_boolean | RK_string_array
  | RK_object | RK_outcome_status | RK_operator_notes

definition BUDGET_SCOPES :: "BudgetScope list" where "BUDGET_SCOPES = [BS_run, BS_node]"
definition BUDGET_METRICS :: "BudgetMetric list" where "BUDGET_METRICS = [BM_cost, BM_tokens]"

definition BUDGET_OVERRIDE_KEYS :: "ustring list" where
  "BUDGET_OVERRIDE_KEYS =
     concat (map (\<lambda>scope. map (\<lambda>metric. budgetOverrideKey scope metric) BUDGET_METRICS) BUDGET_SCOPES)"

definition EXACT_ROUTING_KINDS :: "(ustring \<times> RoutingValueKind) list" where
  "EXACT_ROUTING_KINDS =
    [(INPUTS_KEY, RK_object),
     (ACTIVE_NODES_KEY, RK_string_array),
     (AUTO_RESUME_AT_KEY, RK_number),
     (PROVIDER_RETRY_ATTEMPT_KEY, RK_number),
     (PROVIDER_RETRY_CUMULATIVE_MS_KEY, RK_number),
     (BUDGET_WARNED_KEY, RK_string_array),
     (MAX_LOOPS_OVERRIDE_KEY, RK_number),
     (MAX_GOAL_GATE_RETRIES_OVERRIDE_KEY, RK_number),
     (GOAL_GATE_RETRIES_KEY, RK_number),
     (GRAPH_GOAL_KEY, RK_string),
     (GRAPH_RUN_ID_KEY, RK_string),
     (PRIORITY_KEY, RK_number),
     (OPERATOR_NOTES_KEY, RK_operator_notes),
     (PENDING_STEER_KEY, RK_string),
     (PAUSE_AFTER_DISPATCH_KEY, RK_boolean)]"

definition routingKeyKind :: "ustring \<Rightarrow> RoutingValueKind option" where
  "routingKeyKind key =
     (case obj_get EXACT_ROUTING_KINDS key of
        Some k \<Rightarrow> Some k
      | None \<Rightarrow>
        if key \<in> set BUDGET_OVERRIDE_KEYS then Some RK_number
        else if length key > length RETRY_COUNT_PREFIX \<and> startsWith key RETRY_COUNT_PREFIX then Some RK_number
        else if length key > length TIMEOUT_RETRIES_PREFIX \<and> startsWith key TIMEOUT_RETRIES_PREFIX then Some RK_number
        else if length key > length MAX_RETRIES_OVERRIDE_PREFIX \<and> startsWith key MAX_RETRIES_OVERRIDE_PREFIX
          then Some RK_number
        else if length key > length GOAL_GATE_OUTCOME_KEY_PREFIX \<and> startsWith key GOAL_GATE_OUTCOME_KEY_PREFIX
          then Some RK_outcome_status
        else None)"

primrec statusString :: "OutcomeStatus \<Rightarrow> ustring" where
  "statusString OS_success = U ''success''"
| "statusString OS_fail = U ''fail''"
| "statusString OS_retry = U ''retry''"

definition OUTCOME_STATUSES :: "OutcomeStatus list" where
  "OUTCOME_STATUSES = [OS_success, OS_fail, OS_retry]"

definition asOutcomeStatus :: "jsval \<Rightarrow> OutcomeStatus option" where
  \<comment> \<open>the type guard \<open>isOutcomeStatus\<close>, with the status it narrows to\<close>
  "asOutcomeStatus v = (case v of JStr s \<Rightarrow> find (\<lambda>o'. statusString o' = s) OUTCOME_STATUSES | _ \<Rightarrow> None)"

definition isOutcomeStatus :: "jsval \<Rightarrow> bool" where
  "isOutcomeStatus v = (asOutcomeStatus v \<noteq> None)"

definition isStr :: "jsval option \<Rightarrow> bool" where
  "isStr v = (case v of Some (JStr _) \<Rightarrow> True | _ \<Rightarrow> False)"

definition isOperatorNote :: "jsval \<Rightarrow> bool" where
  "isOperatorNote v =
     (case v of
        JObj ob \<Rightarrow> isStr (obj_get ob (U ''gateNodeId'')) \<and> isStr (obj_get ob (U ''route''))
          \<and> isStr (obj_get ob (U ''note''))
      | _ \<Rightarrow> False)"

definition matchesRoutingKind :: "jsval \<Rightarrow> RoutingValueKind \<Rightarrow> bool" where
  "matchesRoutingKind value kind =
     (case kind of
        RK_number \<Rightarrow> (case value of JNum n \<Rightarrow> isFinite n | _ \<Rightarrow> False)
      | RK_string \<Rightarrow> (case value of JStr _ \<Rightarrow> True | _ \<Rightarrow> False)
      | RK_boolean \<Rightarrow> (case value of JBool _ \<Rightarrow> True | _ \<Rightarrow> False)
      | RK_string_array \<Rightarrow> (case value of JArr es \<Rightarrow> list_all (\<lambda>e. isStr (Some e)) es | _ \<Rightarrow> False)
      | RK_object \<Rightarrow> (case value of JObj _ \<Rightarrow> True | _ \<Rightarrow> False)
      | RK_outcome_status \<Rightarrow> isOutcomeStatus value
      | RK_operator_notes \<Rightarrow> (case value of JArr es \<Rightarrow> list_all isOperatorNote es | _ \<Rightarrow> False))"

datatype (plugins only: code size) RoutingViolation = RV_unknown_family | RV_wrong_type

record RoutingPatchError =
  rpe_key :: ustring
  rpe_violation :: RoutingViolation
  rpe_value :: jsval

fun validateRoutingPatch :: "jsobj \<Rightarrow> RoutingPatchError + unit" where
  "validateRoutingPatch [] = Inr ()"
| "validateRoutingPatch ((key, value) # rest) =
     (case routingKeyKind key of
        None \<Rightarrow> Inl \<lparr>rpe_key = key, rpe_violation = RV_unknown_family, rpe_value = value\<rparr>
      | Some kind \<Rightarrow>
          if \<not> matchesRoutingKind value kind
          then Inl \<lparr>rpe_key = key, rpe_violation = RV_wrong_type, rpe_value = value\<rparr>
          else validateRoutingPatch rest)"

definition entryOk :: "ustring \<Rightarrow> jsval \<Rightarrow> bool" where
  "entryOk key value = (case routingKeyKind key of None \<Rightarrow> False | Some kind \<Rightarrow> matchesRoutingKind value kind)"

abbreviation patchOk :: "jsobj \<Rightarrow> bool" where
  "patchOk patch \<equiv> validateRoutingPatch patch = Inr ()"

interpretation patch_gate: entry_gate entryOk patchOk
proof
  show "patchOk ob = (\<forall>(k, v) \<in> set ob. entryOk k v)" for ob
    by (induction ob rule: validateRoutingPatch.induct) (auto simp: entryOk_def split: option.splits)
qed

declare validateRoutingPatch.simps [simp del]

section \<open>The enqueue allow-list\<close>

datatype (plugins only: code size) EnqueueValueRule = EV_positive_finite | EV_non_negative_integer

record EnqueueRoutingRule =
  er_key :: ustring
  er_prefix :: bool
  er_value :: EnqueueValueRule

definition ENQUEUE_ROUTING_ALLOWLIST :: "EnqueueRoutingRule list" where
  "ENQUEUE_ROUTING_ALLOWLIST =
     concat (map (\<lambda>scope. map (\<lambda>metric. \<lparr>er_key = budgetOverrideKey scope metric, er_prefix = False,
       er_value = EV_positive_finite\<rparr>) BUDGET_METRICS) BUDGET_SCOPES)
     @ [\<lparr>er_key = MAX_RETRIES_OVERRIDE_PREFIX, er_prefix = True, er_value = EV_non_negative_integer\<rparr>,
        \<lparr>er_key = MAX_GOAL_GATE_RETRIES_OVERRIDE_KEY, er_prefix = False, er_value = EV_positive_finite\<rparr>]"

datatype (plugins only: code size) EnqueueErrorCode = EC_routing_inputs_forbidden | EC_routing_key_not_allowed | EC_routing_value_invalid

record EnqueueRoutingError =
  ee_code :: EnqueueErrorCode
  ee_key :: ustring
  ee_message :: ustring

definition enqueueRoutingRule :: "ustring \<Rightarrow> EnqueueRoutingRule option" where
  "enqueueRoutingRule key =
     find (\<lambda>r. if er_prefix r then length key > length (er_key r) \<and> startsWith key (er_key r) else key = er_key r)
       ENQUEUE_ROUTING_ALLOWLIST"

definition isSafeInteger :: "jsnum \<Rightarrow> bool" where
  "isSafeInteger n = (case n of Fin r \<Rightarrow> r = Math_floor r \<and> \<bar>r\<bar> \<le> 9007199254740991 | _ \<Rightarrow> False)"

definition satisfiesEnqueueRule :: "jsval \<Rightarrow> EnqueueRoutingRule \<Rightarrow> bool" where
  "satisfiesEnqueueRule value rule =
     (case value of
        JNum n \<Rightarrow>
          (case er_value rule of
             EV_positive_finite \<Rightarrow> isFinite n \<and> js_pos n
           | EV_non_negative_integer \<Rightarrow> isSafeInteger n \<and> (case n of Fin r \<Rightarrow> r \<ge> 0 | _ \<Rightarrow> False))
      | _ \<Rightarrow> False)"

definition enqueueEntryErrors :: "ustring \<Rightarrow> jsval \<Rightarrow> EnqueueRoutingError list" where
  \<comment> \<open>one turn of the loop\<close>
  "enqueueEntryErrors key value =
     (if key = INPUTS_KEY
      then [\<lparr>ee_code = EC_routing_inputs_forbidden, ee_key = key,
             ee_message = U ''routing.inputs is not accepted; pass run inputs through the typed `inputs` field''\<rparr>]
      else
        case enqueueRoutingRule key of
          None \<Rightarrow> [\<lparr>ee_code = EC_routing_key_not_allowed, ee_key = key,
             ee_message = U ''routing key '' @ JSON_quote key @ U '' is not operator-settable at enqueue''\<rparr>]
        | Some rule \<Rightarrow>
            if \<not> patchOk [(key, value)] \<or> \<not> satisfiesEnqueueRule value rule
            then [\<lparr>ee_code = EC_routing_value_invalid, ee_key = key,
                   ee_message = U ''routing key '' @ JSON_quote key @ U '' must be a '' @
                     (case er_value rule of EV_positive_finite \<Rightarrow> U ''positive finite number''
                      | EV_non_negative_integer \<Rightarrow> U ''non-negative integer'')\<rparr>]
            else [])"

definition validateEnqueueRouting :: "jsval \<Rightarrow> EnqueueRoutingError list" where
  "validateEnqueueRouting routing =
     (case routing of
        JObj ob \<Rightarrow> concat (map (\<lambda>(key, value). enqueueEntryErrors key value) ob)
      | _ \<Rightarrow> [\<lparr>ee_code = EC_routing_value_invalid, ee_key = U ''routing'',
               ee_message = U ''routing must be an object''\<rparr>])"

section \<open>Accessors\<close>

definition routingString :: "jsobj \<Rightarrow> ustring \<Rightarrow> ustring option" where
  "routingString routing key = (case obj_get routing key of Some (JStr s) \<Rightarrow> Some s | _ \<Rightarrow> None)"

definition finiteNumber :: "jsobj \<Rightarrow> ustring \<Rightarrow> number" where
  "finiteNumber routing key = (case obj_get routing key of Some (JNum (Fin r)) \<Rightarrow> r | _ \<Rightarrow> 0)"

definition hasBlobRef :: "jsval \<Rightarrow> bool" where
  \<comment> \<open>\<open>Object.hasOwn(val, "$fragua_blob")\<close>\<close>
  "hasBlobRef v = (case v of JObj ob \<Rightarrow> obj_get ob (U ''$fragua_blob'') \<noteq> None | _ \<Rightarrow> False)"

definition getInputs :: "jsobj \<Rightarrow> jsobj" where
  "getInputs routing =
     (case obj_get routing INPUTS_KEY of
        Some (JObj v) \<Rightarrow>
          foldl (\<lambda>out (k, val). if k = U ''__proto__'' then out
                                else if hasBlobRef val then out
                                else obj_set k val out) [] v
      | _ \<Rightarrow> [])"

definition readRawInputs :: "jsobj \<Rightarrow> jsobj option" where
  "readRawInputs routing = (case obj_get routing INPUTS_KEY of Some (JObj v) \<Rightarrow> Some v | _ \<Rightarrow> None)"

definition setInputs :: "jsobj \<Rightarrow> jsobj \<Rightarrow> jsobj" where
  "setInputs routing inputs = obj_set INPUTS_KEY (JObj inputs) routing"

fun strings_of :: "jsval list \<Rightarrow> ustring list option" where
  \<comment> \<open>\<open>v.every((e) => typeof e === "string")\<close>, with the strings\<close>
  "strings_of [] = Some []"
| "strings_of (JStr s # vs) = map_option (Cons s) (strings_of vs)"
| "strings_of (_ # vs) = None"

definition getFrontier :: "jsobj \<Rightarrow> ustring list option" where
  "getFrontier routing = (case obj_get routing ACTIVE_NODES_KEY of Some (JArr vs) \<Rightarrow> strings_of vs | _ \<Rightarrow> None)"

record BudgetView =
  bv_override :: "BudgetScope \<Rightarrow> BudgetMetric \<Rightarrow> jsnum option"
  bv_warned :: "ustring list"

definition getBudget :: "jsobj \<Rightarrow> BudgetView" where
  "getBudget routing =
     \<lparr>bv_override = (\<lambda>scope metric.
        case obj_get routing (budgetOverrideKey scope metric) of Some (JNum v) \<Rightarrow> Some v | _ \<Rightarrow> None),
      bv_warned =
        (case obj_get routing BUDGET_WARNED_KEY of
           Some (JArr items) \<Rightarrow>
             foldl (\<lambda>warned item. case item of JStr s \<Rightarrow> if s \<in> set warned then warned else warned @ [s] | _ \<Rightarrow> warned)
               [] items
         | _ \<Rightarrow> [])\<rparr>"

record RetryView =
  rv_count :: "ustring \<Rightarrow> number"
  rv_timeoutRetries :: "ustring \<Rightarrow> number"
  rv_providerAttempt :: number
  rv_providerCumulativeMs :: number

definition getRetry :: "jsobj \<Rightarrow> RetryView" where
  "getRetry routing =
     \<lparr>rv_count = (\<lambda>nodeId. finiteNumber routing (retryCountKey nodeId)),
      rv_timeoutRetries = (\<lambda>nodeId. finiteNumber routing (timeoutRetriesKey nodeId)),
      rv_providerAttempt = finiteNumber routing PROVIDER_RETRY_ATTEMPT_KEY,
      rv_providerCumulativeMs = finiteNumber routing PROVIDER_RETRY_CUMULATIVE_MS_KEY\<rparr>"

record GoalGateView =
  gg_outcomes :: "(ustring \<times> OutcomeStatus) list"
  gg_retries :: number

definition getGoalGate :: "jsobj \<Rightarrow> GoalGateView" where
  "getGoalGate routing =
     \<lparr>gg_outcomes =
        foldl (\<lambda>outcomes (k, v).
          if \<not> startsWith k GOAL_GATE_OUTCOME_KEY_PREFIX then outcomes
          else if k = GOAL_GATE_RETRIES_KEY then outcomes
          else (case asOutcomeStatus v of
                  Some st \<Rightarrow> obj_set (drop (length GOAL_GATE_OUTCOME_KEY_PREFIX) k) st outcomes
                | None \<Rightarrow> outcomes)) [] routing,
      gg_retries = finiteNumber routing GOAL_GATE_RETRIES_KEY\<rparr>"

definition readGateOutcomes :: "jsobj \<Rightarrow> (ustring \<times> OutcomeStatus) list" where
  "readGateOutcomes routing = gg_outcomes (getGoalGate routing)"

definition readGoalGateRetries :: "jsobj \<Rightarrow> number" where
  "readGoalGateRetries routing = gg_retries (getGoalGate routing)"

record LimitsView =
  lv_maxLoops :: "number option"
  lv_maxGoalGateRetries :: "number option"
  lv_maxRetries :: "ustring \<Rightarrow> number option"

definition finiteOrUndef :: "jsobj \<Rightarrow> ustring \<Rightarrow> number option" where
  "finiteOrUndef routing key = (case obj_get routing key of Some (JNum (Fin r)) \<Rightarrow> Some r | _ \<Rightarrow> None)"

definition getLimits :: "jsobj \<Rightarrow> LimitsView" where
  "getLimits routing =
     \<lparr>lv_maxLoops = finiteOrUndef routing MAX_LOOPS_OVERRIDE_KEY,
      lv_maxGoalGateRetries = finiteOrUndef routing MAX_GOAL_GATE_RETRIES_OVERRIDE_KEY,
      lv_maxRetries = (\<lambda>nodeId. finiteOrUndef routing (maxRetriesOverrideKey nodeId))\<rparr>"

definition getTimer :: "jsobj \<Rightarrow> jsnum option" where
  "getTimer routing = (case obj_get routing AUTO_RESUME_AT_KEY of Some (JNum v) \<Rightarrow> Some v | _ \<Rightarrow> None)"

record ContextView =
  cv_goal :: "ustring option"
  cv_runId :: "ustring option"

definition getContext :: "jsobj \<Rightarrow> ContextView" where
  "getContext routing =
     \<lparr>cv_goal = routingString routing GRAPH_GOAL_KEY, cv_runId = routingString routing GRAPH_RUN_ID_KEY\<rparr>"

section \<open>Operator notes and steers\<close>

text \<open>An operator note is kept as the object it is, so that its serialised size counts all it holds.\<close>

type_synonym OperatorNote = jsobj

definition noteText :: "OperatorNote \<Rightarrow> ustring" where
  "noteText n = (case obj_get n (U ''note'') of Some (JStr s) \<Rightarrow> s | _ \<Rightarrow> [])"

definition readOperatorNotes :: "jsobj \<Rightarrow> OperatorNote list" where
  "readOperatorNotes routing =
     (case obj_get routing OPERATOR_NOTES_KEY of
        Some (JArr vs) \<Rightarrow>
          filter (\<lambda>n. length (noteText n) > 0)
            (List.map_filter (\<lambda>v. case v of JObj ob \<Rightarrow> (if isOperatorNote v then Some ob else None) | _ \<Rightarrow> None) vs)
      | _ \<Rightarrow> [])"

definition readPendingSteer :: "jsobj \<Rightarrow> ustring option" where
  "readPendingSteer routing =
     (case obj_get routing PENDING_STEER_KEY of Some (JStr v) \<Rightarrow> (if length v > 0 then Some v else None) | _ \<Rightarrow> None)"

definition readPauseAfterDispatch :: "jsobj \<Rightarrow> bool" where
  "readPauseAfterDispatch routing = (obj_get routing PAUSE_AFTER_DISPATCH_KEY = Some (JBool True))"

definition OPERATOR_NOTE_MAX_BYTES :: int where "OPERATOR_NOTE_MAX_BYTES = 2000"
definition OPERATOR_NOTES_MAX_BYTES :: int where "OPERATOR_NOTES_MAX_BYTES = 4096"
definition PENDING_STEER_MAX_BYTES :: int where "PENDING_STEER_MAX_BYTES = 8000"
definition TRUNCATION_MARKER :: ustring where "TRUNCATION_MARKER = U '' [truncated]''"

fun truncate_scan :: "ustring \<Rightarrow> int \<Rightarrow> nat \<Rightarrow> nat" where
  \<comment> \<open>the loop \<open>while (end > 0 && utf8Bytes(text.slice(0, end)) > maxBytes) end--\<close>\<close>
  "truncate_scan text maxBytes 0 = 0"
| "truncate_scan text maxBytes (Suc e) =
     (if int (byteLength (take (Suc e) text)) > maxBytes then truncate_scan text maxBytes e else Suc e)"

definition truncate_align :: "ustring \<Rightarrow> nat \<Rightarrow> nat" where
  \<comment> \<open>the surrogate adjustment\<close>
  "truncate_align text e =
     (if e > 0 \<and> e < length text then
        (if isHigh (text ! (e - 1)) then e - 1
         else if isLow (text ! (e - 1)) then
           (if \<not> (e \<ge> 2 \<and> isHigh (text ! (e - 2))) then e - 1 else e)
         else e)
      else e)"

definition utf8Truncate :: "ustring \<Rightarrow> int \<Rightarrow> ustring" where
  "utf8Truncate text maxBytes =
     (if maxBytes \<le> 0 then []
      else if int (byteLength text) \<le> maxBytes then text
      else take (truncate_align text (truncate_scan text maxBytes (length text))) text)"

definition truncateOperatorNote :: "ustring \<Rightarrow> int \<Rightarrow> ustring" where
  "truncateOperatorNote note maxBytes =
     (if int (byteLength note) \<le> maxBytes then note
      else
        let mark = if maxBytes > int (byteLength TRUNCATION_MARKER) * 2 then TRUNCATION_MARKER else [];
            truncated = utf8Truncate note (maxBytes - int (byteLength mark))
        in if truncated = [] then [] else truncated @ mark)"

text \<open>\<open>JSON.stringify\<close> of a JSON value.\<close>

fun JSON_stringify :: "jsval \<Rightarrow> ustring" and JSON_elements :: "jsval list \<Rightarrow> ustring list"
  and JSON_members :: "(ustring \<times> jsval) list \<Rightarrow> ustring list" where
  "JSON_stringify JNull = U ''null''"
| "JSON_stringify (JBool b) = (if b then U ''true'' else U ''false'')"
| "JSON_stringify (JNum n) = (case n of Fin r \<Rightarrow> numberToString r | _ \<Rightarrow> U ''null'')"
| "JSON_stringify (JStr s) = JSON_quote s"
| "JSON_stringify (JArr vs) = U ''['' @ ujoin (U '','') (JSON_elements vs) @ U '']''"
| "JSON_stringify (JObj ob) = U ''{'' @ ujoin (U '','') (JSON_members ob) @ U ''}''"
| "JSON_elements [] = []"
| "JSON_elements (v # vs) = JSON_stringify v # JSON_elements vs"
| "JSON_members [] = []"
| "JSON_members ((k, v) # ms) = (JSON_quote k @ U '':'' @ JSON_stringify v) # JSON_members ms"

definition notesFit :: "int \<Rightarrow> OperatorNote list \<Rightarrow> bool" where
  "notesFit maxBytes ns = (int (byteLength (JSON_stringify (JArr (map JObj ns)))) \<le> maxBytes)"

fun shift_oldest :: "int \<Rightarrow> OperatorNote list \<Rightarrow> OperatorNote list" where
  \<comment> \<open>the loop \<open>while (out.length > 1 && !fits(out)) out.shift()\<close>\<close>
  "shift_oldest maxBytes (n # n' # rest) =
     (if \<not> notesFit maxBytes (n # n' # rest) then shift_oldest maxBytes (n' # rest) else n # n' # rest)"
| "shift_oldest maxBytes ns = ns"

definition withNote :: "OperatorNote \<Rightarrow> ustring \<Rightarrow> OperatorNote" where
  "withNote n t = obj_set (U ''note'') (JStr t) n"

function shrink_newest :: "int \<Rightarrow> OperatorNote \<Rightarrow> int \<Rightarrow> OperatorNote list" where
  \<comment> \<open>the loop \<open>while (room > 0)\<close>, which halves \<open>room\<close> on each miss\<close>
  "shrink_newest maxBytes newest room =
     (if room > 0 then
        let candidate = truncateOperatorNote (noteText newest) room in
        if length candidate > 0 \<and> notesFit maxBytes [withNote newest candidate]
        then [withNote newest candidate]
        else shrink_newest maxBytes newest (room div 2)
      else [])"
  by pat_completeness auto
termination
  by (relation "measure (\<lambda>(m, n, room). nat room)") auto

declare shrink_newest.simps [simp del]

definition capOperatorNotes :: "OperatorNote list \<Rightarrow> int \<Rightarrow> OperatorNote list" where
  "capOperatorNotes notes maxBytes =
     (let out = shift_oldest maxBytes notes in
      if out = [] \<or> notesFit maxBytes out then out
      else
        let newest = hd out;
            room = maxBytes - int (byteLength (JSON_stringify (JArr [JObj (withNote newest [])])))
        in shrink_newest maxBytes newest room)"

section \<open>Reads after writes\<close>

lemma strings_of_map [simp]: "strings_of (map JStr xs) = Some xs"
  by (induction xs) auto

lemma strings_of_Some: "strings_of vs = Some xs \<Longrightarrow> vs = map JStr xs"
  by (induction vs arbitrary: xs rule: strings_of.induct) auto

lemma getFrontier_set [simp]:
  "getFrontier (obj_set ACTIVE_NODES_KEY (JArr (map JStr xs)) r) = Some xs"
  by (simp add: getFrontier_def obj_simps)

lemma getFrontier_del [simp]: "getFrontier (obj_del ACTIVE_NODES_KEY r) = None"
  by (simp add: getFrontier_def obj_simps)

lemma isOutcomeStatus_statusString [simp]: "isOutcomeStatus (JStr (statusString st))"
  by (cases st) (simp_all add: isOutcomeStatus_def asOutcomeStatus_def OUTCOME_STATUSES_def)

section \<open>The vocabulary the planners write\<close>

named_theorems entry_ok \<open>entries the write gate accepts\<close>

lemma startsWith_Cons [simp]: "startsWith (a # s) (b # p) = (a = b \<and> startsWith s p)"
  by (simp add: startsWith_def)

lemma startsWith_Nil [simp]: "startsWith s []"
  by (simp add: startsWith_def)

lemma startsWith_Nil_Cons [simp]: "\<not> startsWith [] (b # p)"
  by (simp add: startsWith_def)

lemmas key_eval = routingKeyKind_def EXACT_ROUTING_KINDS_def BUDGET_OVERRIDE_KEYS_def BUDGET_METRICS_def
  BUDGET_SCOPES_def budgetOverrideKey_def retryCountKey_def timeoutRetriesKey_def
  maxRetriesOverrideKey_def goalGateOutcomeKey_def routing_keys routing_prefixes

lemma kind_exact:
  "routingKeyKind AUTO_RESUME_AT_KEY = Some RK_number"
  "routingKeyKind PROVIDER_RETRY_ATTEMPT_KEY = Some RK_number"
  "routingKeyKind PROVIDER_RETRY_CUMULATIVE_MS_KEY = Some RK_number"
  "routingKeyKind BUDGET_WARNED_KEY = Some RK_string_array"
  "routingKeyKind MAX_LOOPS_OVERRIDE_KEY = Some RK_number"
  "routingKeyKind MAX_GOAL_GATE_RETRIES_OVERRIDE_KEY = Some RK_number"
  "routingKeyKind GOAL_GATE_RETRIES_KEY = Some RK_number"
  "routingKeyKind GRAPH_GOAL_KEY = Some RK_string"
  "routingKeyKind GRAPH_RUN_ID_KEY = Some RK_string"
  "routingKeyKind PRIORITY_KEY = Some RK_number"
  "routingKeyKind OPERATOR_NOTES_KEY = Some RK_operator_notes"
  "routingKeyKind PENDING_STEER_KEY = Some RK_string"
  "routingKeyKind PAUSE_AFTER_DISPATCH_KEY = Some RK_boolean"
  "routingKeyKind INPUTS_KEY = Some RK_object"
  "routingKeyKind ACTIVE_NODES_KEY = Some RK_string_array"
  by (simp_all add: routingKeyKind_def EXACT_ROUTING_KINDS_def routing_keys)

lemma kind_budgetOverride: "routingKeyKind (budgetOverrideKey scope metric) = Some RK_number"
  by (cases scope; cases metric) (simp_all add: key_eval ustr)

lemma kind_prefixed:
  "n \<noteq> [] \<Longrightarrow> routingKeyKind (retryCountKey n) = Some RK_number"
  "n \<noteq> [] \<Longrightarrow> routingKeyKind (timeoutRetriesKey n) = Some RK_number"
  "n \<noteq> [] \<Longrightarrow> routingKeyKind (maxRetriesOverrideKey n) = Some RK_number"
  by (simp_all add: key_eval ustr)

lemma kind_goalGate:
  "n \<noteq> [] \<Longrightarrow> n \<noteq> U ''__retries'' \<Longrightarrow> routingKeyKind (goalGateOutcomeKey n) = Some RK_outcome_status"
  by (simp add: key_eval ustr)

lemma entry_number [entry_ok]: "routingKeyKind k = Some RK_number \<Longrightarrow> entryOk k (JFin r)"
  by (simp add: entryOk_def matchesRoutingKind_def isFinite_def)

lemma entry_string [entry_ok]: "routingKeyKind k = Some RK_string \<Longrightarrow> entryOk k (JStr t)"
  by (simp add: entryOk_def matchesRoutingKind_def)

lemma entry_boolean [entry_ok]: "routingKeyKind k = Some RK_boolean \<Longrightarrow> entryOk k (JBool b)"
  by (simp add: entryOk_def matchesRoutingKind_def)

lemma entry_strings [entry_ok]: "routingKeyKind k = Some RK_string_array \<Longrightarrow> entryOk k (JArr (map JStr xs))"
  by (simp add: entryOk_def matchesRoutingKind_def isStr_def list_all_iff)

lemma entry_status [entry_ok]:
  "routingKeyKind k = Some RK_outcome_status \<Longrightarrow> entryOk k (JStr (statusString st))"
  by (simp add: entryOk_def matchesRoutingKind_def)

lemma entry_notes [entry_ok]:
  "routingKeyKind k = Some RK_operator_notes \<Longrightarrow> list_all isOperatorNote (map JObj ns) \<Longrightarrow> entryOk k (JArr (map JObj ns))"
  by (simp add: entryOk_def matchesRoutingKind_def)

lemmas kinds = kind_exact kind_budgetOverride kind_prefixed kind_goalGate

section \<open>The enqueue allow-list, characterised\<close>

lemma max_retries_prefix:
  "(length k > length MAX_RETRIES_OVERRIDE_PREFIX \<and> startsWith k MAX_RETRIES_OVERRIDE_PREFIX)
     = (\<exists>n. n \<noteq> [] \<and> k = maxRetriesOverrideKey n)"
  unfolding maxRetriesOverrideKey_def MAX_RETRIES_OVERRIDE_PREFIX_def
  using startsWith_obtain [of k "U ''max_retries_override.''"] by fastforce

lemma allow_list_disjoint:
  "budgetOverrideKey scope metric \<noteq> maxRetriesOverrideKey n"
  "MAX_GOAL_GATE_RETRIES_OVERRIDE_KEY \<noteq> maxRetriesOverrideKey n"
  "budgetOverrideKey scope metric \<noteq> MAX_GOAL_GATE_RETRIES_OVERRIDE_KEY"
  "budgetOverrideKey scope metric \<noteq> INPUTS_KEY" "maxRetriesOverrideKey n \<noteq> INPUTS_KEY"
  "MAX_GOAL_GATE_RETRIES_OVERRIDE_KEY \<noteq> INPUTS_KEY"
  by (simp_all add: budgetOverrideKey_def maxRetriesOverrideKey_def routing_keys ustr)

lemma max_retries_not_other:
  "maxRetriesOverrideKey n \<notin> set BUDGET_OVERRIDE_KEYS" "maxRetriesOverrideKey n \<noteq> MAX_GOAL_GATE_RETRIES_OVERRIDE_KEY"
  by (simp_all add: BUDGET_OVERRIDE_KEYS_def BUDGET_SCOPES_def BUDGET_METRICS_def
      allow_list_disjoint(1) [symmetric] allow_list_disjoint(2) [symmetric])

lemma enqueue_rule:
  "map_option er_value (enqueueRoutingRule k) =
     (if k \<in> set BUDGET_OVERRIDE_KEYS \<or> k = MAX_GOAL_GATE_RETRIES_OVERRIDE_KEY then Some EV_positive_finite
      else if (\<exists>n. n \<noteq> [] \<and> k = maxRetriesOverrideKey n) then Some EV_non_negative_integer else None)"
proof (cases "\<exists>n. n \<noteq> [] \<and> k = maxRetriesOverrideKey n")
  case True
  then have n: "k \<notin> set BUDGET_OVERRIDE_KEYS" "k \<noteq> MAX_GOAL_GATE_RETRIES_OVERRIDE_KEY"
    by (auto simp: max_retries_not_other)
  have "enqueueRoutingRule k
      = Some \<lparr>er_key = MAX_RETRIES_OVERRIDE_PREFIX, er_prefix = True, er_value = EV_non_negative_integer\<rparr>"
    using n max_retries_prefix [of k] True
    by (simp add: enqueueRoutingRule_def ENQUEUE_ROUTING_ALLOWLIST_def BUDGET_SCOPES_def BUDGET_METRICS_def
        BUDGET_OVERRIDE_KEYS_def)
  with True n show ?thesis by simp
next
  case False
  then have pre: "(length k > length MAX_RETRIES_OVERRIDE_PREFIX \<and> startsWith k MAX_RETRIES_OVERRIDE_PREFIX) = False"
    using max_retries_prefix [of k] by simp
  show ?thesis
    by (simp only: enqueueRoutingRule_def ENQUEUE_ROUTING_ALLOWLIST_def BUDGET_SCOPES_def BUDGET_METRICS_def
        BUDGET_OVERRIDE_KEYS_def list.map concat.simps append.simps find.simps EnqueueRoutingRule.simps pre False
        if_True if_False list.set insert_iff empty_iff) simp
qed

lemma safe_natural: "(isSafeInteger n \<and> (case n of Fin r \<Rightarrow> r \<ge> 0 | _ \<Rightarrow> False))
    = (\<exists>i. n = Fin (of_nat i) \<and> i \<le> 9007199254740991)"
proof -
  have "(r = Math_floor r \<and> \<bar>r\<bar> \<le> 9007199254740991 \<and> 0 \<le> r) = (\<exists>i. r = of_nat i \<and> i \<le> 9007199254740991)" for r :: number
  proof
    assume r: "r = Math_floor r \<and> \<bar>r\<bar> \<le> 9007199254740991 \<and> 0 \<le> r"
    define i where "i = nat (floor r)"
    have "r = of_nat i" using r by (simp add: i_def Math_floor_def of_nat_nat)
    moreover from this have "i \<le> 9007199254740991" using r
      by (metis abs_of_nat of_nat_le_iff of_nat_numeral)
    ultimately show "\<exists>i. r = of_nat i \<and> i \<le> 9007199254740991" by blast
  next
    assume "\<exists>i. r = of_nat i \<and> i \<le> 9007199254740991"
    then obtain i :: nat where i: "r = of_nat i" "i \<le> 9007199254740991" by blast
    have "r = Math_floor r" unfolding i(1) using Math_floor_int [of "int i"] by simp
    moreover have "r \<le> 9007199254740991" unfolding i(1) using i(2) by (metis of_nat_le_iff of_nat_numeral)
    ultimately show "r = Math_floor r \<and> \<bar>r\<bar> \<le> 9007199254740991 \<and> 0 \<le> r" using i(1) by simp
  qed
  then show ?thesis by (cases n) (auto simp: isSafeInteger_def)
qed

lemma enqueue_rule_key:
  assumes "enqueueRoutingRule k = Some rule"
  shows "k \<noteq> INPUTS_KEY" "routingKeyKind k = Some RK_number"
proof -
  consider scope metric where "k = budgetOverrideKey scope metric" | "k = MAX_GOAL_GATE_RETRIES_OVERRIDE_KEY"
    | n where "n \<noteq> []" "k = maxRetriesOverrideKey n"
    using enqueue_rule [of k] assms by (auto simp: BUDGET_OVERRIDE_KEYS_def split: if_splits)
  then show "k \<noteq> INPUTS_KEY" "routingKeyKind k = Some RK_number"
    by (cases; simp add: kinds allow_list_disjoint)+
qed

lemma enqueue_entry:
  "enqueueEntryErrors k v = [] \<longleftrightarrow>
     ((k \<in> set BUDGET_OVERRIDE_KEYS \<or> k = MAX_GOAL_GATE_RETRIES_OVERRIDE_KEY) \<and> (\<exists>r > 0. v = JFin r))
     \<or> (\<exists>n i. n \<noteq> [] \<and> k = maxRetriesOverrideKey n \<and> v = JFin (of_nat i) \<and> i \<le> 9007199254740991)"
proof -
  have one: "patchOk [(k, v)] = entryOk k v" for k v by (simp add: patch_gate.accepts_iff)
  have num: "satisfiesEnqueueRule v rule \<Longrightarrow> \<exists>r. v = JFin r" for v rule
    by (auto simp: satisfiesEnqueueRule_def isFinite_def isSafeInteger_def split: jsval.splits jsnum.splits EnqueueValueRule.splits)
  have pos: "er_value rule = EV_positive_finite \<Longrightarrow> satisfiesEnqueueRule v rule = (\<exists>r > 0. v = JFin r)" for v rule
    by (auto simp: satisfiesEnqueueRule_def isFinite_def js_pos_def split: jsval.splits jsnum.splits)
  have nn: "er_value rule = EV_non_negative_integer \<Longrightarrow> satisfiesEnqueueRule v rule
      = (\<exists>i. v = JFin (of_nat i) \<and> i \<le> 9007199254740991)" for v rule
    by (simp add: satisfiesEnqueueRule_def safe_natural split: jsval.splits)
  show ?thesis
  proof (cases "enqueueRoutingRule k")
    case None
    then show ?thesis using enqueue_rule [of k] by (auto simp: enqueueEntryErrors_def split: if_splits)
  next
    case (Some rule)
    note k = enqueue_rule_key [OF Some]
    then have "(enqueueEntryErrors k v = []) = satisfiesEnqueueRule v rule"
      using num [of v rule] entry_number [OF k(2)] by (auto simp: enqueueEntryErrors_def Some one)
    moreover have "(k \<in> set BUDGET_OVERRIDE_KEYS \<or> k = MAX_GOAL_GATE_RETRIES_OVERRIDE_KEY)
        = (\<not> (\<exists>n. n \<noteq> [] \<and> k = maxRetriesOverrideKey n))"
      using enqueue_rule [of k] Some by (auto simp: max_retries_not_other split: if_splits)
    ultimately show ?thesis
      using enqueue_rule [of k] Some pos [of rule v] nn [of rule v]
      by (cases "er_value rule") (auto split: if_splits)
  qed
qed

text \<open>a genesis routing object is accepted at enqueue exactly when every entry is a positive
  finite budget or goal-gate ceiling, or a per-node retry ceiling (non-empty node id) that is a
  non-negative safe integer; no engine-owned key gets through.\<close>

theorem validateEnqueueRouting_iff:
  "(validateEnqueueRouting (JObj ob) = []) =
     list_all (\<lambda>(k, v).
        ((k \<in> set BUDGET_OVERRIDE_KEYS \<or> k = MAX_GOAL_GATE_RETRIES_OVERRIDE_KEY) \<and> (\<exists>r > 0. v = JFin r))
        \<or> (\<exists>n i. n \<noteq> [] \<and> k = maxRetriesOverrideKey n \<and> v = JFin (of_nat i) \<and> i \<le> 9007199254740991)) ob"
  by (auto simp: validateEnqueueRouting_def list_all_iff enqueue_entry split_beta)

section \<open>Byte budgets\<close>

lemma truncate_scan_le: "truncate_scan t n e \<le> e"
  by (induction e) (auto intro: le_SucI)

lemma truncate_scan_fits: "0 \<le> n \<Longrightarrow> int (byteLength (take (truncate_scan t n e) t)) \<le> n"
  by (induction e) (auto simp: byteLength_def)

lemma truncate_scan_short: "int (byteLength t) > n \<Longrightarrow> t \<noteq> [] \<Longrightarrow> truncate_scan t n (length t) < length t"
  using truncate_scan_le [of t n "length t - 1"] by (cases "length t") auto

lemma last_take: "0 < e \<Longrightarrow> e \<le> length t \<Longrightarrow> last (take e t) = t ! (e - 1)"
  by (subst last_conv_nth) auto

lemma byteLength_take_Suc:
  assumes "e < length t" "\<not> (isLow (t ! e) \<and> e > 0 \<and> isHigh (t ! (e - 1)))"
  shows "codePoints (take (Suc e) t) = codePoints (take e t) @ [unat (t ! e)]"
proof -
  have "take (Suc e) t = take e t @ [t ! e]" using assms(1) by (rule take_Suc_conv_app_nth)
  moreover have "e > 0 \<Longrightarrow> last (take e t) = t ! (e - 1)" using assms(1) by (simp add: last_take)
  ultimately show ?thesis using assms by (cases "e = 0") (auto simp: codePoints_append)
qed

lemma truncate_align_boundary:
  assumes "0 < e" "e < length t"
  defines "a \<equiv> truncate_align t e"
  shows "codePoints t = codePoints (take a t) @ codePoints (drop a t)" "byteLength (take a t) \<le> byteLength (take e t)"
proof -
  have "a \<le> e \<and> e \<le> Suc a" by (auto simp: a_def truncate_align_def)
  then have al: "a = e \<or> Suc a = e" by linarith
  have bd: "\<not> (a > 0 \<and> isHigh (t ! (a - 1)) \<and> isLow (t ! a))"
    using assms isHigh_not_isLow by (auto simp: a_def truncate_align_def diff_diff_eq numeral_2_eq_2 split: if_splits)
  have "\<not> (isHigh (last (take a t)) \<and> isLow (hd (drop a t))) \<or> take a t = []"
    using al assms(2) bd by (cases "a = 0") (auto simp: last_take hd_drop_conv_nth)
  then show "codePoints t = codePoints (take a t) @ codePoints (drop a t)"
    using codePoints_append [of "take a t" "drop a t"] by auto
  show "byteLength (take a t) \<le> byteLength (take e t)"
  proof (cases "a = e")
    case False
    with al have e: "e = Suc a" by simp
    have "codePoints (take (Suc a) t) = codePoints (take a t) @ [unat (t ! a)]"
      using assms(2) bd e by (intro byteLength_take_Suc) auto
    then show ?thesis by (simp add: e byteLength_def)
  qed simp
qed

lemma utf8Truncate_prefix:
  "\<exists>e. utf8Truncate t n = take e t \<and> codePoints t = codePoints (take e t) @ codePoints (drop e t)
     \<and> int (byteLength (take e t)) \<le> max 0 n"
proof (cases "n \<le> 0")
  case True
  then show ?thesis by (intro exI [of _ 0]) (simp add: utf8Truncate_def byteLength_def)
next
  case n: False
  show ?thesis
  proof (cases "int (byteLength t) \<le> n")
    case True
    with n show ?thesis by (intro exI [of _ "length t"]) (simp add: utf8Truncate_def)
  next
    case False
    define e where "e = truncate_scan t n (length t)"
    have fits: "int (byteLength (take e t)) \<le> n" unfolding e_def using n by (intro truncate_scan_fits) simp
    have "t \<noteq> []" using False n by (auto simp: byteLength_def)
    then have less: "e < length t" unfolding e_def using False by (intro truncate_scan_short) auto
    have eq: "utf8Truncate t n = take (truncate_align t e) t"
      using n False by (simp add: utf8Truncate_def e_def)
    show ?thesis
    proof (cases "e = 0")
      case True
      then show ?thesis by (intro exI [of _ 0]) (simp add: eq truncate_align_def byteLength_def)
    next
      case pos: False
      then show ?thesis using truncate_align_boundary [of e t] less fits n eq
        by (intro exI [of _ "truncate_align t e"]) auto
    qed
  qed
qed

lemma byteLength_marker: "byteLength TRUNCATION_MARKER = 12" "TRUNCATION_MARKER \<noteq> []"
    "\<not> isLow (hd TRUNCATION_MARKER)"
  by (simp_all add: TRUNCATION_MARKER_def ustr byteLength_def utf8Bytes_def isHigh_def isLow_def)

text \<open>an operator note truncated to a byte budget is at most that many UTF-8 bytes (nothing
  when the budget is not positive), it is the note itself when that fits, and otherwise it is a
  prefix cut on a code point boundary, bare or followed by the marker.\<close>

theorem truncateOperatorNote_bound:
  "int (byteLength (truncateOperatorNote note n)) \<le> max 0 n
   \<and> (\<exists>e. codePoints note = codePoints (take e note) @ codePoints (drop e note)
        \<and> truncateOperatorNote note n \<in> {take e note, take e note @ TRUNCATION_MARKER})"
proof (cases "int (byteLength note) \<le> n")
  case True
  then show ?thesis
    by (auto simp: truncateOperatorNote_def intro!: exI [of _ "length note"])
next
  case False
  define mark where "mark = (if n > int (byteLength TRUNCATION_MARKER) * 2 then TRUNCATION_MARKER else [])"
  define b where "b = n - int (byteLength mark)"
  obtain e where e: "utf8Truncate note b = take e note"
    "codePoints note = codePoints (take e note) @ codePoints (drop e note)" "int (byteLength (take e note)) \<le> max 0 b"
    using utf8Truncate_prefix by blast
  have eq: "truncateOperatorNote note n = (if take e note = [] then [] else take e note @ mark)"
    using False e(1) by (simp add: truncateOperatorNote_def mark_def b_def Let_def)
  have mk: "mark = [] \<or> mark = TRUNCATION_MARKER \<and> b > 0" by (auto simp: mark_def b_def byteLength_marker)
  then have "byteLength (take e note @ mark) = byteLength (take e note) + byteLength mark"
    using byteLength_marker by (auto simp: byteLength_def codePoints_append)
  moreover have "mark = [] \<Longrightarrow> b = n" by (simp add: b_def byteLength_def)
  ultimately have "int (byteLength (take e note @ mark)) \<le> max 0 n" using mk e(3) by (auto simp: b_def byteLength_def)
  then have "int (byteLength (truncateOperatorNote note n)) \<le> max 0 n" unfolding eq by (simp add: byteLength_def)
  moreover have "truncateOperatorNote note n \<in> {take e note, take e note @ TRUNCATION_MARKER}"
    unfolding eq using mk by auto
  ultimately show ?thesis using e(2) by blast
qed

lemma shift_oldest_drop: "\<exists>k. shift_oldest m ns = drop k ns \<and> (ns = [] \<or> k < length ns)
    \<and> (notesFit m (shift_oldest m ns) \<or> length (shift_oldest m ns) \<le> 1)"
proof (induction m ns rule: shift_oldest.induct)
  case (1 m n n' rest)
  show ?case
  proof (cases "notesFit m (n # n' # rest)")
    case True
    then show ?thesis by (intro exI [of _ 0]) simp
  next
    case False
    with 1 obtain k where "shift_oldest m (n' # rest) = drop k (n' # rest)" "k < length (n' # rest)"
      "notesFit m (shift_oldest m (n' # rest)) \<or> length (shift_oldest m (n' # rest)) \<le> 1" by auto
    with False show ?thesis by (intro exI [of _ "Suc k"]) auto
  qed
qed (auto intro!: exI [of _ 0])

lemma shrink_newest_spec:
  "shrink_newest m n room = [] \<or> (\<exists>t. t \<noteq> [] \<and> shrink_newest m n room = [withNote n t] \<and> notesFit m [withNote n t])"
proof (induction m n room rule: shrink_newest.induct)
  case (1 m n room)
  let ?c = "truncateOperatorNote (noteText n) room"
  show ?case
  proof (cases "room > 0 \<and> \<not> (length ?c > 0 \<and> notesFit m [withNote n ?c])")
    case True
    then have "shrink_newest m n room = shrink_newest m n (room div 2)"
      by (subst shrink_newest.simps) (auto simp: Let_def)
    with 1 [of ?c] True show ?thesis by simp
  next
    case False
    then have "shrink_newest m n room = (if room > 0 then [withNote n ?c] else [])"
      by (subst shrink_newest.simps) (auto simp: Let_def)
    with False show ?thesis by auto
  qed
qed

text \<open>the capped notes are empty or their serialised array fits the byte budget; they are the
  newest notes of the list, unchanged, or the newest note alone with a shortened, non-empty text.\<close>

theorem capOperatorNotes_bound:
  "(capOperatorNotes notes n = [] \<or> notesFit n (capOperatorNotes notes n))
   \<and> ((\<exists>k. capOperatorNotes notes n = drop k notes)
      \<or> (\<exists>t. notes \<noteq> [] \<and> t \<noteq> [] \<and> capOperatorNotes notes n = [withNote (last notes) t]))"
proof -
  define out where "out = shift_oldest n notes"
  obtain k where k: "out = drop k notes" "notes = [] \<or> k < length notes" "notesFit n out \<or> length out \<le> 1"
    using shift_oldest_drop unfolding out_def by blast
  show ?thesis
  proof (cases "out = [] \<or> notesFit n out")
    case True
    then have "capOperatorNotes notes n = out" by (simp add: capOperatorNotes_def out_def [symmetric] Let_def)
    with True k(1) show ?thesis by auto
  next
    case False
    with k(3) obtain x where x: "out = [x]" by (cases out) auto
    then have "notes = take k notes @ [x]" using k(1) by (metis append_take_drop_id)
    then have last: "notes \<noteq> []" "last notes = x" by (metis Nil_is_append_conv list.distinct(1), metis last_snoc)
    obtain room where "capOperatorNotes notes n = shrink_newest n x room"
      using False x by (auto simp: capOperatorNotes_def out_def [symmetric] Let_def)
    then show ?thesis using shrink_newest_spec [of n x room] last
      by (auto intro: exI [of _ "length notes"])
  qed
qed

end
