(* ===== verification/Reducers.thy ===== *)
theory Reducers
  imports Routing
begin

text \<open>
  The reducer of the event log, \<open>packages/store/src/reducers.ts\<close>, over the projection types of
  \<open>packages/store/src/types.ts\<close>: \<open>applyFact\<close> folds one fact into a run's state,
  \<open>genesisToInitialState\<close> seeds it, \<open>deriveRunState\<close> replays a whole log. States are values, so
  the defensive copies of the source (\<open>cloneMetrics\<close>, the spread of \<open>routing\<close>) are the identity.

  The theorems: what a run is charged is the sum of what its facts carry; the legacy facts fold as
  the unified ones; a run settles on terminal facts only; active time never exceeds elapsed time;
  the fan-out frontier follows an abstract set machine; replaying a log agrees with applying its
  facts one by one.
\<close>

section \<open>State\<close>

record TokenCost =
  tc_tokens :: number
  tc_costUsd :: number

record RunMetrics =
  rm_billedTokens :: number
  rm_totalCostUsd :: number
  rm_totalInputCostUsd :: number
  rm_totalOutputCostUsd :: number
  rm_totalCacheReadCostUsd :: number
  rm_totalCacheWriteCostUsd :: number
  rm_totalInputTokens :: number
  rm_totalOutputTokens :: number
  rm_totalCacheReadTokens :: number
  rm_totalCacheWriteTokens :: number
  rm_loopCounts :: "(ustring \<times> number) list"
  rm_models :: "(ustring \<times> TokenCost) list"
  rm_nodeCosts :: "(ustring \<times> TokenCost) list"
  rm_activeMs :: number

record RunState =
  rn_runId :: ustring
  rn_version :: int
  rn_status :: RunStatus
  rn_currentNode :: "ustring option"
  rn_workflowSha :: ustring
  rn_contractVersion :: number
  rn_routing :: jsobj
  rn_metrics :: RunMetrics
  rn_nextSeq :: int
  rn_lastAppliedSeq :: int
  rn_priority :: number
  rn_enqueuedAt :: number
  rn_readyAt :: number
  rn_nodeStartedAt :: "number option"
  rn_dispatchStartedAt :: "number option"
  rn_updatedAt :: number
  rn_title :: "ustring option"
  rn_baseGitSha :: "ustring option"
  rn_baseGitRef :: "ustring option"
  rn_baseHeadSha :: "ustring option"
  rn_inCheckout :: bool
  rn_checkoutPath :: "ustring option"
  rn_checkoutReleased :: bool
  rn_finalGitSha :: "ustring option"
  rn_finalHeadRef :: "ustring option"
  rn_diffBaseSha :: "ustring option"
  rn_changeStat :: "ChangeStat option"
  rn_inboxStatus :: "InboxStatus option"
  rn_acceptedSha :: "ustring option"
  rn_cwd :: "ustring option"
  rn_projectId :: ustring
  rn_projectName :: ustring
  rn_workflowName :: "ustring option"
  rn_workflowScope :: "WorkflowScope option"
  rn_workflowPath :: "ustring option"
  rn_scheduleId :: "ustring option"

section \<open>The fold\<close>

definition emptyMetrics :: RunMetrics where
  "emptyMetrics = \<lparr>rm_billedTokens = 0, rm_totalCostUsd = 0, rm_totalInputCostUsd = 0, rm_totalOutputCostUsd = 0,
     rm_totalCacheReadCostUsd = 0, rm_totalCacheWriteCostUsd = 0, rm_totalInputTokens = 0, rm_totalOutputTokens = 0,
     rm_totalCacheReadTokens = 0, rm_totalCacheWriteTokens = 0, rm_loopCounts = [], rm_models = [],
     rm_nodeCosts = [], rm_activeMs = 0\<rparr>"

definition dispatchIntervalActiveMsDelta :: "number option \<Rightarrow> number \<Rightarrow> number" where
  "dispatchIntervalActiveMsDelta dispatchStartedAt now =
     (case dispatchStartedAt of None \<Rightarrow> 0 | Some d \<Rightarrow> now - d)"

definition crashRequeueActiveMsDelta :: "number option \<Rightarrow> number option \<Rightarrow> number" where
  "crashRequeueActiveMsDelta dispatchStartedAt lastAliveAt =
     (case dispatchStartedAt of
        None \<Rightarrow> 0
      | Some d \<Rightarrow> (case lastAliveAt of None \<Rightarrow> 0 | Some l \<Rightarrow> if l \<le> d then 0 else l - d))"

definition addActiveMs :: "number \<Rightarrow> RunState \<Rightarrow> RunState" where
  "addActiveMs ms next = next\<lparr>rn_metrics := (rn_metrics next)\<lparr>rm_activeMs := rm_activeMs (rn_metrics next) + ms\<rparr>\<rparr>"

definition closeDispatchInterval :: "RunState \<Rightarrow> number \<Rightarrow> RunState" where
  "closeDispatchInterval next now =
     (if rn_dispatchStartedAt next \<noteq> None
      then (addActiveMs (dispatchIntervalActiveMsDelta (rn_dispatchStartedAt next) now) next)
             \<lparr>rn_dispatchStartedAt := None\<rparr>
      else next)"

definition addUsage :: "number \<Rightarrow> number \<Rightarrow> UsageSplit \<Rightarrow> RunMetrics \<Rightarrow> RunMetrics" where
  \<comment> \<open>the ten \<open>+=\<close> lines that three arms of the switch repeat\<close>
  "addUsage tokens costUsd p m =
     m\<lparr>rm_billedTokens := rm_billedTokens m + tokens,
       rm_totalCostUsd := rm_totalCostUsd m + costUsd,
       rm_totalInputCostUsd := rm_totalInputCostUsd m + orElse (us_inputCostUsd p) 0,
       rm_totalOutputCostUsd := rm_totalOutputCostUsd m + orElse (us_outputCostUsd p) 0,
       rm_totalCacheReadCostUsd := rm_totalCacheReadCostUsd m + orElse (us_cacheReadCostUsd p) 0,
       rm_totalCacheWriteCostUsd := rm_totalCacheWriteCostUsd m + orElse (us_cacheWriteCostUsd p) 0,
       rm_totalInputTokens := rm_totalInputTokens m + orElse (us_inputTokens p) 0,
       rm_totalOutputTokens := rm_totalOutputTokens m + orElse (us_outputTokens p) 0,
       rm_totalCacheReadTokens := rm_totalCacheReadTokens m + orElse (us_cacheReadTokens p) 0,
       rm_totalCacheWriteTokens := rm_totalCacheWriteTokens m + orElse (us_cacheWriteTokens p) 0\<rparr>"

definition noCost :: TokenCost where "noCost = \<lparr>tc_tokens = 0, tc_costUsd = 0\<rparr>"

definition creditNode :: "ustring \<Rightarrow> number \<Rightarrow> UsageSplit \<Rightarrow> RunMetrics \<Rightarrow> RunMetrics" where
  \<comment> \<open>the \<open>nodeCosts\<close> bucket of the three arms: fresh tokens, billed cost\<close>
  "creditNode nodeId costUsd p m =
     (let bucket = orElse (obj_get (rm_nodeCosts m) nodeId) noCost in
      m\<lparr>rm_nodeCosts := obj_set nodeId
           \<lparr>tc_tokens = tc_tokens bucket + orElse (us_inputTokens p) 0 + orElse (us_outputTokens p) 0,
            tc_costUsd = tc_costUsd bucket + costUsd\<rparr> (rm_nodeCosts m)\<rparr>)"

definition creditModel :: "ustring option \<Rightarrow> number \<Rightarrow> number \<Rightarrow> RunMetrics \<Rightarrow> RunMetrics" where
  "creditModel modelName tokens costUsd m =
     (case truthy_str modelName of
        None \<Rightarrow> m
      | Some name \<Rightarrow>
          let bucket = orElse (obj_get (rm_models m) name) noCost in
          m\<lparr>rm_models := obj_set name \<lparr>tc_tokens = tc_tokens bucket + tokens, tc_costUsd = tc_costUsd bucket + costUsd\<rparr>
              (rm_models m)\<rparr>)"

definition bumpLoop :: "ustring \<Rightarrow> RunMetrics \<Rightarrow> RunMetrics" where
  "bumpLoop nodeId m =
     m\<lparr>rm_loopCounts := obj_set nodeId (orElse (obj_get (rm_loopCounts m) nodeId) 0 + 1) (rm_loopCounts m)\<rparr>"

definition inFrontier :: "RunState \<Rightarrow> ustring \<Rightarrow> bool" where
  \<comment> \<open>\<open>getFrontier(next.routing)?.includes(nodeId)\<close>\<close>
  "inFrontier s nodeId = (case getFrontier (rn_routing s) of None \<Rightarrow> False | Some active \<Rightarrow> nodeId \<in> set active)"

definition setFrontier :: "ustring list \<Rightarrow> RunState \<Rightarrow> RunState" where
  "setFrontier active s = s\<lparr>rn_routing := obj_set ACTIVE_NODES_KEY (JArr (map JStr active)) (rn_routing s)\<rparr>"

definition onMetrics :: "(RunMetrics \<Rightarrow> RunMetrics) \<Rightarrow> RunState \<Rightarrow> RunState" where
  "onMetrics f s = s\<lparr>rn_metrics := f (rn_metrics s)\<rparr>"

definition foldHaltSpend :: "RunErrored \<Rightarrow> RunState \<Rightarrow> RunState" where
  \<comment> \<open>the partial-turn spend of a halt\<close>
  "foldHaltSpend p next =
     (if re_partialTokens p \<noteq> None \<or> re_partialCostUsd p \<noteq> None then
        onMetrics (\<lambda>m.
          let m1 = addUsage (orElse (re_partialTokens p) 0) (orElse (re_partialCostUsd p) 0) (re_split p) m in
          case re_nodeId p of
            None \<Rightarrow> m1
          | Some nodeId \<Rightarrow> creditNode nodeId (orElse (re_partialCostUsd p) 0) (re_split p) m1) next
      else next)"

definition applyDispatchStarted :: "RunState \<Rightarrow> DispatchStartedPayload \<Rightarrow> number \<Rightarrow> RunState" where
  "applyDispatchStarted next p now =
     (let n1 = (if rn_status next = St_queued then next\<lparr>rn_status := St_running\<rparr> else next);
          n2 = (if rn_dispatchStartedAt n1 = None then n1\<lparr>rn_dispatchStartedAt := Some now\<rparr> else n1)
      in case getFrontier (rn_routing n2) of
           Some active \<Rightarrow> if ds_nodeId p \<notin> set active then setFrontier (active @ [ds_nodeId p]) n2 else n2
         | None \<Rightarrow> n2)"

definition applyNodeCompleted :: "RunState \<Rightarrow> NodeCompletedPayload \<Rightarrow> number \<Rightarrow> RunState" where
  "applyNodeCompleted next p now =
     (let n1 = (if \<not> inFrontier next (nc_nodeId p) then closeDispatchInterval next now else next);
          n2 = onMetrics (\<lambda>m. creditNode (nc_nodeId p) (nc_costUsd p) (nc_split p)
                 (bumpLoop (nc_nodeId p)
                   (creditModel (nc_modelName p) (nc_tokens p) (nc_costUsd p)
                     (addUsage (nc_tokens p) (nc_costUsd p) (nc_split p) m)))) n1
      in case getFrontier (rn_routing n2) of
           Some active \<Rightarrow>
             if nc_nodeId p \<in> set active then setFrontier (filter (\<lambda>n. n \<noteq> nc_nodeId p) active) n2
             else n2\<lparr>rn_currentNode := Some (nc_nextNode p), rn_nodeStartedAt := Some now\<rparr>
         | None \<Rightarrow> n2\<lparr>rn_currentNode := Some (nc_nextNode p), rn_nodeStartedAt := Some now\<rparr>)"

definition applyNodeAborted :: "RunState \<Rightarrow> NodeAbortedPayload \<Rightarrow> number \<Rightarrow> RunState" where
  "applyNodeAborted next p now =
     (let n1 = (if \<not> inFrontier next (ab_nodeId p) then closeDispatchInterval next now else next)
      in onMetrics (\<lambda>m. creditNode (ab_nodeId p) (ab_partialCostUsd p) (ab_split p)
           (addUsage (ab_partialTokens p) (ab_partialCostUsd p) (ab_split p) m)) n1)"

definition pausedStatus :: "RunPausedPayload \<Rightarrow> RunStatus" where
  "pausedStatus p =
     (case pauseReason p of
        None \<Rightarrow> St_paused_human
      | Some r \<Rightarrow> if r \<in> set AUTO_WAKE_PAUSE_REASONS then St_paused_auto else St_paused)"

definition applyRunTerminated :: "RunState \<Rightarrow> RunTerminatedPayload \<Rightarrow> number \<Rightarrow> RunState" where
  "applyRunTerminated next p now =
     (let n1 = (closeDispatchInterval next now)\<lparr>rn_nodeStartedAt := None\<rparr>;
          n2 = (if rn_inCheckout n1 \<and> rn_baseGitSha n1 = None then n1\<lparr>rn_checkoutReleased := True\<rparr> else n1)
      in case p of
           RT_completed finalNode \<Rightarrow> n2\<lparr>rn_status := St_completed, rn_currentNode := Some finalNode\<rparr>
         | RT_aborted _ \<Rightarrow> n2\<lparr>rn_status := St_cancelled\<rparr>
         | RT_errored e \<Rightarrow> foldHaltSpend e (n2\<lparr>rn_status := St_halted\<rparr>))"

definition applySnapshot :: "RunState \<Rightarrow> SnapshotRecordedPayload \<Rightarrow> RunState" where
  "applySnapshot next p =
     (let hasStat = (sr_committed p \<noteq> None \<or> sr_uncommitted p \<noteq> None);
          n1 = next\<lparr>rn_finalGitSha := sr_headSha p, rn_finalHeadRef := sr_headRef p, rn_diffBaseSha := Some (sr_diffBaseSha p),
                 rn_changeStat := (if hasStat then Some \<lparr>cs_committed = sr_committed p, cs_uncommitted = sr_uncommitted p\<rparr> else None)\<rparr>
      in if rn_inCheckout n1 then
           (let n2 = n1\<lparr>rn_inboxStatus := None\<rparr> in
            if rn_status n2 = St_completed then n2\<lparr>rn_checkoutReleased := True\<rparr> else n2)
         else
           let relocated = (Some (sr_diffBaseSha p) \<noteq> rn_baseGitSha n1);
               committedIsAgentWork = (sr_committed p \<noteq> None \<and> \<not> relocated \<and> sr_headRef p = None);
               recoverable = (sr_uncommitted p \<noteq> None \<or> committedIsAgentWork)
           in n1\<lparr>rn_inboxStatus := (if recoverable then Some IB_pending else None)\<rparr>)"

definition applyFact :: "RunState \<Rightarrow> FactEvent \<Rightarrow> number \<Rightarrow> RunState" where
  "applyFact state fct now =
     (let next = state\<lparr>rn_updatedAt := now\<rparr> in
      case fct of
        F_run_started p \<Rightarrow>
          next\<lparr>rn_status := St_running, rn_currentNode := Some (rs_startNode p), rn_nodeStartedAt := Some now,
            rn_dispatchStartedAt := Some now,
            rn_baseGitSha := orOption (rs_baseGitSha p) (rn_baseGitSha next),
            rn_baseGitRef := orOption (rs_baseGitRef p) (rn_baseGitRef next),
            rn_baseHeadSha := orOption (rs_baseHeadSha p) (rn_baseHeadSha next)\<rparr>
      | F_dispatch_started p \<Rightarrow> applyDispatchStarted next p now
      | F_node_started nodeId _ _ \<Rightarrow>
          next\<lparr>rn_status := St_running, rn_currentNode := Some nodeId, rn_nodeStartedAt := Some now\<rparr>
      | F_node_completed p \<Rightarrow> applyNodeCompleted next p now
      | F_node_aborted p \<Rightarrow> applyNodeAborted next p now
      | F_fanout_started _ _ _ branches \<Rightarrow> (setFrontier branches next)\<lparr>rn_status := St_running\<rparr>
      | F_fanout_joined _ _ _ nextNode _ \<Rightarrow>
          (let n1 = closeDispatchInterval next now in
           n1\<lparr>rn_routing := obj_del ACTIVE_NODES_KEY (rn_routing n1), rn_currentNode := Some nextNode,
              rn_nodeStartedAt := Some now\<rparr>)
      | F_run_paused p \<Rightarrow>
          (closeDispatchInterval next now)\<lparr>rn_status := pausedStatus p, rn_nodeStartedAt := None\<rparr>
      | F_run_resumed _ _ \<Rightarrow> next\<lparr>rn_status := St_queued, rn_nodeStartedAt := None, rn_readyAt := now\<rparr>
      | F_run_terminated p \<Rightarrow> applyRunTerminated next p now
      | F_run_completed finalNode \<Rightarrow>
          (closeDispatchInterval next now)\<lparr>rn_nodeStartedAt := None, rn_status := St_completed, rn_currentNode := Some finalNode\<rparr>
      | F_run_cancelled _ \<Rightarrow> (closeDispatchInterval next now)\<lparr>rn_nodeStartedAt := None, rn_status := St_cancelled\<rparr>
      | F_run_halted p \<Rightarrow>
          foldHaltSpend p ((closeDispatchInterval next now)\<lparr>rn_nodeStartedAt := None, rn_status := St_halted\<rparr>)
      | F_run_paused_human _ \<Rightarrow>
          (closeDispatchInterval next now)\<lparr>rn_status := St_paused_human, rn_nodeStartedAt := None\<rparr>
      | F_run_quarantined _ _ \<Rightarrow>
          (closeDispatchInterval next now)\<lparr>rn_status := St_quarantined, rn_currentNode := None, rn_nodeStartedAt := None\<rparr>
      | F_run_accepted sha _ _ _ \<Rightarrow> next\<lparr>rn_acceptedSha := Some sha, rn_inboxStatus := Some IB_acted\<rparr>
      | F_run_discarded _ \<Rightarrow> next\<lparr>rn_inboxStatus := Some IB_discarded\<rparr>
      | F_checkout_released \<Rightarrow> next\<lparr>rn_checkoutReleased := True\<rparr>
      | F_run_requeued_after_crash _ lastAliveAt \<Rightarrow>
          (addActiveMs (crashRequeueActiveMsDelta (rn_dispatchStartedAt next) lastAliveAt) next)
            \<lparr>rn_dispatchStartedAt := None, rn_status := St_queued, rn_nodeStartedAt := None, rn_readyAt := now\<rparr>
      | F_snapshot_recorded p \<Rightarrow> applySnapshot next p
      | _ \<Rightarrow> next)"

definition foldFacts :: "RunState \<Rightarrow> FactEvent list \<Rightarrow> number \<Rightarrow> RunState" where
  "foldFacts initial facts now = foldl (\<lambda>state f. applyFact state f now) initial facts"

definition applyUnknownFact :: "RunState \<Rightarrow> number \<Rightarrow> RunState" where
  \<comment> \<open>a \<open>fact.*\<close> type outside the union falls through the switch\<close>
  "applyUnknownFact state now = state\<lparr>rn_updatedAt := now\<rparr>"

section \<open>Genesis and replay\<close>

definition genesisToInitialState :: "ustring \<Rightarrow> RunEnqueuedPayload \<Rightarrow> number \<Rightarrow> RunState" where
  "genesisToInitialState runId payload ts =
     \<lparr>rn_runId = runId, rn_version = 0, rn_status = St_queued, rn_currentNode = None,
      rn_workflowSha = rq_workflowSha payload, rn_contractVersion = rq_contractVersion payload,
      rn_routing = rq_routing payload, rn_metrics = emptyMetrics, rn_nextSeq = 0, rn_lastAppliedSeq = 0,
      rn_priority = orElse (rq_priority payload) 0, rn_enqueuedAt = ts, rn_readyAt = ts,
      rn_nodeStartedAt = None, rn_dispatchStartedAt = None, rn_updatedAt = ts, rn_title = rq_title payload,
      rn_baseGitSha = rq_baseGitSha payload, rn_baseGitRef = rq_baseGitRef payload,
      rn_baseHeadSha = rq_baseHeadSha payload, rn_inCheckout = rq_inCheckout payload, rn_checkoutPath = None,
      rn_checkoutReleased = False, rn_finalGitSha = None, rn_finalHeadRef = None, rn_diffBaseSha = None,
      rn_changeStat = None, rn_inboxStatus = None, rn_acceptedSha = None, rn_cwd = None,
      rn_projectId = rq_projectId payload, rn_projectName = rq_projectName payload,
      rn_workflowName = rq_workflowName payload, rn_workflowScope = rq_workflowScope payload,
      rn_workflowPath = rq_workflowPath payload, rn_scheduleId = rq_scheduleId payload\<rparr>"

datatype (plugins only: code size) LogEntry =
    LE_genesis RunEnqueuedPayload \<comment> \<open>\<open>intent.run_enqueued\<close>\<close>
  | LE_fact FactEvent
  | LE_other ustring \<comment> \<open>any other \<open>type\<close>: an intent, an observability event, a fact of a later version\<close>

record StoredEvent =
  se_seq :: int
  se_entry :: LogEntry
  se_ts :: number

definition isFactEntry :: "LogEntry \<Rightarrow> bool" where
  \<comment> \<open>the negation of \<open>e.type === "intent.run_enqueued" || !e.type.startsWith("fact.")\<close>\<close>
  "isFactEntry en = (case en of LE_genesis _ \<Rightarrow> False | LE_fact _ \<Rightarrow> True | LE_other t \<Rightarrow> startsWith t (U ''fact.''))"

record Replay =
  rp_state :: RunState
  rp_maxSeq :: int
  rp_lastFactSeq :: int

definition replayStep :: "Replay \<Rightarrow> StoredEvent \<Rightarrow> Replay" where
  \<comment> \<open>the body of the replay loop\<close>
  "replayStep r e =
     (let r1 = (if se_seq e > rp_maxSeq r then r\<lparr>rp_maxSeq := se_seq e\<rparr> else r) in
      if \<not> isFactEntry (se_entry e) then r1
      else
        let r2 = r1\<lparr>rp_state := (case se_entry e of
                     LE_fact f \<Rightarrow> applyFact (rp_state r1) f (se_ts e)
                   | _ \<Rightarrow> applyUnknownFact (rp_state r1) (se_ts e))\<rparr>
        in if se_seq e > rp_lastFactSeq r2 then r2\<lparr>rp_lastFactSeq := se_seq e\<rparr> else r2)"

fun findGenesis :: "StoredEvent list \<Rightarrow> (RunEnqueuedPayload \<times> number) option" where
  "findGenesis [] = None"
| "findGenesis (e # es) = (case se_entry e of LE_genesis p \<Rightarrow> Some (p, se_ts e) | _ \<Rightarrow> findGenesis es)"

definition deriveRunState :: "ustring \<Rightarrow> StoredEvent list \<Rightarrow> ustring + RunState" where
  "deriveRunState runId events =
     (case findGenesis events of
        None \<Rightarrow> Inl (U ''deriveRunState: no genesis (intent.run_enqueued) event for '' @ runId)
      | Some (payload, ts) \<Rightarrow>
          let r = foldl replayStep
                \<lparr>rp_state = genesisToInitialState runId payload ts, rp_maxSeq = - 1, rp_lastFactSeq = 0\<rparr> events
          in Inr ((rp_state r)\<lparr>rn_version := rp_lastFactSeq r, rn_nextSeq := rp_maxSeq r + 1,
                   rn_lastAppliedSeq := rp_lastFactSeq r\<rparr>))"

section \<open>Frame lemmas of the helpers\<close>

lemmas helper_defs = closeDispatchInterval_def addActiveMs_def onMetrics_def setFrontier_def foldHaltSpend_def

lemma helper_status [simp]:
  "rn_status (closeDispatchInterval s n) = rn_status s" "rn_status (addActiveMs d s) = rn_status s"
  "rn_status (onMetrics f s) = rn_status s" "rn_status (setFrontier a s) = rn_status s"
  "rn_status (foldHaltSpend p s) = rn_status s"
  by (simp_all add: helper_defs)

lemma helper_dispatch [simp]:
  "rn_dispatchStartedAt (closeDispatchInterval s n) = None" "rn_dispatchStartedAt (addActiveMs d s) = rn_dispatchStartedAt s"
  "rn_dispatchStartedAt (onMetrics f s) = rn_dispatchStartedAt s"
  "rn_dispatchStartedAt (setFrontier a s) = rn_dispatchStartedAt s"
  "rn_dispatchStartedAt (foldHaltSpend p s) = rn_dispatchStartedAt s"
  by (simp_all add: helper_defs)

lemma helper_routing [simp]:
  "rn_routing (closeDispatchInterval s n) = rn_routing s" "rn_routing (addActiveMs d s) = rn_routing s"
  "rn_routing (onMetrics f s) = rn_routing s" "rn_routing (foldHaltSpend p s) = rn_routing s"
  "getFrontier (rn_routing (setFrontier a s)) = Some a"
  by (simp_all add: helper_defs)

lemma helper_currentNode [simp]:
  "rn_currentNode (closeDispatchInterval s n) = rn_currentNode s" "rn_currentNode (addActiveMs d s) = rn_currentNode s"
  "rn_currentNode (onMetrics f s) = rn_currentNode s" "rn_currentNode (setFrontier a s) = rn_currentNode s"
  "rn_currentNode (foldHaltSpend p s) = rn_currentNode s"
  by (simp_all add: helper_defs)

lemma helper_times [simp]:
  "rn_updatedAt (closeDispatchInterval s n) = rn_updatedAt s" "rn_updatedAt (addActiveMs d s) = rn_updatedAt s"
  "rn_updatedAt (onMetrics f s) = rn_updatedAt s" "rn_updatedAt (setFrontier a s) = rn_updatedAt s"
  "rn_updatedAt (foldHaltSpend p s) = rn_updatedAt s"
  "rn_enqueuedAt (closeDispatchInterval s n) = rn_enqueuedAt s" "rn_enqueuedAt (addActiveMs d s) = rn_enqueuedAt s"
  "rn_enqueuedAt (onMetrics f s) = rn_enqueuedAt s" "rn_enqueuedAt (setFrontier a s) = rn_enqueuedAt s"
  "rn_enqueuedAt (foldHaltSpend p s) = rn_enqueuedAt s"
  by (simp_all add: helper_defs)

lemma helper_checkout [simp]:
  "rn_inCheckout (closeDispatchInterval s n) = rn_inCheckout s" "rn_baseGitSha (closeDispatchInterval s n) = rn_baseGitSha s"
  by (simp_all add: helper_defs)

lemma helper_metrics [simp]:
  "rn_metrics (addActiveMs d s) = (rn_metrics s)\<lparr>rm_activeMs := rm_activeMs (rn_metrics s) + d\<rparr>"
  "rn_metrics (onMetrics f s) = f (rn_metrics s)" "rn_metrics (setFrontier a s) = rn_metrics s"
  "rn_metrics (closeDispatchInterval s n)
     = (rn_metrics s)\<lparr>rm_activeMs := rm_activeMs (rn_metrics s) + dispatchIntervalActiveMsDelta (rn_dispatchStartedAt s) n\<rparr>"
  by (simp_all add: helper_defs dispatchIntervalActiveMsDelta_def)

lemma metrics_activeMs [simp]:
  "rm_activeMs (addUsage t c p m) = rm_activeMs m" "rm_activeMs (creditNode n c p m) = rm_activeMs m"
  "rm_activeMs (creditModel mo t c m) = rm_activeMs m" "rm_activeMs (bumpLoop n m) = rm_activeMs m"
  "rm_activeMs (rn_metrics (foldHaltSpend e s)) = rm_activeMs (rn_metrics s)"
  by (simp_all add: addUsage_def creditNode_def creditModel_def bumpLoop_def foldHaltSpend_def Let_def split: option.splits)

section \<open>Spend\<close>

text \<open>The ten totals of the metrics, by name, and what each fact carries for each of them.\<close>

datatype (plugins only: code size) UsageField = UF_billedTokens | UF_totalCostUsd | UF_inputCostUsd | UF_outputCostUsd
  | UF_cacheReadCostUsd | UF_cacheWriteCostUsd | UF_inputTokens | UF_outputTokens | UF_cacheReadTokens | UF_cacheWriteTokens

primrec totalOf :: "UsageField \<Rightarrow> RunMetrics \<Rightarrow> number" where
  "totalOf UF_billedTokens m = rm_billedTokens m"
| "totalOf UF_totalCostUsd m = rm_totalCostUsd m"
| "totalOf UF_inputCostUsd m = rm_totalInputCostUsd m"
| "totalOf UF_outputCostUsd m = rm_totalOutputCostUsd m"
| "totalOf UF_cacheReadCostUsd m = rm_totalCacheReadCostUsd m"
| "totalOf UF_cacheWriteCostUsd m = rm_totalCacheWriteCostUsd m"
| "totalOf UF_inputTokens m = rm_totalInputTokens m"
| "totalOf UF_outputTokens m = rm_totalOutputTokens m"
| "totalOf UF_cacheReadTokens m = rm_totalCacheReadTokens m"
| "totalOf UF_cacheWriteTokens m = rm_totalCacheWriteTokens m"

primrec usageField :: "UsageField \<Rightarrow> number \<Rightarrow> number \<Rightarrow> UsageSplit \<Rightarrow> number" where
  "usageField UF_billedTokens t c p = t"
| "usageField UF_totalCostUsd t c p = c"
| "usageField UF_inputCostUsd t c p = orElse (us_inputCostUsd p) 0"
| "usageField UF_outputCostUsd t c p = orElse (us_outputCostUsd p) 0"
| "usageField UF_cacheReadCostUsd t c p = orElse (us_cacheReadCostUsd p) 0"
| "usageField UF_cacheWriteCostUsd t c p = orElse (us_cacheWriteCostUsd p) 0"
| "usageField UF_inputTokens t c p = orElse (us_inputTokens p) 0"
| "usageField UF_outputTokens t c p = orElse (us_outputTokens p) 0"
| "usageField UF_cacheReadTokens t c p = orElse (us_cacheReadTokens p) 0"
| "usageField UF_cacheWriteTokens t c p = orElse (us_cacheWriteTokens p) 0"

definition haltUsage :: "UsageField \<Rightarrow> RunErrored \<Rightarrow> number" where
  "haltUsage u p = (if re_partialTokens p \<noteq> None \<or> re_partialCostUsd p \<noteq> None
     then usageField u (orElse (re_partialTokens p) 0) (orElse (re_partialCostUsd p) 0) (re_split p) else 0)"

definition factUsage :: "UsageField \<Rightarrow> FactEvent \<Rightarrow> number" where
  "factUsage u f =
     (case f of
        F_node_completed p \<Rightarrow> usageField u (nc_tokens p) (nc_costUsd p) (nc_split p)
      | F_node_aborted p \<Rightarrow> usageField u (ab_partialTokens p) (ab_partialCostUsd p) (ab_split p)
      | F_run_terminated (RT_errored p) \<Rightarrow> haltUsage u p
      | F_run_halted p \<Rightarrow> haltUsage u p
      | _ \<Rightarrow> 0)"

lemma totalOf_addUsage [simp]: "totalOf u (addUsage t c p m) = totalOf u m + usageField u t c p"
  by (cases u) (simp_all add: addUsage_def)

lemma totalOf_others [simp]:
  "totalOf u (creditNode n c p m) = totalOf u m" "totalOf u (creditModel mo t c m) = totalOf u m"
  "totalOf u (bumpLoop n m) = totalOf u m" "totalOf u (m\<lparr>rm_activeMs := a\<rparr>) = totalOf u m"
  by (cases u; simp add: creditNode_def creditModel_def bumpLoop_def Let_def split: option.splits)+

lemma totalOf_halt [simp]: "totalOf u (rn_metrics (foldHaltSpend p s)) = totalOf u (rn_metrics s) + haltUsage u p"
  by (auto simp: foldHaltSpend_def haltUsage_def Let_def split: option.splits)

lemma applyFact_usage: "totalOf u (rn_metrics (applyFact s f now)) = totalOf u (rn_metrics s) + factUsage u f"
  by (cases f)
    (auto simp: applyFact_def factUsage_def Let_def applyDispatchStarted_def applyNodeCompleted_def
      applyNodeAborted_def applyRunTerminated_def applySnapshot_def split: option.splits RunTerminatedPayload.splits)

definition applyTimed :: "RunState \<Rightarrow> FactEvent \<times> number \<Rightarrow> RunState" where
  \<comment> \<open>a fact at its recorded time\<close>
  "applyTimed s ft = applyFact s (fst ft) (snd ft)"

interpretation spend: additive_measure applyTimed "\<lambda>s. totalOf u (rn_metrics s)" "\<lambda>ft. factUsage u (fst ft)" for u
  by unfold_locales (simp add: applyTimed_def applyFact_usage)

lemma foldFacts_total:
  "totalOf u (rn_metrics (foldFacts s fs now)) = totalOf u (rn_metrics s) + sum_list (map (factUsage u) fs)"
proof -
  have "foldFacts s fs now = foldl applyTimed s (map (\<lambda>f. (f, now)) fs)"
    by (simp add: foldFacts_def applyTimed_def foldl_map)
  then show ?thesis using spend.foldl_adds [of u s "map (\<lambda>f. (f, now)) fs"] by (simp add: comp_def)
qed

text \<open>C15: spend is conserved by the reducer: whatever facts are folded, in whatever order, each of the
  ten token and cost totals grows by exactly the sum of what the facts carry for it (node
  completions, aborts and halts; nothing else is charged, and nothing is charged twice).\<close>

theorem foldFacts_spend:
  "totalOf u (rn_metrics (foldFacts s fs now)) = totalOf u (rn_metrics s) + sum_list (map (factUsage u) fs)"
  by (rule foldFacts_total)

section \<open>Legacy facts\<close>

definition releaseUnstarted :: "RunState \<Rightarrow> RunState" where
  \<comment> \<open>the checkout release of a run that ends without a base\<close>
  "releaseUnstarted s = (if rn_inCheckout s \<and> rn_baseGitSha s = None then s\<lparr>rn_checkoutReleased := True\<rparr> else s)"

lemma foldHaltSpend_release:
  "releaseUnstarted (foldHaltSpend p s) = foldHaltSpend p (releaseUnstarted s)"
  by (simp add: releaseUnstarted_def foldHaltSpend_def onMetrics_def)

lemma release_status: "(releaseUnstarted s)\<lparr>rn_status := x\<rparr> = releaseUnstarted (s\<lparr>rn_status := x\<rparr>)"
  "(releaseUnstarted s)\<lparr>rn_currentNode := y\<rparr> = releaseUnstarted (s\<lparr>rn_currentNode := y\<rparr>)"
  by (simp_all add: releaseUnstarted_def)

lemma applyRunTerminated_release:
  "applyRunTerminated next p now =
     releaseUnstarted
       (let n1 = (closeDispatchInterval next now)\<lparr>rn_nodeStartedAt := None\<rparr> in
        case p of
          RT_completed finalNode \<Rightarrow> n1\<lparr>rn_status := St_completed, rn_currentNode := Some finalNode\<rparr>
        | RT_aborted _ \<Rightarrow> n1\<lparr>rn_status := St_cancelled\<rparr>
        | RT_errored e \<Rightarrow> foldHaltSpend e (n1\<lparr>rn_status := St_halted\<rparr>))"
  unfolding applyRunTerminated_def Let_def releaseUnstarted_def [symmetric] release_status
  by (simp add: foldHaltSpend_release split: RunTerminatedPayload.splits)

text \<open>the four legacy facts fold to the state of their unified replacements, whatever the state and
  payload, up to the checkout release that only the unified terminal fact performs (and only for a
  checkout run that never recorded a base, which no legacy log holds).\<close>

theorem legacy_parity:
  "applyFact s (F_run_terminated (RT_completed n)) now = releaseUnstarted (applyFact s (F_run_completed n) now)
   \<and> applyFact s (F_run_terminated (RT_aborted q)) now = releaseUnstarted (applyFact s (F_run_cancelled q) now)
   \<and> applyFact s (F_run_terminated (RT_errored p)) now = releaseUnstarted (applyFact s (F_run_halted p) now)
   \<and> applyFact s (F_run_paused (RP_human h)) now = applyFact s (F_run_paused_human h) now"
  by (simp add: applyFact_def applyRunTerminated_release Let_def pausedStatus_def)

section \<open>Settling\<close>

definition RESTARTING_FACT_TYPES :: "ustring list" where
  \<comment> \<open>the facts that give a settled run a live status again\<close>
  "RESTARTING_FACT_TYPES = [U ''fact.run_started'', U ''fact.node_started'', U ''fact.fanout_started'',
     U ''fact.run_resumed'', U ''fact.run_requeued_after_crash'', U ''fact.run_paused'', U ''fact.run_paused_human'']"

lemma pausedStatus_live: "pausedStatus p \<noteq> St_completed \<and> pausedStatus p \<noteq> St_cancelled
    \<and> pausedStatus p \<noteq> St_halted \<and> pausedStatus p \<noteq> St_quarantined"
  by (simp add: pausedStatus_def split: option.splits)

lemma status_of_parts [simp]:
  "rn_status (applyNodeCompleted s nc now) = rn_status s" "rn_status (applyNodeAborted s ab now) = rn_status s"
  "rn_status (applySnapshot s p) = rn_status s"
  by (simp_all add: applyNodeCompleted_def applyNodeAborted_def applySnapshot_def Let_def split: option.splits)

lemma status_terminated:
  "rn_status (applyRunTerminated s p now)
     = (case p of RT_completed _ \<Rightarrow> St_completed | RT_aborted _ \<Rightarrow> St_cancelled | RT_errored _ \<Rightarrow> St_halted)"
  by (simp add: applyRunTerminated_def Let_def split: RunTerminatedPayload.splits)

lemma status_dispatch:
  "rn_status (applyDispatchStarted s p now) = (if rn_status s = St_queued then St_running else rn_status s)"
  by (simp add: applyDispatchStarted_def Let_def split: option.splits)

text \<open>the status after a fact is settled (terminal or quarantined) exactly when the fact is one of
  \<open>TERMINAL_RUN_FACT_TYPES\<close>, or the run was settled already and the fact is not one that restarts
  it. In particular no other fact ends a run, and every pause leaves it unsettled.\<close>

theorem applyFact_settles:
  "isSettled (rn_status (applyFact s f now)) =
     (factType f \<in> set TERMINAL_RUN_FACT_TYPES
      \<or> (isSettled (rn_status s) \<and> factType f \<notin> set RESTARTING_FACT_TYPES))"
  unfolding TERMINAL_RUN_FACT_TYPES_def set_append terminal_fact_types RESTARTING_FACT_TYPES_def
  by (cases f)
    (simp_all add: applyFact_def Let_def status_terminated status_dispatch pausedStatus_live status_sets
      split: RunTerminatedPayload.splits)

section \<open>Active time\<close>

definition timeInv :: "RunState \<Rightarrow> bool" where
  "timeInv s =
     (rn_enqueuedAt s \<le> rn_updatedAt s \<and> 0 \<le> rm_activeMs (rn_metrics s)
      \<and> (case rn_dispatchStartedAt s of
           None \<Rightarrow> rm_activeMs (rn_metrics s) \<le> rn_updatedAt s - rn_enqueuedAt s
         | Some d \<Rightarrow> rn_enqueuedAt s \<le> d \<and> d \<le> rn_updatedAt s \<and> rm_activeMs (rn_metrics s) \<le> d - rn_enqueuedAt s))"

definition timely :: "RunState \<Rightarrow> FactEvent \<times> number \<Rightarrow> bool" where
  \<comment> \<open>facts are recorded in time order, and a heartbeat precedes the takeover that reports it\<close>
  "timely s ft = (rn_updatedAt s \<le> snd ft
     \<and> (case fst ft of F_run_requeued_after_crash _ (Some l) \<Rightarrow> l \<le> snd ft | _ \<Rightarrow> True))"

lemma time_parts:
  "rn_enqueuedAt (applyFact s f now) = rn_enqueuedAt s" "rn_updatedAt (applyFact s f now) = now"
  by (cases f; simp add: applyFact_def Let_def applyDispatchStarted_def applyNodeCompleted_def applyNodeAborted_def
      applyRunTerminated_def applySnapshot_def split: option.splits RunTerminatedPayload.splits)+

definition closesInterval :: "RunState \<Rightarrow> FactEvent \<Rightarrow> bool" where
  "closesInterval s f =
     (case f of
        F_node_completed p \<Rightarrow> \<not> inFrontier s (nc_nodeId p)
      | F_node_aborted p \<Rightarrow> \<not> inFrontier s (ab_nodeId p)
      | F_fanout_joined _ _ _ _ _ \<Rightarrow> True | F_run_paused _ \<Rightarrow> True | F_run_terminated _ \<Rightarrow> True
      | F_run_completed _ \<Rightarrow> True | F_run_cancelled _ \<Rightarrow> True | F_run_halted _ \<Rightarrow> True
      | F_run_paused_human _ \<Rightarrow> True | F_run_quarantined _ _ \<Rightarrow> True | _ \<Rightarrow> False)"

lemma inFrontier_updatedAt [simp]: "inFrontier (s\<lparr>rn_updatedAt := t\<rparr>) n = inFrontier s n"
  by (simp add: inFrontier_def)

lemma interval_completed:
  "rn_dispatchStartedAt (applyNodeCompleted s p now)
     = (if inFrontier s (nc_nodeId p) then rn_dispatchStartedAt s else None)"
  "rm_activeMs (rn_metrics (applyNodeCompleted s p now)) = rm_activeMs (rn_metrics s)
     + (if inFrontier s (nc_nodeId p) then 0 else dispatchIntervalActiveMsDelta (rn_dispatchStartedAt s) now)"
  by (cases "getFrontier (rn_routing s)"; simp add: applyNodeCompleted_def inFrontier_def Let_def)+

lemma interval_aborted:
  "rn_dispatchStartedAt (applyNodeAborted s p now)
     = (if inFrontier s (ab_nodeId p) then rn_dispatchStartedAt s else None)"
  "rm_activeMs (rn_metrics (applyNodeAborted s p now)) = rm_activeMs (rn_metrics s)
     + (if inFrontier s (ab_nodeId p) then 0 else dispatchIntervalActiveMsDelta (rn_dispatchStartedAt s) now)"
  by (simp_all add: applyNodeAborted_def Let_def)

lemma interval_dispatch:
  "rn_dispatchStartedAt (applyDispatchStarted s p now) = Some (orElse (rn_dispatchStartedAt s) now)"
  "rn_metrics (applyDispatchStarted s p now) = rn_metrics s"
  by (cases "getFrontier (rn_routing s)"; cases "rn_dispatchStartedAt s"; simp add: applyDispatchStarted_def Let_def)+

lemma interval_terminated:
  "rn_dispatchStartedAt (applyRunTerminated s p now) = None"
  "rm_activeMs (rn_metrics (applyRunTerminated s p now)) = rm_activeMs (rn_metrics s)
     + dispatchIntervalActiveMsDelta (rn_dispatchStartedAt s) now"
  by (cases p; simp add: applyRunTerminated_def Let_def)+

lemma interval_snapshot:
  "rn_dispatchStartedAt (applySnapshot s p) = rn_dispatchStartedAt s" "rn_metrics (applySnapshot s p) = rn_metrics s"
  by (simp_all add: applySnapshot_def Let_def)

lemma interval_effect:
  "rn_dispatchStartedAt (applyFact s f now) =
     (case f of
        F_run_started _ \<Rightarrow> Some now
      | F_dispatch_started _ \<Rightarrow> Some (orElse (rn_dispatchStartedAt s) now)
      | F_run_requeued_after_crash _ _ \<Rightarrow> None
      | _ \<Rightarrow> if closesInterval s f then None else rn_dispatchStartedAt s)"
  "rm_activeMs (rn_metrics (applyFact s f now)) = rm_activeMs (rn_metrics s) +
     (case f of
        F_run_requeued_after_crash _ l \<Rightarrow> crashRequeueActiveMsDelta (rn_dispatchStartedAt s) l
      | _ \<Rightarrow> if closesInterval s f then dispatchIntervalActiveMsDelta (rn_dispatchStartedAt s) now else 0)"
  by (cases f; simp add: applyFact_def closesInterval_def Let_def interval_completed interval_aborted
      interval_dispatch interval_terminated interval_snapshot)+

lemma interval_cases:
  fixes s f now
  defines "d \<equiv> rn_dispatchStartedAt s" and "a \<equiv> rm_activeMs (rn_metrics s)"
    and "d' \<equiv> rn_dispatchStartedAt (applyFact s f now)" and "a' \<equiv> rm_activeMs (rn_metrics (applyFact s f now))"
  obtains (opens) "d' = Some now" "a' = a" | (keeps) "d' = d" "a' = a"
    | (closes) "d' = None" "a' = a + dispatchIntervalActiveMsDelta d now"
    | (crashed) p l where "d' = None" "a' = a + crashRequeueActiveMsDelta d l" "f = F_run_requeued_after_crash p l"
proof -
  have "(d' = Some now \<and> a' = a) \<or> (d' = d \<and> a' = a) \<or> (d' = None \<and> a' = a + dispatchIntervalActiveMsDelta d now)
    \<or> (\<exists>p l. d' = None \<and> a' = a + crashRequeueActiveMsDelta d l \<and> f = F_run_requeued_after_crash p l)"
    unfolding d'_def a'_def interval_effect d_def a_def
    by (cases f; simp add: closesInterval_def) (cases "rn_dispatchStartedAt s"; simp)
  then show thesis using opens keeps closes crashed by blast
qed

lemma timeInv_step: "timeInv s \<Longrightarrow> timely s ft \<Longrightarrow> timeInv (applyTimed s ft)"
  unfolding applyTimed_def
  by (rule interval_cases [of s "fst ft" "snd ft"])
    (simp_all add: timeInv_def timely_def time_parts dispatchIntervalActiveMsDelta_def crashRequeueActiveMsDelta_def
      split: option.splits)

interpretation clock: step_invariant applyTimed timeInv timely
  by unfold_locales (rule timeInv_step)

text \<open>C35: active time is honest: folding any facts in time order onto a freshly enqueued run keeps the
  accumulated \<open>activeMs\<close> between zero and the time elapsed since the enqueue, whatever the
  interleaving of dispatches, fan-outs, pauses and crash requeues.\<close>

theorem activeMs_bounded:
  assumes "admissible applyTimed timely (genesisToInitialState runId payload ts) facts"
  shows "let s = foldl applyTimed (genesisToInitialState runId payload ts) facts
         in 0 \<le> rm_activeMs (rn_metrics s) \<and> rm_activeMs (rn_metrics s) \<le> rn_updatedAt s - ts"
proof -
  let ?g = "genesisToInitialState runId payload ts"
  have "timeInv ?g" by (simp add: timeInv_def genesisToInitialState_def emptyMetrics_def)
  then have inv: "timeInv (foldl applyTimed ?g facts)" using assms by (rule clock.foldl_inv)
  have "rn_enqueuedAt (foldl applyTimed s facts) = rn_enqueuedAt s" for s
    by (induction facts arbitrary: s) (simp_all add: applyTimed_def time_parts)
  then have "rn_enqueuedAt (foldl applyTimed ?g facts) = ts" by (simp add: genesisToInitialState_def)
  with inv show ?thesis by (auto simp: timeInv_def Let_def split: option.splits)
qed

definition samplePayload :: RunEnqueuedPayload where
  "samplePayload = \<lparr>rq_workflowSha = U ''w'', rq_priority = None, rq_projectId = U ''p'', rq_projectName = U ''p'',
     rq_routing = [], rq_contractVersion = 7, rq_workflowName = None, rq_workflowScope = None, rq_workflowPath = None,
     rq_scheduleId = None, rq_title = None, rq_baseGitSha = None, rq_baseGitRef = None, rq_baseHeadSha = None,
     rq_inCheckout = False\<rparr>"

theorem activeMs_bounded_witness:
  "let facts = [(F_run_started \<lparr>rs_workflowSha = U ''w'', rs_contractVersion = 7, rs_startNode = U ''a'', rs_baseGitSha = None,
                 rs_baseGitRef = None, rs_baseHeadSha = None\<rparr>, 10),
              (F_run_requeued_after_crash None (Some 14), 20),
              (F_dispatch_started \<lparr>ds_nodeId = U ''a'', ds_iteration = 0, ds_pass = None, ds_resumeOf = RO_crash\<rparr>, 25),
              (F_run_paused (RP_operator (U ''a'')), 30)];
       s = foldl applyTimed (genesisToInitialState (U ''r'') samplePayload 0) facts
   in rm_activeMs (rn_metrics s) = 9 \<and> rm_activeMs (rn_metrics s) \<le> rn_updatedAt s - 0 \<and> rn_updatedAt s = 30"
proof -
  let ?facts = "[(F_run_started \<lparr>rs_workflowSha = U ''w'', rs_contractVersion = 7, rs_startNode = U ''a'', rs_baseGitSha = None,
                 rs_baseGitRef = None, rs_baseHeadSha = None\<rparr>, 10),
              (F_run_requeued_after_crash None (Some 14), 20),
              (F_dispatch_started \<lparr>ds_nodeId = U ''a'', ds_iteration = 0, ds_pass = None, ds_resumeOf = RO_crash\<rparr>, 25),
              (F_run_paused (RP_operator (U ''a'')), 30)] :: (FactEvent \<times> number) list"
  note d = genesisToInitialState_def samplePayload_def emptyMetrics_def applyTimed_def applyFact_def Let_def
    applyDispatchStarted_def getFrontier_def addActiveMs_def closeDispatchInterval_def crashRequeueActiveMsDelta_def
    dispatchIntervalActiveMsDelta_def
  have "admissible applyTimed timely (genesisToInitialState (U ''r'') samplePayload 0) ?facts"
    by (simp add: timely_def d)
  from activeMs_bounded [OF this] show ?thesis by (simp add: d)
qed

section \<open>The fan-out frontier and the run pointer\<close>

text \<open>
  The abstract machine a fan-out region follows: the set of sub-nodes in flight (None outside a
  region) and the node the run stands on. It is what SPEC calls the frontier; the reducer keeps it
  inside the routing object.
\<close>

definition frontierStep :: "ustring list option \<Rightarrow> FactEvent \<Rightarrow> ustring list option" where
  "frontierStep fr f =
     (case f of
        F_fanout_started _ _ _ branches \<Rightarrow> Some branches
      | F_fanout_joined _ _ _ _ _ \<Rightarrow> None
      | F_dispatch_started p \<Rightarrow> map_option (\<lambda>a. if ds_nodeId p \<in> set a then a else a @ [ds_nodeId p]) fr
      | F_node_completed p \<Rightarrow> map_option (filter (\<lambda>n. n \<noteq> nc_nodeId p)) fr
      | _ \<Rightarrow> fr)"

definition pointerStep :: "ustring list option \<Rightarrow> ustring option \<Rightarrow> FactEvent \<Rightarrow> ustring option" where
  "pointerStep fr cur f =
     (case f of
        F_run_started p \<Rightarrow> Some (rs_startNode p)
      | F_node_started n _ _ \<Rightarrow> Some n
      | F_node_completed p \<Rightarrow> if (\<exists>a \<in> set_option fr. nc_nodeId p \<in> set a) then cur else Some (nc_nextNode p)
      | F_fanout_joined _ _ _ nextNode _ \<Rightarrow> Some nextNode
      | F_run_terminated (RT_completed n) \<Rightarrow> Some n
      | F_run_completed n \<Rightarrow> Some n
      | F_run_quarantined _ _ \<Rightarrow> None
      | _ \<Rightarrow> cur)"

definition regionOf :: "RunState \<Rightarrow> ustring list option \<times> ustring option" where
  "regionOf s = (getFrontier (rn_routing s), rn_currentNode s)"

definition regionStep :: "ustring list option \<times> ustring option \<Rightarrow> FactEvent \<Rightarrow> ustring list option \<times> ustring option" where
  "regionStep r f = (frontierStep (fst r) f, pointerStep (fst r) (snd r) f)"

lemma region_parts:
  "regionOf (applyDispatchStarted s p now) = regionStep (regionOf s) (F_dispatch_started p)"
  "regionOf (applyNodeCompleted s q now) = regionStep (regionOf s) (F_node_completed q)"
  "regionOf (applyNodeAborted s a now) = regionOf s"
  "regionOf (applyRunTerminated s t now) = regionStep (regionOf s) (F_run_terminated t)"
  "regionOf (applySnapshot s r) = regionOf s"
proof -
  show "regionOf (applyDispatchStarted s p now) = regionStep (regionOf s) (F_dispatch_started p)"
    by (cases "getFrontier (rn_routing s)")
      (simp_all add: applyDispatchStarted_def Let_def regionOf_def regionStep_def frontierStep_def pointerStep_def)
  have filter_absent: "n \<notin> set a \<Longrightarrow> filter (\<lambda>m. m \<noteq> n) a = a" for n :: ustring and a
    by (induction a) auto
  then show "regionOf (applyNodeCompleted s q now) = regionStep (regionOf s) (F_node_completed q)"
    by (cases "getFrontier (rn_routing s)")
      (simp_all add: applyNodeCompleted_def Let_def regionOf_def regionStep_def frontierStep_def pointerStep_def inFrontier_def)
  show "regionOf (applyNodeAborted s a now) = regionOf s"
    by (simp add: applyNodeAborted_def Let_def regionOf_def)
  show "regionOf (applyRunTerminated s t now) = regionStep (regionOf s) (F_run_terminated t)"
    by (cases t) (simp_all add: applyRunTerminated_def Let_def regionOf_def regionStep_def frontierStep_def pointerStep_def)
  show "regionOf (applySnapshot s r) = regionOf s"
    by (simp add: applySnapshot_def Let_def regionOf_def)
qed

lemma regionOf_updatedAt [simp]: "regionOf (s\<lparr>rn_updatedAt := t\<rparr>) = regionOf s"
  by (simp add: regionOf_def)

lemma region_step: "regionOf (applyFact s f now) = regionStep (regionOf s) f"
  by (cases f)
    (simp_all add: applyFact_def Let_def region_parts,
     simp_all add: regionOf_def regionStep_def frontierStep_def pointerStep_def)

lemma fold_region: "regionOf (foldFacts s fs now) = foldl regionStep (regionOf s) fs"
  by (induction fs arbitrary: s) (simp_all add: foldFacts_def region_step)

text \<open>C22: the reducer implements the frontier machine: over any facts, the frontier read back from
  routing and the run pointer are what the abstract machine computes. So inside a fan-out region a
  completed branch leaves the frontier and never moves the pointer, a dispatched successor joins the
  frontier once, and only the join closes the region and advances the pointer.\<close>

theorem frontier_refinement: "regionOf (foldFacts s fs now) = foldl regionStep (regionOf s) fs"
  by (rule fold_region)

section \<open>Replay\<close>

definition bookkeep :: "int \<Rightarrow> int \<Rightarrow> RunState \<Rightarrow> RunState" where
  \<comment> \<open>the sequence bookkeeping of the write path\<close>
  "bookkeep maxSeq lastFactSeq s = s\<lparr>rn_version := lastFactSeq, rn_nextSeq := maxSeq + 1, rn_lastAppliedSeq := lastFactSeq\<rparr>"

lemma bookkeep_reads [simp]:
  "rn_status (bookkeep m l s) = rn_status s" "rn_routing (bookkeep m l s) = rn_routing s"
  "rn_metrics (bookkeep m l s) = rn_metrics s" "rn_dispatchStartedAt (bookkeep m l s) = rn_dispatchStartedAt s"
  "rn_inCheckout (bookkeep m l s) = rn_inCheckout s" "rn_baseGitSha (bookkeep m l s) = rn_baseGitSha s"
  "rn_baseGitRef (bookkeep m l s) = rn_baseGitRef s" "rn_baseHeadSha (bookkeep m l s) = rn_baseHeadSha s"
  "inFrontier (bookkeep m l s) n = inFrontier s n"
  by (simp_all add: bookkeep_def inFrontier_def)

lemma bookkeep_writes:
  "(bookkeep m l s)\<lparr>rn_status := x1\<rparr> = bookkeep m l (s\<lparr>rn_status := x1\<rparr>)"
  "(bookkeep m l s)\<lparr>rn_currentNode := x2\<rparr> = bookkeep m l (s\<lparr>rn_currentNode := x2\<rparr>)"
  "(bookkeep m l s)\<lparr>rn_routing := x3\<rparr> = bookkeep m l (s\<lparr>rn_routing := x3\<rparr>)"
  "(bookkeep m l s)\<lparr>rn_metrics := x4\<rparr> = bookkeep m l (s\<lparr>rn_metrics := x4\<rparr>)"
  "(bookkeep m l s)\<lparr>rn_readyAt := x5\<rparr> = bookkeep m l (s\<lparr>rn_readyAt := x5\<rparr>)"
  "(bookkeep m l s)\<lparr>rn_nodeStartedAt := x6\<rparr> = bookkeep m l (s\<lparr>rn_nodeStartedAt := x6\<rparr>)"
  "(bookkeep m l s)\<lparr>rn_dispatchStartedAt := x6\<rparr> = bookkeep m l (s\<lparr>rn_dispatchStartedAt := x6\<rparr>)"
  "(bookkeep m l s)\<lparr>rn_updatedAt := x5\<rparr> = bookkeep m l (s\<lparr>rn_updatedAt := x5\<rparr>)"
  "(bookkeep m l s)\<lparr>rn_baseGitSha := x2\<rparr> = bookkeep m l (s\<lparr>rn_baseGitSha := x2\<rparr>)"
  "(bookkeep m l s)\<lparr>rn_baseGitRef := x2\<rparr> = bookkeep m l (s\<lparr>rn_baseGitRef := x2\<rparr>)"
  "(bookkeep m l s)\<lparr>rn_baseHeadSha := x2\<rparr> = bookkeep m l (s\<lparr>rn_baseHeadSha := x2\<rparr>)"
  "(bookkeep m l s)\<lparr>rn_checkoutReleased := x7\<rparr> = bookkeep m l (s\<lparr>rn_checkoutReleased := x7\<rparr>)"
  "(bookkeep m l s)\<lparr>rn_finalGitSha := x2\<rparr> = bookkeep m l (s\<lparr>rn_finalGitSha := x2\<rparr>)"
  "(bookkeep m l s)\<lparr>rn_finalHeadRef := x2\<rparr> = bookkeep m l (s\<lparr>rn_finalHeadRef := x2\<rparr>)"
  "(bookkeep m l s)\<lparr>rn_diffBaseSha := x2\<rparr> = bookkeep m l (s\<lparr>rn_diffBaseSha := x2\<rparr>)"
  "(bookkeep m l s)\<lparr>rn_changeStat := x8\<rparr> = bookkeep m l (s\<lparr>rn_changeStat := x8\<rparr>)"
  "(bookkeep m l s)\<lparr>rn_inboxStatus := x9\<rparr> = bookkeep m l (s\<lparr>rn_inboxStatus := x9\<rparr>)"
  "(bookkeep m l s)\<lparr>rn_acceptedSha := x2\<rparr> = bookkeep m l (s\<lparr>rn_acceptedSha := x2\<rparr>)"
  by (simp_all add: bookkeep_def)

lemma bookkeep_helpers:
  "addActiveMs d (bookkeep m l s) = bookkeep m l (addActiveMs d s)"
  "closeDispatchInterval (bookkeep m l s) n = bookkeep m l (closeDispatchInterval s n)"
  "onMetrics f (bookkeep m l s) = bookkeep m l (onMetrics f s)"
  "setFrontier a (bookkeep m l s) = bookkeep m l (setFrontier a s)"
  "foldHaltSpend p (bookkeep m l s) = bookkeep m l (foldHaltSpend p s)"
  "releaseUnstarted (bookkeep m l s) = bookkeep m l (releaseUnstarted s)"
  by (simp_all add: helper_defs releaseUnstarted_def bookkeep_writes)

lemmas bookkeep_simps = bookkeep_writes bookkeep_helpers

lemma bookkeep_parts:
  "applyDispatchStarted (bookkeep m l s) p now = bookkeep m l (applyDispatchStarted s p now)"
  "applyNodeCompleted (bookkeep m l s) q now = bookkeep m l (applyNodeCompleted s q now)"
  "applyNodeAborted (bookkeep m l s) a now = bookkeep m l (applyNodeAborted s a now)"
  "applyRunTerminated (bookkeep m l s) t now = bookkeep m l (applyRunTerminated s t now)"
  "applySnapshot (bookkeep m l s) r = bookkeep m l (applySnapshot s r)"
proof -
  show "applyDispatchStarted (bookkeep m l s) p now = bookkeep m l (applyDispatchStarted s p now)"
    by (cases "getFrontier (rn_routing s)") (simp_all add: applyDispatchStarted_def Let_def bookkeep_simps)
  show "applyNodeCompleted (bookkeep m l s) q now = bookkeep m l (applyNodeCompleted s q now)"
    by (cases "getFrontier (rn_routing s)") (simp_all add: applyNodeCompleted_def Let_def bookkeep_simps)
  show "applyNodeAborted (bookkeep m l s) a now = bookkeep m l (applyNodeAborted s a now)"
    by (simp add: applyNodeAborted_def Let_def bookkeep_simps)
  show "applyRunTerminated (bookkeep m l s) t now = bookkeep m l (applyRunTerminated s t now)"
    by (cases t) (simp_all add: applyRunTerminated_release Let_def bookkeep_simps)
  show "applySnapshot (bookkeep m l s) r = bookkeep m l (applySnapshot s r)"
    by (simp add: applySnapshot_def Let_def bookkeep_simps)
qed

lemma bookkeep_applyFact: "applyFact (bookkeep m l s) f now = bookkeep m l (applyFact s f now)"
  by (cases f) (simp_all add: applyFact_def Let_def bookkeep_parts bookkeep_simps)

lemma bookkeep_twice [simp]: "bookkeep m l (bookkeep m' l' s) = bookkeep m l s"
  by (simp add: bookkeep_def)

definition replay :: "ustring \<Rightarrow> RunEnqueuedPayload \<Rightarrow> number \<Rightarrow> StoredEvent list \<Rightarrow> Replay" where
  "replay runId payload ts events =
     foldl replayStep \<lparr>rp_state = genesisToInitialState runId payload ts, rp_maxSeq = - 1, rp_lastFactSeq = 0\<rparr> events"

lemma deriveRunState_eq:
  "deriveRunState runId events =
     (case findGenesis events of
        None \<Rightarrow> Inl (U ''deriveRunState: no genesis (intent.run_enqueued) event for '' @ runId)
      | Some (payload, ts) \<Rightarrow>
          Inr (let r = replay runId payload ts events in bookkeep (rp_maxSeq r) (rp_lastFactSeq r) (rp_state r)))"
  by (simp add: deriveRunState_def replay_def bookkeep_def Let_def split: option.splits)

lemma findGenesis_append: "findGenesis es = Some g \<Longrightarrow> findGenesis (es @ es') = Some g"
  by (induction es) (auto split: LogEntry.splits)

text \<open>C30: replaying a log agrees with the live path: when a log derives the state \<open>s\<close> and one more fact
  is appended, with a sequence number beyond the log's, the longer log derives exactly what applying
  the fact to \<open>s\<close> gives, with the version and the applied watermark at the new sequence number and
  the next free one after it.\<close>

theorem replay_agrees_with_append:
  assumes "deriveRunState runId events = Inr s" "rn_nextSeq s \<le> n"
  shows "deriveRunState runId (events @ [\<lparr>se_seq = n, se_entry = LE_fact f, se_ts = ts\<rparr>])
    = Inr ((applyFact s f ts)\<lparr>rn_version := max (rn_version s) n, rn_nextSeq := n + 1,
        rn_lastAppliedSeq := max (rn_version s) n\<rparr>)"
proof -
  obtain payload ts0 where g: "findGenesis events = Some (payload, ts0)"
    using assms(1) by (auto simp: deriveRunState_eq split: option.splits)
  define r where "r = replay runId payload ts0 events"
  have s: "s = bookkeep (rp_maxSeq r) (rp_lastFactSeq r) (rp_state r)"
    using assms(1) by (simp add: deriveRunState_eq g r_def Let_def)
  then have seqs: "rn_version s = rp_lastFactSeq r" "rn_nextSeq s = rp_maxSeq r + 1" by (simp_all add: bookkeep_def)
  have "replay runId payload ts0 (events @ [\<lparr>se_seq = n, se_entry = LE_fact f, se_ts = ts\<rparr>])
      = \<lparr>rp_state = applyFact (rp_state r) f ts, rp_maxSeq = n, rp_lastFactSeq = max (rp_lastFactSeq r) n\<rparr>"
    using assms(2) seqs by (cases r) (auto simp: replay_def r_def replayStep_def isFactEntry_def Let_def max_def)
  then show ?thesis
    using findGenesis_append [OF g] seqs
    by (simp add: deriveRunState_eq Let_def) (simp add: s bookkeep_applyFact, simp add: bookkeep_def)
qed

definition sampleLog :: "StoredEvent list" where
  "sampleLog = [\<lparr>se_seq = 0, se_entry = LE_genesis samplePayload, se_ts = 5\<rparr>,
     \<lparr>se_seq = 1, se_entry = LE_other (U ''agent.info''), se_ts = 6\<rparr>]"

theorem replay_agrees_with_append_witness:
  "deriveRunState (U ''r'') (sampleLog @ [\<lparr>se_seq = 2, se_entry = LE_fact (F_run_resumed St_paused None), se_ts = 9\<rparr>])
     = Inr ((genesisToInitialState (U ''r'') samplePayload 5)\<lparr>rn_updatedAt := 9, rn_readyAt := 9,
         rn_version := 2, rn_nextSeq := 3, rn_lastAppliedSeq := 2\<rparr>)"
proof -
  let ?s = "(genesisToInitialState (U ''r'') samplePayload 5)\<lparr>rn_version := 0, rn_nextSeq := 2, rn_lastAppliedSeq := 0\<rparr>"
  have d: "deriveRunState (U ''r'') sampleLog = Inr ?s"
    by (simp add: deriveRunState_def sampleLog_def replayStep_def isFactEntry_def ustr)
  have n: "rn_nextSeq ?s \<le> 2" by simp
  show ?thesis using replay_agrees_with_append [OF d n, of "F_run_resumed St_paused None" 9]
    by (simp add: applyFact_def genesisToInitialState_def)
qed

end
