(* ===== verification/Result_To_Facts.thy ===== *)
theory Result_To_Facts
  imports Reducers
begin

text \<open>
  What a handler returns (\<open>HandlerResult\<close>, \<open>packages/core/src/handler/types.ts\<close>), the per-dispatch
  usage accumulator (\<open>makeUsageAccumulator\<close>, \<open>packages/daemon/src/executor-helpers.ts\<close>), and the
  translation of a result into the batch of facts the executor commits
  (\<open>packages/daemon/src/result-to-facts.ts\<close>), with the two functions that split a batch into its
  spend and its disposition.

  The theorems say what each result charges, that every batch ends in exactly one disposition, and
  that splitting a batch neither loses nor doubles spend.
\<close>

section \<open>Handler results\<close>

record TransitionResult =
  tr_nextNode :: "ustring option"
  tr_outcomeStatus :: "OutcomeStatus option"
  tr_route :: "ustring option"
  tr_failureReason :: "ustring option"
  tr_tokens :: number
  tr_costUsd :: number
  tr_split :: UsageSplit
  tr_modelName :: "ustring option"
  tr_outputs :: "jsobj option"
  tr_operatorNote :: "ustring option"

record YieldHumanResult =
  yh_text :: ustring
  yh_routes :: "ustring list"
  yh_routeLabels :: "(ustring \<times> ustring) list option"

datatype (plugins only: code size) HandlerHaltReason = HH_budget | HH_max_loops | HH_error
  | HH_goal_gate_unsatisfied | HH_max_retries_exceeded | HH_route_not_picked
  | HH_route_call_not_isolated | HH_edge_no_match

record PauseContext =
  pc_currentLimit :: "number option"
  pc_attempts :: "number option"

record HaltResult =
  ht_reason :: HandlerHaltReason
  ht_detail :: "ustring option"
  ht_pauseContext :: "PauseContext option"

record PauseProviderResult =
  pv_httpStatus :: "number option"
  pv_provider :: ustring
  pv_errorMessage :: ustring
  pv_retryAfterMs :: "number option"

datatype (plugins only: code size) HandlerResult =
    H_transition TransitionResult
  | H_yield_human YieldHumanResult
  | H_halt HaltResult
  | H_pause_provider PauseProviderResult

section \<open>Usage of a dispatch\<close>

record HaltUsage =
  hu_turnBilled :: number
  hu_totalCostUsd :: number
  hu_totalInputTokens :: number
  hu_totalOutputTokens :: number
  hu_totalCacheReadTokens :: number
  hu_totalCacheWriteTokens :: number
  hu_totalInputCostUsd :: "number option"
  hu_totalOutputCostUsd :: "number option"
  hu_totalCacheReadCostUsd :: "number option"
  hu_totalCacheWriteCostUsd :: "number option"

record TurnAccounting =
  ta_usage :: HaltUsage
  ta_lastModel :: "ustring option"

definition noUsage :: HaltUsage where
  "noUsage = \<lparr>hu_turnBilled = 0, hu_totalCostUsd = 0, hu_totalInputTokens = 0, hu_totalOutputTokens = 0,
     hu_totalCacheReadTokens = 0, hu_totalCacheWriteTokens = 0, hu_totalInputCostUsd = Some 0,
     hu_totalOutputCostUsd = Some 0, hu_totalCacheReadCostUsd = Some 0, hu_totalCacheWriteCostUsd = Some 0\<rparr>"

definition initialTotals :: TurnAccounting where
  \<comment> \<open>the totals \<open>makeUsageAccumulator\<close> starts from\<close>
  "initialTotals = \<lparr>ta_usage = noUsage, ta_lastModel = None\<rparr>"

record LlmUsage =
  \<comment> \<open>the argument of \<open>addUsage\<close>\<close>
  lu_tokens :: number
  lu_costUsd :: number
  lu_model :: ustring
  lu_inputTokens :: "number option"
  lu_outputTokens :: "number option"
  lu_cacheReadTokens :: "number option"
  lu_cacheWriteTokens :: "number option"

definition accountUsage :: "TurnAccounting \<Rightarrow> LlmUsage \<Rightarrow> TurnAccounting" where
  \<comment> \<open>\<open>accounting.addUsage\<close>\<close>
  "accountUsage t p =
     (let h = ta_usage t in
      t\<lparr>ta_usage := h\<lparr>hu_turnBilled := hu_turnBilled h + lu_tokens p,
          hu_totalCostUsd := hu_totalCostUsd h + lu_costUsd p,
          hu_totalInputTokens := hu_totalInputTokens h + orElse (lu_inputTokens p) 0,
          hu_totalOutputTokens := hu_totalOutputTokens h + orElse (lu_outputTokens p) 0,
          hu_totalCacheReadTokens := hu_totalCacheReadTokens h + orElse (lu_cacheReadTokens p) 0,
          hu_totalCacheWriteTokens := hu_totalCacheWriteTokens h + orElse (lu_cacheWriteTokens p) 0\<rparr>,
        ta_lastModel := Some (lu_model p)\<rparr>)"

definition readNumber :: "jsval option \<Rightarrow> number" where
  "readNumber v = (case v of Some (JNum (Fin r)) \<Rightarrow> r | _ \<Rightarrow> 0)"

definition addCost :: "number option \<Rightarrow> number \<Rightarrow> number option" where
  \<comment> \<open>\<open>+=\<close> on a bucket that the accumulator always holds\<close>
  "addCost c x = Some (orElse c 0 + x)"

definition mirrorCostRecorded :: "TurnAccounting \<Rightarrow> jsobj \<Rightarrow> TurnAccounting" where
  "mirrorCostRecorded t p =
     (let h = ta_usage t; n = (\<lambda>k. readNumber (obj_get p (U k))) in
      t\<lparr>ta_usage := h\<lparr>hu_turnBilled := hu_turnBilled h + n ''total_tokens'',
          hu_totalCostUsd := hu_totalCostUsd h + n ''cost_usd'',
          hu_totalInputTokens := hu_totalInputTokens h + n ''input_tokens'',
          hu_totalOutputTokens := hu_totalOutputTokens h + n ''output_tokens'',
          hu_totalCacheReadTokens := hu_totalCacheReadTokens h + n ''cache_read_tokens'',
          hu_totalCacheWriteTokens := hu_totalCacheWriteTokens h + n ''cache_write_tokens'',
          hu_totalInputCostUsd := addCost (hu_totalInputCostUsd h) (n ''cost_input_usd''),
          hu_totalOutputCostUsd := addCost (hu_totalOutputCostUsd h) (n ''cost_output_usd''),
          hu_totalCacheReadCostUsd := addCost (hu_totalCacheReadCostUsd h) (n ''cost_cache_read_usd''),
          hu_totalCacheWriteCostUsd := addCost (hu_totalCacheWriteCostUsd h) (n ''cost_cache_write_usd'')\<rparr>,
        ta_lastModel := (case obj_get p (U ''model'') of Some (JStr m) \<Rightarrow> Some m | _ \<Rightarrow> ta_lastModel t)\<rparr>)"

section \<open>Facts of a result\<close>

definition passField :: "number \<Rightarrow> number option" where
  "passField pass = (if pass > 0 then Some pass else None)"

definition maxLoopsPause :: "number \<Rightarrow> number \<Rightarrow> FactEvent" where
  "maxLoopsPause currentLimit dispatches = F_run_paused (RP_max_loops currentLimit dispatches)"

record ResultContext =
  rc_state :: RunState
  rc_appliedIntentSeqs :: "int list"
  rc_cancelIntentSeq :: "int option"
  rc_usage :: "HaltUsage option"

definition currentNodeOf :: "RunState \<Rightarrow> ustring" where
  \<comment> \<open>\<open>state.currentNode ?? ""\<close>\<close>
  "currentNodeOf s = orElse (rn_currentNode s) []"

definition nodeRetryCount :: "jsobj \<Rightarrow> ustring \<Rightarrow> number" where
  "nodeRetryCount routing nodeId = rv_count (getRetry routing) nodeId"

definition isTerminalNode :: "ustring \<Rightarrow> bool" where
  "isTerminalNode nodeId = isTerminalNextNode nodeId None"

definition positiveSplit :: "UsageSplit \<Rightarrow> UsageSplit" where
  \<comment> \<open>each optional bucket is written only when it is above zero\<close>
  "positiveSplit p =
     \<lparr>us_inputTokens = pos_only (us_inputTokens p), us_outputTokens = pos_only (us_outputTokens p),
      us_cacheReadTokens = pos_only (us_cacheReadTokens p), us_cacheWriteTokens = pos_only (us_cacheWriteTokens p),
      us_inputCostUsd = pos_only (us_inputCostUsd p), us_outputCostUsd = pos_only (us_outputCostUsd p),
      us_cacheReadCostUsd = pos_only (us_cacheReadCostUsd p), us_cacheWriteCostUsd = pos_only (us_cacheWriteCostUsd p)\<rparr>"

definition usageSplit :: "HaltUsage \<Rightarrow> UsageSplit" where
  "usageSplit h =
     \<lparr>us_inputTokens = Some (hu_totalInputTokens h), us_outputTokens = Some (hu_totalOutputTokens h),
      us_cacheReadTokens = Some (hu_totalCacheReadTokens h), us_cacheWriteTokens = Some (hu_totalCacheWriteTokens h),
      us_inputCostUsd = hu_totalInputCostUsd h, us_outputCostUsd = hu_totalOutputCostUsd h,
      us_cacheReadCostUsd = hu_totalCacheReadCostUsd h, us_cacheWriteCostUsd = hu_totalCacheWriteCostUsd h\<rparr>"

definition exitSpendFacts :: "ustring \<Rightarrow> number \<Rightarrow> ustring \<Rightarrow> HaltUsage \<Rightarrow> number \<Rightarrow> FactEvent list" where
  "exitSpendFacts nodeId iteration cause partial pass =
     [F_node_aborted \<lparr>ab_nodeId = nodeId, ab_iteration = iteration, ab_pass = passField pass, ab_cause = cause,
        ab_partialTokens = hu_turnBilled partial, ab_partialCostUsd = hu_totalCostUsd partial,
        ab_split = positiveSplit (usageSplit partial)\<rparr>]"

definition clipFactText :: "ustring \<Rightarrow> ustring" where
  \<comment> \<open>\<open>clipPayloadText(s)\<close> at its default budget\<close>
  "clipFactText s = clipPayloadText s FACT_TEXT_MAX_BYTES"

definition bareHalt :: "HaltReason \<Rightarrow> ustring option \<Rightarrow> RunErrored" where
  "bareHalt reason detail =
     \<lparr>re_reason = reason, re_detail = detail, re_nodeId = None, re_partialTokens = None, re_partialCostUsd = None,
      re_split = emptySplit, re_occContext = None\<rparr>"

definition transitionToFacts :: "TransitionResult \<Rightarrow> ResultContext \<Rightarrow> FactEvent list" where
  "transitionToFacts result ctx =
     (let state = rc_state ctx;
          nextNode = orElse (tr_nextNode result) (U ''__end__'');
          pass = readGoalGateRetries (rn_routing state);
          payload = \<lparr>nc_nodeId = currentNodeOf state,
            nc_iteration = nodeRetryCount (rn_routing state) (currentNodeOf state), nc_pass = passField pass,
            nc_tokens = tr_tokens result, nc_costUsd = tr_costUsd result, nc_split = positiveSplit (tr_split result),
            nc_modelName = tr_modelName result, nc_nextNode = nextNode, nc_outcomeStatus = tr_outcomeStatus result,
            nc_route = truthy_str (tr_route result), nc_outputs = tr_outputs result\<rparr>
      in F_node_completed payload #
         (if isTerminalNode nextNode then
            (if nextNode = U ''__end__'' \<and> tr_outcomeStatus result = Some OS_fail then
               (let detail = (case truthy_str (tr_failureReason result) of
                      Some r \<Rightarrow> clipFactText r
                    | None \<Rightarrow> U ''node '' @ orElse (rn_currentNode state) (U ''?'') @ U '' failed with no fail route'')
                in [F_run_terminated (RT_errored (bareHalt HR_aborted_exit (Some detail)))])
             else [F_run_terminated (RT_completed nextNode)])
          else [F_node_started nextNode (nodeRetryCount (rn_routing state) nextNode) (passField pass)]))"

definition yieldHumanToFacts :: "YieldHumanResult \<Rightarrow> ResultContext \<Rightarrow> FactEvent list" where
  "yieldHumanToFacts result ctx =
     [F_run_paused (RP_human \<lparr>hp_nodeId = currentNodeOf (rc_state ctx), hp_text = yh_text result,
        hp_routes = yh_routes result, hp_routeLabels = yh_routeLabels result, hp_snapshot = None\<rparr>)]"

definition spends :: "number \<Rightarrow> number \<Rightarrow> bool" where
  "spends tokens costUsd = (tokens > 0 \<or> costUsd > 0)"

definition terminalHalt :: "HaltReason \<Rightarrow> HaltResult \<Rightarrow> ResultContext \<Rightarrow> FactEvent list" where
  \<comment> \<open>the tail of \<open>haltToFacts\<close>, below the three pause translations\<close>
  "terminalHalt reason result ctx =
     (let payload = bareHalt reason (map_option clipFactText (ht_detail result))
      in [F_run_terminated (RT_errored
           (case rc_usage ctx of
              None \<Rightarrow> payload
            | Some usage \<Rightarrow>
                if spends (hu_turnBilled usage) (hu_totalCostUsd usage) then
                  payload\<lparr>re_nodeId := Some (currentNodeOf (rc_state ctx)), re_partialTokens := Some (hu_turnBilled usage),
                    re_partialCostUsd := Some (hu_totalCostUsd usage), re_split := positiveSplit (usageSplit usage)\<rparr>
                else payload))])"

definition haltToFacts :: "HaltResult \<Rightarrow> ResultContext \<Rightarrow> FactEvent list" where
  "haltToFacts result ctx =
     (let nodeId = currentNodeOf (rc_state ctx);
          ctxCurrentLimit = orElse (Option.bind (ht_pauseContext result) pc_currentLimit) 0;
          ctxAttempts = orElse (Option.bind (ht_pauseContext result) pc_attempts) 0
      in case ht_reason result of
           HH_max_retries_exceeded \<Rightarrow> [F_run_paused (RP_max_retries nodeId ctxCurrentLimit ctxAttempts)]
         | HH_goal_gate_unsatisfied \<Rightarrow>
             [F_run_paused (RP_goal_gate (orElse (truthy_str (ht_detail result)) nodeId) ctxCurrentLimit)]
         | HH_max_loops \<Rightarrow> [maxLoopsPause ctxCurrentLimit ctxAttempts]
         | HH_budget \<Rightarrow> terminalHalt HR_budget result ctx
         | HH_error \<Rightarrow> terminalHalt HR_error result ctx
         | HH_route_not_picked \<Rightarrow> terminalHalt HR_route_not_picked result ctx
         | HH_route_call_not_isolated \<Rightarrow> terminalHalt HR_route_call_not_isolated result ctx
         | HH_edge_no_match \<Rightarrow> terminalHalt HR_edge_no_match result ctx)"

definition pauseProviderToFacts :: "PauseProviderResult \<Rightarrow> ResultContext \<Rightarrow> FactEvent list" where
  "pauseProviderToFacts result ctx =
     (let nodeId = currentNodeOf (rc_state ctx); routing = rn_routing (rc_state ctx);
          facts = (case rc_usage ctx of
                     Some usage \<Rightarrow> exitSpendFacts nodeId (nodeRetryCount routing nodeId) (U ''provider_pause'') usage
                                    (readGoalGateRetries routing)
                   | None \<Rightarrow> [])
      in if pv_httpStatus result = Some 402 then
           facts @ [F_run_paused (RP_payment_required nodeId (pv_provider result) (clipFactText (pv_errorMessage result)))]
         else
           facts @ [F_run_paused (RP_provider_error nodeId (pv_httpStatus result) (pv_provider result)
                      (clipFactText (pv_errorMessage result)) None None)])"

definition joinSeqs :: "int list \<Rightarrow> ustring" where
  "joinSeqs seqs = ujoin (U '','') (map (\<lambda>q. numberToString (of_int q)) seqs)"

definition resultToFacts :: "HandlerResult \<Rightarrow> ResultContext \<Rightarrow> FactEvent list" where
  "resultToFacts result ctx =
     map (\<lambda>q. F_intents_folded q (joinSeqs (rc_appliedIntentSeqs ctx))) (rc_appliedIntentSeqs ctx)
     @ (case result of
          H_transition r \<Rightarrow> transitionToFacts r ctx
        | H_yield_human r \<Rightarrow> yieldHumanToFacts r ctx
        | H_halt r \<Rightarrow> haltToFacts r ctx
        | H_pause_provider r \<Rightarrow> pauseProviderToFacts r ctx)"

definition cancelToFacts :: "int \<Rightarrow> FactEvent list" where
  "cancelToFacts intentSeq = [F_run_terminated (RT_aborted intentSeq)]"

section \<open>Splitting a batch into spend and disposition\<close>

definition partialSpendOf :: "FactEvent \<Rightarrow> RunErrored option" where
  "partialSpendOf fct =
     (case fct of F_run_halted p \<Rightarrow> Some p | F_run_terminated (RT_errored p) \<Rightarrow> Some p | _ \<Rightarrow> None)"

definition hasSpend :: "HaltUsage \<Rightarrow> bool" where
  "hasSpend usage = spends (hu_turnBilled usage) (hu_totalCostUsd usage)"

definition usageOf :: "number \<Rightarrow> number \<Rightarrow> UsageSplit \<Rightarrow> HaltUsage" where
  \<comment> \<open>the \<open>HaltUsage\<close> literal both conversions build\<close>
  "usageOf tokens costUsd p =
     \<lparr>hu_turnBilled = tokens, hu_totalCostUsd = costUsd,
      hu_totalInputTokens = orElse (us_inputTokens p) 0, hu_totalOutputTokens = orElse (us_outputTokens p) 0,
      hu_totalCacheReadTokens = orElse (us_cacheReadTokens p) 0, hu_totalCacheWriteTokens = orElse (us_cacheWriteTokens p) 0,
      hu_totalInputCostUsd = Some (orElse (us_inputCostUsd p) 0), hu_totalOutputCostUsd = Some (orElse (us_outputCostUsd p) 0),
      hu_totalCacheReadCostUsd = Some (orElse (us_cacheReadCostUsd p) 0),
      hu_totalCacheWriteCostUsd = Some (orElse (us_cacheWriteCostUsd p) 0)\<rparr>"

definition spendFactsOf :: "ustring \<Rightarrow> number \<times> number \<Rightarrow> FactEvent \<Rightarrow> FactEvent list" where
  \<comment> \<open>the body of the loop of \<open>spendFactsFor\<close>; \<open>pos\<close> is the source's \<open>at\<close>, the pair of iteration and pass\<close>
  "spendFactsOf cause pos f =
     (case f of
        F_node_aborted p \<Rightarrow> if spends (ab_partialTokens p) (ab_partialCostUsd p) then [f] else []
      | F_node_completed p \<Rightarrow>
          (let usage = usageOf (nc_tokens p) (nc_costUsd p) (nc_split p) in
           if hasSpend usage then exitSpendFacts (nc_nodeId p) (nc_iteration p) cause usage (orElse (nc_pass p) 0) else [])
      | _ \<Rightarrow>
          (case partialSpendOf f of
             None \<Rightarrow> []
           | Some p \<Rightarrow>
               let usage = usageOf (orElse (re_partialTokens p) 0) (orElse (re_partialCostUsd p) 0) (re_split p) in
               if hasSpend usage then exitSpendFacts (orElse (re_nodeId p) []) (fst pos) cause usage (snd pos) else []))"

definition spendFactsFor :: "FactEvent list \<Rightarrow> ustring \<Rightarrow> number \<times> number \<Rightarrow> FactEvent list" where
  "spendFactsFor facts cause pos = concat (map (spendFactsOf cause pos) facts)"

definition stripSpend :: "RunErrored \<Rightarrow> RunErrored" where
  \<comment> \<open>\<open>delete payload[k]\<close> for the \<open>PARTIAL_SPEND_KEYS\<close>\<close>
  "stripSpend p = p\<lparr>re_nodeId := None, re_partialTokens := None, re_partialCostUsd := None, re_split := emptySplit\<rparr>"

definition withoutSpend :: "FactEvent \<Rightarrow> FactEvent" where
  "withoutSpend fct =
     (case fct of
        F_run_halted p \<Rightarrow> F_run_halted (stripSpend p)
      | F_run_terminated (RT_errored p) \<Rightarrow> F_run_terminated (RT_errored (stripSpend p))
      | _ \<Rightarrow> fct)"

section \<open>What a fact charges\<close>

definition batchUsage :: "UsageField \<Rightarrow> FactEvent list \<Rightarrow> number" where
  "batchUsage u fs = sum_list (map (factUsage u) fs)"

lemma batchUsage_simps [simp]:
  "batchUsage u [] = 0" "batchUsage u (f # fs) = factUsage u f + batchUsage u fs"
  "batchUsage u (fs @ gs) = batchUsage u fs + batchUsage u gs"
  by (simp_all add: batchUsage_def)

lemma usageField_empty [simp]: "usageField u 0 0 emptySplit = 0"
  by (cases u) (simp_all add: emptySplit_def)

definition chargeOf :: "UsageField \<Rightarrow> HaltUsage \<Rightarrow> number" where
  \<comment> \<open>what a usage record charges: totals as they are, buckets when positive\<close>
  "chargeOf u h = usageField u (hu_turnBilled h) (hu_totalCostUsd h) (positiveSplit (usageSplit h))"

lemma exitSpend_usage [simp]: "batchUsage u (exitSpendFacts n i c h p) = chargeOf u h"
  by (simp add: exitSpendFacts_def factUsage_def chargeOf_def)

lemma charge_none [simp]:
  "factUsage u (F_intents_folded q j) = 0" "factUsage u (F_node_started n i ps) = 0" "factUsage u (F_run_paused p) = 0"
  "factUsage u (F_run_terminated (RT_completed m)) = 0" "factUsage u (F_run_terminated (RT_aborted q)) = 0"
  "factUsage u (F_run_terminated (RT_errored (bareHalt r d))) = 0" "factUsage u (F_handler_timeout_leaked n t) = 0"
  "factUsage u (F_provider_retry_attempted n i h t) = 0"
  by (simp_all add: factUsage_def haltUsage_def bareHalt_def)

lemma intents_usage [simp]: "batchUsage u (map (\<lambda>q. F_intents_folded q j) qs) = 0"
  by (induction qs) simp_all

definition resultCharge :: "UsageField \<Rightarrow> HandlerResult \<Rightarrow> HaltUsage option \<Rightarrow> number" where
  \<comment> \<open>what a result is to charge, given the usage the executor hands along\<close>
  "resultCharge u result usage =
     (case result of
        H_transition r \<Rightarrow> usageField u (tr_tokens r) (tr_costUsd r) (positiveSplit (tr_split r))
      | H_yield_human _ \<Rightarrow> 0
      | H_pause_provider _ \<Rightarrow> (case usage of None \<Rightarrow> 0 | Some h \<Rightarrow> chargeOf u h)
      | H_halt r \<Rightarrow>
          if ht_reason r \<in> {HH_max_retries_exceeded, HH_goal_gate_unsatisfied, HH_max_loops} then 0
          else (case usage of None \<Rightarrow> 0 | Some h \<Rightarrow> if hasSpend h then chargeOf u h else 0))"

lemma terminalHalt_usage [simp]:
  "batchUsage u (terminalHalt reason r ctx) = (case rc_usage ctx of None \<Rightarrow> 0 | Some h \<Rightarrow> if hasSpend h then chargeOf u h else 0)"
  by (simp add: terminalHalt_def Let_def hasSpend_def split: option.splits)
    (simp add: factUsage_def haltUsage_def chargeOf_def)

lemma resultToFacts_usage: "batchUsage u (resultToFacts result ctx) = resultCharge u result (rc_usage ctx)"
proof (cases result)
  case (H_transition r)
  have "factUsage u (F_node_completed p) = usageField u (nc_tokens p) (nc_costUsd p) (nc_split p)" for p
    by (simp add: factUsage_def)
  then show ?thesis
    using H_transition by (simp add: resultToFacts_def resultCharge_def transitionToFacts_def Let_def)
next
  case (H_halt r)
  then show ?thesis
    by (cases "ht_reason r") (simp_all add: resultToFacts_def resultCharge_def haltToFacts_def Let_def maxLoopsPause_def)
next
  case (H_pause_provider r)
  then show ?thesis
    by (simp add: resultToFacts_def resultCharge_def pauseProviderToFacts_def Let_def split: option.splits)
qed (simp add: resultToFacts_def resultCharge_def yieldHumanToFacts_def)

text \<open>what a result charges: the batch of a transition carries the transition's own tokens, cost
  and positive buckets; a provider pause carries the dispatch's whole accounting; a terminal halt
  carries it when there is any; a human yield and the three halts that become pauses
  (\<open>max_retries_exceeded\<close>, \<open>goal_gate_unsatisfied\<close>, \<open>max_loops\<close>) carry nothing.\<close>

theorem resultToFacts_charge: "batchUsage u (resultToFacts result ctx) = resultCharge u result (rc_usage ctx)"
  by (rule resultToFacts_usage)

section \<open>One disposition per batch\<close>

definition isDisposition :: "FactEvent \<Rightarrow> bool" where
  \<comment> \<open>a fact that says where the run goes: on to a node, into a pause, or to its end\<close>
  "isDisposition f = (case f of F_node_started _ _ _ \<Rightarrow> True | F_run_paused _ \<Rightarrow> True | F_run_terminated _ \<Rightarrow> True | _ \<Rightarrow> False)"

lemma isDisposition_simps [simp]:
  "isDisposition (F_node_started n i p)" "isDisposition (F_run_paused rp)" "isDisposition (F_run_terminated rt)"
  "\<not> isDisposition (F_node_completed nc)" "\<not> isDisposition (F_node_aborted ab)" "\<not> isDisposition (F_intents_folded q j)"
  "\<not> isDisposition (F_handler_timeout_leaked n t)" "\<not> isDisposition (F_provider_retry_attempted n t h d)"
  by (simp_all add: isDisposition_def)

definition wellPlaced :: "FactEvent \<Rightarrow> bool" where
  \<comment> \<open>a started node is not a terminal; a completed run ends in one\<close>
  "wellPlaced f = (case f of
     F_node_started n _ _ \<Rightarrow> \<not> isTerminalNode n
   | F_run_terminated (RT_completed n) \<Rightarrow> isTerminalNode n
   | _ \<Rightarrow> True)"

lemma wellPlaced_simps [simp]:
  "wellPlaced (F_run_paused rp)" "wellPlaced (F_run_terminated (RT_errored e))" "wellPlaced (F_run_terminated (RT_aborted q))"
  "wellPlaced (F_node_started n i p) = (\<not> isTerminalNode n)" "wellPlaced (F_run_terminated (RT_completed n)) = isTerminalNode n"
  by (simp_all add: wellPlaced_def)

lemma no_disposition_intents [simp]: "filter isDisposition (map (\<lambda>q. F_intents_folded q j) qs) = []"
  by (induction qs) simp_all

lemma no_disposition_exit [simp]: "filter isDisposition (exitSpendFacts n i c h p) = []"
  by (simp add: exitSpendFacts_def)

lemma resultToFacts_last:
  "filter isDisposition (resultToFacts result ctx) = [last (resultToFacts result ctx)]
   \<and> wellPlaced (last (resultToFacts result ctx))"
proof (cases result)
  case (H_transition r)
  then show ?thesis by (simp add: resultToFacts_def transitionToFacts_def Let_def)
next
  case (H_yield_human r)
  then show ?thesis by (simp add: resultToFacts_def yieldHumanToFacts_def)
next
  case (H_halt r)
  then show ?thesis
    by (cases "ht_reason r") (simp_all add: resultToFacts_def haltToFacts_def Let_def maxLoopsPause_def terminalHalt_def)
next
  case (H_pause_provider r)
  then show ?thesis by (simp add: resultToFacts_def pauseProviderToFacts_def Let_def split: option.splits)
qed

text \<open>every batch ends in exactly one disposition: among the facts of a result there is exactly one
  that starts a node, pauses or terminates the run, it is the last one, and it is well placed: a
  node is started only if it is no terminal, and the run completes only at a terminal.\<close>

theorem resultToFacts_disposition:
  "filter isDisposition (resultToFacts result ctx) = [last (resultToFacts result ctx)]
   \<and> wellPlaced (last (resultToFacts result ctx))"
  by (rule resultToFacts_last)

section \<open>Splitting loses no spend\<close>

definition splitFields :: "UsageSplit \<Rightarrow> number list" where
  "splitFields p = map (\<lambda>x. orElse x 0)
     [us_inputTokens p, us_outputTokens p, us_cacheReadTokens p, us_cacheWriteTokens p,
      us_inputCostUsd p, us_outputCostUsd p, us_cacheReadCostUsd p, us_cacheWriteCostUsd p]"

definition sensible :: "number \<Rightarrow> number \<Rightarrow> UsageSplit \<Rightarrow> bool" where
  \<comment> \<open>no negative amount, and no bucket above zero on a turn that billed nothing\<close>
  "sensible t c p = (0 \<le> t \<and> 0 \<le> c \<and> list_all (\<lambda>x. 0 \<le> x) (splitFields p)
     \<and> (spends t c \<or> list_all (\<lambda>x. x = 0) (splitFields p)))"

definition sensibleFact :: "FactEvent \<Rightarrow> bool" where
  "sensibleFact f =
     (case f of
        F_node_completed p \<Rightarrow> sensible (nc_tokens p) (nc_costUsd p) (nc_split p)
      | F_node_aborted p \<Rightarrow> sensible (ab_partialTokens p) (ab_partialCostUsd p) (ab_split p)
      | _ \<Rightarrow> (case partialSpendOf f of None \<Rightarrow> True
               | Some p \<Rightarrow> sensible (orElse (re_partialTokens p) 0) (orElse (re_partialCostUsd p) 0) (re_split p)))"

lemma charge_usageOf:
  "sensible t c p \<Longrightarrow> chargeOf u (usageOf t c p) = usageField u t c p"
  by (cases u) (simp_all add: chargeOf_def usageOf_def positiveSplit_def usageSplit_def sensible_def splitFields_def pos_only_def)

lemma usage_silent: "sensible t c p \<Longrightarrow> \<not> spends t c \<Longrightarrow> usageField u t c p = 0"
  by (cases u) (auto simp: sensible_def splitFields_def spends_def)

lemma usageOf_totals [simp]: "hu_turnBilled (usageOf t c p) = t" "hu_totalCostUsd (usageOf t c p) = c"
  by (simp_all add: usageOf_def)

lemma haltUsage_sensible:
  "sensible (orElse (re_partialTokens p) 0) (orElse (re_partialCostUsd p) 0) (re_split p) \<Longrightarrow>
     haltUsage u p = usageField u (orElse (re_partialTokens p) 0) (orElse (re_partialCostUsd p) 0) (re_split p)"
  using usage_silent [of 0 0 "re_split p" u] by (auto simp: haltUsage_def spends_def)

lemma spendFactsOf_charge: "sensibleFact f \<Longrightarrow> batchUsage u (spendFactsOf cause pos f) = factUsage u f"
  by (cases f)
    (auto simp: sensibleFact_def spendFactsOf_def partialSpendOf_def hasSpend_def factUsage_def charge_usageOf usage_silent
      haltUsage_sensible Let_def split: RunTerminatedPayload.splits)

lemma spendFactsFor_charge: "list_all sensibleFact fs \<Longrightarrow> batchUsage u (spendFactsFor fs cause pos) = batchUsage u fs"
  by (induction fs) (simp_all add: spendFactsFor_def spendFactsOf_charge)

definition dispositionPart :: "FactEvent list \<Rightarrow> FactEvent list" where
  \<comment> \<open>a batch without its node facts, its halts stripped of spend\<close>
  "dispositionPart fs = map withoutSpend (filter (\<lambda>f. case f of F_node_completed _ \<Rightarrow> False | F_node_aborted _ \<Rightarrow> False | _ \<Rightarrow> True) fs)"

lemma withoutSpend_free:
  "(case f of F_node_completed _ \<Rightarrow> False | F_node_aborted _ \<Rightarrow> False | _ \<Rightarrow> True) \<Longrightarrow> factUsage u (withoutSpend f) = 0"
  by (cases f) (auto simp: withoutSpend_def factUsage_def haltUsage_def stripSpend_def split: RunTerminatedPayload.splits)

lemma dispositionPart_free: "batchUsage u (dispositionPart fs) = 0"
  by (induction fs) (simp_all add: dispositionPart_def withoutSpend_free)

lemma spendFactsOf_shape:
  "list_all (\<lambda>f. case f of F_node_aborted p \<Rightarrow> spends (ab_partialTokens p) (ab_partialCostUsd p) | _ \<Rightarrow> False) (spendFactsOf cause pos g)"
  by (cases g) (simp_all add: spendFactsOf_def exitSpendFacts_def hasSpend_def partialSpendOf_def Let_def
      split: RunTerminatedPayload.splits)

lemma spendFactsOf_fixed:
  "list_all (\<lambda>f. case f of F_node_aborted p \<Rightarrow> spends (ab_partialTokens p) (ab_partialCostUsd p) | _ \<Rightarrow> False) fs \<Longrightarrow>
     spendFactsFor fs cause pos = fs"
  by (induction fs) (auto simp: spendFactsFor_def spendFactsOf_def split: FactEvent.splits)

text \<open>C16: splitting a batch loses no spend and doubles none: for facts with sensible amounts (none
  negative, none in a bucket of a turn that billed nothing) the spend half charges, in each of the
  ten totals, what the batch charged, and the disposition half charges nothing; splitting the spend
  half again, under whatever cause, changes nothing.\<close>

theorem spendFactsFor_conserves:
  assumes "list_all sensibleFact fs"
  shows "batchUsage u (spendFactsFor fs cause pos) = batchUsage u fs \<and> batchUsage u (dispositionPart fs) = 0
    \<and> spendFactsFor (spendFactsFor fs cause pos) cause' pos' = spendFactsFor fs cause pos"
proof -
  have "list_all (\<lambda>f. case f of F_node_aborted p \<Rightarrow> spends (ab_partialTokens p) (ab_partialCostUsd p) | _ \<Rightarrow> False)
      (spendFactsFor fs cause pos)"
    by (induction fs) (simp_all add: spendFactsFor_def spendFactsOf_shape)
  then show ?thesis using assms by (simp add: spendFactsFor_charge dispositionPart_free spendFactsOf_fixed)
qed

theorem spendFactsFor_conserves_witness:
  "let fs = [F_node_completed \<lparr>nc_nodeId = U ''a'', nc_iteration = 1, nc_pass = None, nc_tokens = 30, nc_costUsd = 2,
               nc_split = emptySplit\<lparr>us_inputTokens := Some 20, us_outputTokens := Some 10\<rparr>, nc_modelName = None, nc_nextNode = U ''b'',
               nc_outcomeStatus = Some OS_success, nc_route = None, nc_outputs = None\<rparr>,
             F_run_terminated (RT_errored ((bareHalt HR_error None)\<lparr>re_partialTokens := Some 5, re_nodeId := Some (U ''b'')\<rparr>))]
   in batchUsage UF_billedTokens (spendFactsFor fs (U ''occ'') (0, 0)) = 35 \<and> length (spendFactsFor fs (U ''occ'') (0, 0)) = 2"
proof -
  let ?fs = "[F_node_completed \<lparr>nc_nodeId = U ''a'', nc_iteration = 1, nc_pass = None, nc_tokens = 30, nc_costUsd = 2,
               nc_split = emptySplit\<lparr>us_inputTokens := Some 20, us_outputTokens := Some 10\<rparr>, nc_modelName = None, nc_nextNode = U ''b'',
               nc_outcomeStatus = Some OS_success, nc_route = None, nc_outputs = None\<rparr>,
             F_run_terminated (RT_errored ((bareHalt HR_error None)\<lparr>re_partialTokens := Some 5, re_nodeId := Some (U ''b'')\<rparr>))]"
  note d = emptySplit_def bareHalt_def sensibleFact_def sensible_def splitFields_def spends_def partialSpendOf_def
  have "list_all sensibleFact ?fs" by (simp add: d)
  from spendFactsFor_conserves [OF this, of UF_billedTokens "U ''occ''" "(0, 0)"]
  have "batchUsage UF_billedTokens (spendFactsFor ?fs (U ''occ'') (0, 0)) = 35"
    by (simp add: factUsage_def haltUsage_def d)
  then show ?thesis
    by (simp add: spendFactsFor_def spendFactsOf_def exitSpendFacts_def hasSpend_def usageOf_def d)
qed

end
