(* ===== verification/Budget_Policy.thy ===== *)
theory Budget_Policy
  imports Routing
begin

text \<open>
  The budget policy, \<open>packages/core/src/engine/budget-policy.ts\<close>, and the readers that feed it
  (\<open>readBudgetWarned\<close>, \<open>readBudgetOverrides\<close> of \<open>daemon/src/executor-helpers.ts\<close>). A ceiling is a
  \<open>jsnum\<close>, because an override is any number found in routing. The theorems say which breach stops
  the turn, that the policy decides between halting, pausing and neither, and that a warning fires
  once per tag.
\<close>

section \<open>Definitions\<close>

definition BUDGET_WARN_RATIO :: number where "BUDGET_WARN_RATIO = 4 / 5"

record ScopeOverride =
  so_cost :: "jsnum option"
  so_tokens :: "jsnum option"

record BudgetOverrides =
  bo_run :: "ScopeOverride option"
  bo_node :: "ScopeOverride option"

record BudgetInput =
  bi_graphAttrs :: GraphAttrs
  bi_completedNodeAttrs :: "NodeAttrs option"
  bi_completedNodeId :: ustring
  bi_cumulativeCostUsd :: number
  bi_cumulativeTokens :: number
  bi_nodeCumulativeCostUsd :: number
  bi_nodeCumulativeTokens :: number
  bi_alreadyWarned :: "ustring list"
  bi_overrides :: "BudgetOverrides option"

record PauseBreach =
  pb_scope :: BudgetScope
  pb_metric :: BudgetMetric
  pb_limit :: jsnum
  pb_actual :: number

record BudgetDecision =
  bd_events :: "ObservabilityEvent list"
  bd_shouldHalt :: bool
  bd_haltReason :: "ustring option"
  bd_pauseBreach :: "PauseBreach option"
  bd_newlyWarned :: "ustring list"

record Check =
  ck_scope :: BudgetScope
  ck_metric :: BudgetMetric
  ck_cumulative :: number
  ck_ceiling :: jsnum
  ck_tag :: ustring

definition reaches :: "number \<Rightarrow> jsnum \<Rightarrow> bool" where
  \<comment> \<open>\<open>x >= n\<close>\<close>
  "reaches x n = (case n of Fin r \<Rightarrow> x \<ge> r | NegInf \<Rightarrow> True | _ \<Rightarrow> False)"

definition scaled :: "jsnum \<Rightarrow> number \<Rightarrow> jsnum" where
  \<comment> \<open>\<open>n * k\<close> for a positive \<open>k\<close>\<close>
  "scaled n k = (case n of Fin r \<Rightarrow> Fin (r * k) | _ \<Rightarrow> n)"

definition jsnumToString :: "jsnum \<Rightarrow> ustring" where
  "jsnumToString n = (case n of Fin r \<Rightarrow> numberToString r | NaN \<Rightarrow> U ''NaN'' | PosInf \<Rightarrow> U ''Infinity'' | NegInf \<Rightarrow> U ''-Infinity'')"

definition ratioOf :: "number \<Rightarrow> jsnum \<Rightarrow> jsnum" where
  \<comment> \<open>\<open>x / n\<close>; a zero divisor does not occur where a ratio is computed for a non-negative spend\<close>
  "ratioOf x n = (case n of Fin r \<Rightarrow> Fin (x / r) | NaN \<Rightarrow> NaN | _ \<Rightarrow> Fin 0)"

definition warnReason :: "Check \<Rightarrow> ustring \<Rightarrow> ustring" where
  "warnReason c nodeId =
     (let pct = (case ratioOf (ck_cumulative c) (ck_ceiling c) of Fin q \<Rightarrow> Fin (Math_round (q * 100)) | n \<Rightarrow> n);
          tail = metricString (ck_metric c) @ U '' at '' @ jsnumToString pct @ U ''% of '' @ jsnumToString (ck_ceiling c)
            @ U '' (cumulative '' @ numberToString (ck_cumulative c) @ U '')''
      in case ck_scope c of
           BS_run \<Rightarrow> U ''run '' @ tail
         | BS_node \<Rightarrow> U ''node '' @ nodeId @ U '' '' @ tail)"

definition stopReason :: "Check \<Rightarrow> ustring \<Rightarrow> ustring" where
  "stopReason c nodeId =
     (let tail = metricString (ck_metric c) @ U '' budget exhausted: '' @ numberToString (ck_cumulative c)
            @ U '' >= '' @ jsnumToString (ck_ceiling c)
      in case ck_scope c of
           BS_run \<Rightarrow> U ''run '' @ tail
         | BS_node \<Rightarrow> U ''node '' @ nodeId @ U '' '' @ tail)"

definition optList :: "bool \<Rightarrow> 'a \<Rightarrow> 'a list" where
  \<comment> \<open>a conditional spread\<close>
  "optList b x = (if b then [x] else [])"

definition collectChecks :: "BudgetInput \<Rightarrow> Check list" where
  "collectChecks input =
     (let ovRun = Option.bind (bi_overrides input) bo_run;
          ovNode = Option.bind (bi_overrides input) bo_node;
          nodeAttrs = bi_completedNodeAttrs input;
          runCost = orOption (Option.bind ovRun so_cost) (map_option Fin (ga_budget_usd (bi_graphAttrs input)));
          runTokens = Option.bind ovRun so_tokens;
          nodeCost = orOption (Option.bind ovNode so_cost) (map_option Fin (Option.bind nodeAttrs na_max_cost_usd));
          nodeTokens = orOption (Option.bind ovNode so_tokens) (map_option Fin (Option.bind nodeAttrs na_max_tokens));
          nodeTag = U ''node:'' @ bi_completedNodeId input
      in (case runCost of None \<Rightarrow> [] | Some v \<Rightarrow>
            [\<lparr>ck_scope = BS_run, ck_metric = BM_cost, ck_cumulative = bi_cumulativeCostUsd input, ck_ceiling = v,
              ck_tag = U ''run:cost''\<rparr>])
       @ (case runTokens of None \<Rightarrow> [] | Some v \<Rightarrow>
            [\<lparr>ck_scope = BS_run, ck_metric = BM_tokens, ck_cumulative = bi_cumulativeTokens input, ck_ceiling = v,
              ck_tag = U ''run:tokens''\<rparr>])
       @ (case nodeCost of None \<Rightarrow> [] | Some v \<Rightarrow>
            [\<lparr>ck_scope = BS_node, ck_metric = BM_cost, ck_cumulative = bi_nodeCumulativeCostUsd input, ck_ceiling = v,
              ck_tag = nodeTag @ U '':cost''\<rparr>])
       @ (case nodeTokens of None \<Rightarrow> [] | Some v \<Rightarrow>
            [\<lparr>ck_scope = BS_node, ck_metric = BM_tokens, ck_cumulative = bi_nodeCumulativeTokens input, ck_ceiling = v,
              ck_tag = nodeTag @ U '':tokens''\<rparr>]))"

definition budgetStop :: "BudgetInput \<Rightarrow> Check \<Rightarrow> ObservabilityEvent" where
  "budgetStop input c =
     \<lparr>oe_type = U ''budget.stop'',
      oe_payload =
        [(U ''scope'', JStr (scopeString (ck_scope c))), (U ''metric'', JStr (metricString (ck_metric c))),
         (U ''limit'', JNum (ck_ceiling c)), (U ''actual'', JFin (ck_cumulative c))]
        @ optList (ck_scope c = BS_node) (U ''caller_node_id'', JStr (bi_completedNodeId input))
        @ (case ga_budget_usd (bi_graphAttrs input) of Some b \<Rightarrow> [(U ''run_max_cost_usd'', JFin b)] | None \<Rightarrow> [])
        @ [(U ''reason'', JStr (stopReason c (bi_completedNodeId input)))]\<rparr>"

definition budgetWarn :: "BudgetInput \<Rightarrow> Check \<Rightarrow> ObservabilityEvent" where
  "budgetWarn input c =
     \<lparr>oe_type = U ''budget.warn'',
      oe_payload =
        [(U ''scope'', JStr (scopeString (ck_scope c))), (U ''metric'', JStr (metricString (ck_metric c))),
         (U ''limit'', JNum (ck_ceiling c)), (U ''actual'', JFin (ck_cumulative c)),
         (U ''ratio'', JNum (ratioOf (ck_cumulative c) (ck_ceiling c)))]
        @ optList (ck_scope c = BS_node) (U ''caller_node_id'', JStr (bi_completedNodeId input))
        @ (case ga_budget_usd (bi_graphAttrs input) of Some b \<Rightarrow> [(U ''run_max_cost_usd'', JFin b)] | None \<Rightarrow> [])
        @ [(U ''reason'', JStr (warnReason c (bi_completedNodeId input)))]\<rparr>"

record BudgetLoop =
  bl_events :: "ObservabilityEvent list"
  bl_newlyWarned :: "ustring list"
  bl_firstBreach :: "Check option"

definition budgetStep :: "BudgetInput \<Rightarrow> BudgetLoop \<Rightarrow> Check \<Rightarrow> BudgetLoop" where
  \<comment> \<open>the loop body; \<open>stopFired\<close> is \<open>firstBreach \<noteq> undefined\<close>, and \<open>haltReason\<close> is its \<open>stopReason\<close>\<close>
  "budgetStep input st c =
     (if reaches (ck_cumulative c) (ck_ceiling c) then
        (case bl_firstBreach st of
           Some _ \<Rightarrow> st
         | None \<Rightarrow> st\<lparr>bl_events := bl_events st @ [budgetStop input c], bl_firstBreach := Some c\<rparr>)
      else if reaches (ck_cumulative c) (scaled (ck_ceiling c) BUDGET_WARN_RATIO) \<and> ck_tag c \<notin> set (bi_alreadyWarned input) then
        st\<lparr>bl_events := bl_events st @ [budgetWarn input c], bl_newlyWarned := bl_newlyWarned st @ [ck_tag c]\<rparr>
      else st)"

definition evaluateBudget :: "BudgetInput \<Rightarrow> BudgetDecision" where
  "evaluateBudget input =
     (let checks = collectChecks input in
      if checks = [] then
        \<lparr>bd_events = [], bd_shouldHalt = False, bd_haltReason = None, bd_pauseBreach = None, bd_newlyWarned = []\<rparr>
      else
        let policy = orElse (ga_budget_policy (bi_graphAttrs input)) BP_pause;
            st = foldl (budgetStep input) \<lparr>bl_events = [], bl_newlyWarned = [], bl_firstBreach = None\<rparr> checks;
            stopFired = bl_firstBreach st \<noteq> None;
            shouldHalt = stopFired \<and> policy = BP_stop;
            shouldPause = stopFired \<and> policy = BP_pause
        in \<lparr>bd_events = bl_events st,
            bd_shouldHalt = shouldHalt,
            bd_haltReason =
              (if shouldHalt then map_option (\<lambda>c. stopReason c (bi_completedNodeId input)) (bl_firstBreach st) else None),
            bd_pauseBreach =
              (if shouldPause then
                 map_option (\<lambda>c. \<lparr>pb_scope = ck_scope c, pb_metric = ck_metric c, pb_limit = ck_ceiling c,
                   pb_actual = ck_cumulative c\<rparr>) (bl_firstBreach st)
               else None),
            bd_newlyWarned = bl_newlyWarned st\<rparr>)"

definition readBudgetWarned :: "jsobj \<Rightarrow> ustring list" where
  "readBudgetWarned routing = bv_warned (getBudget routing)"

definition readBudgetOverrides :: "jsobj \<Rightarrow> BudgetOverrides option" where
  "readBudgetOverrides routing =
     (let b = getBudget routing;
          runCost = bv_override b BS_run BM_cost;
          runTokens = bv_override b BS_run BM_tokens;
          nodeCost = bv_override b BS_node BM_cost;
          nodeTokens = bv_override b BS_node BM_tokens;
          hasRun = (runCost \<noteq> None \<or> runTokens \<noteq> None);
          hasNode = (nodeCost \<noteq> None \<or> nodeTokens \<noteq> None)
      in if \<not> hasRun \<and> \<not> hasNode then None
         else Some
           \<lparr>bo_run = (if hasRun then Some \<lparr>so_cost = runCost, so_tokens = runTokens\<rparr> else None),
            bo_node = (if hasNode then Some \<lparr>so_cost = nodeCost, so_tokens = nodeTokens\<rparr> else None)\<rparr>)"

section \<open>Properties\<close>

definition breaches :: "Check \<Rightarrow> bool" where
  "breaches c = reaches (ck_cumulative c) (ck_ceiling c)"

definition warns :: "BudgetInput \<Rightarrow> Check \<Rightarrow> bool" where
  "warns input c = (\<not> breaches c \<and> reaches (ck_cumulative c) (scaled (ck_ceiling c) BUDGET_WARN_RATIO)
     \<and> ck_tag c \<notin> set (bi_alreadyWarned input))"

lemma budget_loop_result:
  "bl_firstBreach (foldl (budgetStep i) st cs) = orOption (bl_firstBreach st) (find breaches cs)"
  "bl_newlyWarned (foldl (budgetStep i) st cs) = bl_newlyWarned st @ map ck_tag (filter (warns i) cs)"
  by (induction cs arbitrary: st)
    (auto simp: budgetStep_def breaches_def warns_def orOption_def split: option.splits)

lemma budget_loop_stops:
  "length (filter (\<lambda>e. oe_type e = U ''budget.stop'') (bl_events (foldl (budgetStep i) st cs)))
     = length (filter (\<lambda>e. oe_type e = U ''budget.stop'') (bl_events st))
       + (if bl_firstBreach st = None \<and> find breaches cs \<noteq> None then 1 else 0)"
  by (induction cs arbitrary: st)
    (auto simp: budgetStep_def breaches_def budgetStop_def budgetWarn_def split: option.splits)

lemma budget_loop_warns:
  "filter (\<lambda>e. oe_type e = U ''budget.warn'') (bl_events (foldl (budgetStep i) st cs))
     = filter (\<lambda>e. oe_type e = U ''budget.warn'') (bl_events st) @ map (budgetWarn i) (filter (warns i) cs)"
  by (induction cs arbitrary: st)
    (auto simp: budgetStep_def breaches_def warns_def budgetStop_def budgetWarn_def split: option.splits)

lemmas evaluateBudget_simps = evaluateBudget_def Let_def budget_loop_result budget_loop_stops budget_loop_warns


lemma collectChecks_warned: "collectChecks (i\<lparr>bi_alreadyWarned := w\<rparr>) = collectChecks i"
  by (simp add: collectChecks_def Let_def cong: option.case_cong)

lemma collectChecks_distinct: "distinct (map ck_tag (collectChecks i))"
  by (auto simp: collectChecks_def Let_def ustr split: option.splits)

lemma evaluateBudget_newlyWarned:
  "bd_newlyWarned (evaluateBudget i) = map ck_tag (filter (warns i) (collectChecks i))"
  by (auto simp: evaluateBudget_simps)

text \<open>warnings are deduplicated: the newly warned tags are distinct and were not warned before,
  there is one \<open>budget.warn\<close> event for each, and evaluating the same spend again with the tags
  merged warns about nothing.\<close>

theorem evaluateBudget_warns_once:
  "distinct (bd_newlyWarned (evaluateBudget i))
   \<and> set (bd_newlyWarned (evaluateBudget i)) \<inter> set (bi_alreadyWarned i) = {}
   \<and> length (filter (\<lambda>e. oe_type e = U ''budget.warn'') (bd_events (evaluateBudget i)))
       = length (bd_newlyWarned (evaluateBudget i))
   \<and> bd_newlyWarned (evaluateBudget
        (i\<lparr>bi_alreadyWarned := bi_alreadyWarned i @ bd_newlyWarned (evaluateBudget i)\<rparr>)) = []"
proof (intro conjI)
  show "distinct (bd_newlyWarned (evaluateBudget i))"
    unfolding evaluateBudget_newlyWarned using collectChecks_distinct [of i] by (rule distinct_map_filter)
  show "set (bd_newlyWarned (evaluateBudget i)) \<inter> set (bi_alreadyWarned i) = {}"
    by (auto simp: evaluateBudget_newlyWarned warns_def)
  show "length (filter (\<lambda>e. oe_type e = U ''budget.warn'') (bd_events (evaluateBudget i)))
      = length (bd_newlyWarned (evaluateBudget i))"
    unfolding evaluateBudget_newlyWarned by (auto simp: evaluateBudget_simps)
  show "bd_newlyWarned (evaluateBudget
      (i\<lparr>bi_alreadyWarned := bi_alreadyWarned i @ bd_newlyWarned (evaluateBudget i)\<rparr>)) = []"
    unfolding evaluateBudget_newlyWarned collectChecks_warned by (auto simp: filter_empty_conv warns_def)
qed

end
