(* ===== verification/Retry_Policy.thy ===== *)
theory Retry_Policy
  imports Routing
begin

text \<open>
  The retry reducers: the handler retry of \<open>packages/core/src/engine/retry-policy.ts\<close>, the provider
  auto-retry of \<open>packages/daemon/src/provider-retry-policy.ts\<close> with the status classification of
  \<open>core/src/provider-classification.ts\<close>, and the resolution of a node's backoff and cap
  (\<open>resolveBackoff\<close>, \<open>resolveMaxRetries\<close> of \<open>daemon/src/executor-helpers.ts\<close>). A draw of
  \<open>Math.random\<close> is an argument; the documented range of the draw is a hypothesis where it matters.

  The locale \<open>bounded_retry\<close> states the contract every retry counter of the program has: a step
  that retries adds one to a counter that was below a cap. It is interpreted on the two reducers
  here and on the goal gate and the watchdog in their theories.
\<close>

section \<open>Interface: a bounded counter\<close>

primrec retryChain :: "(number \<Rightarrow> 'i \<Rightarrow> number option) \<Rightarrow> number \<Rightarrow> 'i list \<Rightarrow> number option" where
  \<comment> \<open>the counter after a sequence of executions that all retry; None when one of them does not\<close>
  "retryChain again c [] = Some c"
| "retryChain again c (i # is) = (case again c i of None \<Rightarrow> None | Some c' \<Rightarrow> retryChain again c' is)"

locale bounded_retry =
  fixes again :: "number \<Rightarrow> 'i \<Rightarrow> number option"
    and cap :: number
  assumes again_below: "again c i = Some c' \<Longrightarrow> c' = c + 1 \<and> c < cap"
begin

lemma chain_count: "retryChain again c is = Some c' \<Longrightarrow> c' = c + of_nat (length is) \<and> (is = [] \<or> c' < cap + 1)"
proof (induction "is" arbitrary: c)
  case (Cons i "is")
  then obtain c1 where c1: "again c i = Some c1" "retryChain again c1 is = Some c'"
    by (auto split: option.splits)
  from again_below [OF c1(1)] Cons.IH [OF c1(2)] show ?case by auto
qed simp

lemma chain_length: "retryChain again c is = Some c' \<Longrightarrow> is \<noteq> [] \<Longrightarrow> of_nat (length is) < cap - c + 1"
  using chain_count by (fastforce simp: algebra_simps)

lemma chain_length_int:
  assumes "retryChain again 0 is = Some c" "cap = of_int n" "0 \<le> n"
  shows "of_nat (length is) \<le> cap"
proof (cases "is = []")
  case False
  from chain_length [OF assms(1) False] have "of_int (int (length is)) < (of_int (n + 1) :: number)"
    by (simp add: assms(2))
  then have "int (length is) \<le> n" by (simp only: of_int_less_iff)
  then have "(of_int (int (length is)) :: number) \<le> of_int n" by (simp only: of_int_le_iff)
  then show ?thesis by (simp add: assms(2))
qed (simp add: assms(2,3))

end

section \<open>Handler retries\<close>

record RetryState =
  rs_retries :: number
  rs_maxRetries :: number

datatype (plugins only: code size) RetryAction =
    RA_advance
  | RA_advance_partial
  | RA_retry RetryState number \<comment> \<open>next delayMs\<close>
  | RA_fail
  | RA_halt \<comment> \<open>reason \<open>max_retries_exceeded\<close>\<close>

record BackoffConfig =
  bk_initialDelayMs :: number
  bk_backoffFactor :: number
  bk_maxDelayMs :: number
  bk_jitter :: bool

definition DEFAULT_BACKOFF :: BackoffConfig where
  "DEFAULT_BACKOFF = \<lparr>bk_initialDelayMs = 200, bk_backoffFactor = 2, bk_maxDelayMs = 60000, bk_jitter = True\<rparr>"

datatype (plugins only: code size) RetryPresetName = RPN_none | RPN_standard | RPN_aggressive | RPN_linear | RPN_patient

primrec RETRY_PRESETS :: "RetryPresetName \<Rightarrow> number \<times> BackoffConfig" where
  \<comment> \<open>\<open>maxAttempts\<close> and the backoff fields\<close>
  "RETRY_PRESETS RPN_none = (1, \<lparr>bk_initialDelayMs = 0, bk_backoffFactor = 1, bk_maxDelayMs = 0, bk_jitter = False\<rparr>)"
| "RETRY_PRESETS RPN_standard = (5, \<lparr>bk_initialDelayMs = 200, bk_backoffFactor = 2, bk_maxDelayMs = 60000, bk_jitter = True\<rparr>)"
| "RETRY_PRESETS RPN_aggressive = (5, \<lparr>bk_initialDelayMs = 500, bk_backoffFactor = 2, bk_maxDelayMs = 60000, bk_jitter = True\<rparr>)"
| "RETRY_PRESETS RPN_linear = (3, \<lparr>bk_initialDelayMs = 500, bk_backoffFactor = 1, bk_maxDelayMs = 500, bk_jitter = False\<rparr>)"
| "RETRY_PRESETS RPN_patient = (3, \<lparr>bk_initialDelayMs = 2000, bk_backoffFactor = 3, bk_maxDelayMs = 60000, bk_jitter = True\<rparr>)"

definition asRetryPresetName :: "ustring option \<Rightarrow> RetryPresetName option" where
  \<comment> \<open>the type guard \<open>isRetryPresetName\<close> with the name it narrows to, for the presets' own names\<close>
  "asRetryPresetName v =
     (if v = Some (U ''none'') then Some RPN_none
      else if v = Some (U ''standard'') then Some RPN_standard
      else if v = Some (U ''aggressive'') then Some RPN_aggressive
      else if v = Some (U ''linear'') then Some RPN_linear
      else if v = Some (U ''patient'') then Some RPN_patient
      else None)"

definition js_pow :: "number \<Rightarrow> number \<Rightarrow> number" where
  \<comment> \<open>\<open>b ** e\<close> for an integral exponent; the counters in exponent position are integral\<close>
  "js_pow b e = power_int b (floor e)"

definition delayForAttempt :: "number \<Rightarrow> BackoffConfig \<Rightarrow> number \<Rightarrow> number" where
  "delayForAttempt attempt cfg random =
     (if attempt < 1 then 0
      else
        let raw = bk_initialDelayMs cfg * js_pow (bk_backoffFactor cfg) (attempt - 1);
            capped = min raw (bk_maxDelayMs cfg)
        in if \<not> bk_jitter cfg then capped else capped * (1 / 2 + random))"

record RetryStepInput =
  ri_state :: RetryState
  ri_status :: OutcomeStatus
  ri_backoff :: "BackoffConfig option"
  ri_nonRetryable :: "bool option"
  ri_allowPartial :: "bool option"
  ri_random :: number

definition retryStep :: "RetryStepInput \<Rightarrow> RetryAction" where
  "retryStep input =
     (let state = ri_state input in
      if ri_nonRetryable input = Some True then RA_fail
      else
        case ri_status input of
          OS_success \<Rightarrow> RA_advance
        | OS_fail \<Rightarrow> RA_fail
        | OS_retry \<Rightarrow>
            if rs_retries state \<ge> rs_maxRetries state then
              (if ri_allowPartial input = Some True then RA_advance_partial else RA_halt)
            else
              let cfg = orElse (ri_backoff input) (snd (RETRY_PRESETS RPN_none));
                  delayMs = delayForAttempt (rs_retries state + 1) cfg (ri_random input)
              in RA_retry \<lparr>rs_retries = rs_retries state + 1, rs_maxRetries = rs_maxRetries state\<rparr> delayMs)"

definition initialRetryState :: "number \<Rightarrow> RetryState" where
  "initialRetryState maxRetries = \<lparr>rs_retries = 0, rs_maxRetries = max 0 (Math_floor maxRetries)\<rparr>"

definition resolveBackoff :: "NodeAttrs \<Rightarrow> GraphAttrs \<Rightarrow> BackoffConfig" where
  "resolveBackoff nodeAttrs graphAttrs =
     (let presetName =
            (case asRetryPresetName (na_retry_policy nodeAttrs) of
               Some n \<Rightarrow> n
             | None \<Rightarrow> orElse (asRetryPresetName (ga_default_retry_policy graphAttrs)) RPN_none);
          base = snd (RETRY_PRESETS presetName)
      in \<lparr>bk_initialDelayMs = orElse (na_retry_initial_delay_ms nodeAttrs) (bk_initialDelayMs base),
          bk_backoffFactor = orElse (na_retry_backoff_factor nodeAttrs) (bk_backoffFactor base),
          bk_maxDelayMs = orElse (na_retry_max_delay_ms nodeAttrs) (bk_maxDelayMs base),
          bk_jitter = orElse (na_retry_jitter nodeAttrs) (bk_jitter base)\<rparr>)"

definition resolveMaxRetries :: "NodeAttrs \<Rightarrow> GraphAttrs \<Rightarrow> number" where
  "resolveMaxRetries nodeAttrs graphAttrs =
     (case na_max_retries nodeAttrs of Some m \<Rightarrow> max 0 (Math_floor m) | None \<Rightarrow> 0)"

section \<open>Provider retries\<close>

definition ANTHROPIC_OVERLOADED_STATUS :: number where "ANTHROPIC_OVERLOADED_STATUS = 529"

definition isAutoRetryableStatus :: "number option \<Rightarrow> bool" where
  "isAutoRetryableStatus httpStatus =
     (case httpStatus of
        None \<Rightarrow> True
      | Some s \<Rightarrow>
          if s = 408 \<or> s = 429 \<or> s = ANTHROPIC_OVERLOADED_STATUS then True
          else if s \<ge> 500 \<and> s \<le> 504 then True
          else False)"

definition PROVIDER_RETRY_MAX_ATTEMPTS :: number where "PROVIDER_RETRY_MAX_ATTEMPTS = 5"
definition PROVIDER_RETRY_MAX_CUMULATIVE_MS :: number where "PROVIDER_RETRY_MAX_CUMULATIVE_MS = 5 * 60 * 1000"
definition PROVIDER_RETRY_BASE_BACKOFF_MS :: number where "PROVIDER_RETRY_BASE_BACKOFF_MS = 1000"
definition PROVIDER_RETRY_MAX_EXPONENTIAL_MS :: number where "PROVIDER_RETRY_MAX_EXPONENTIAL_MS = 32 * 1000"
definition PROVIDER_RETRY_AFTER_MAX_MS :: number where "PROVIDER_RETRY_AFTER_MAX_MS = 6 * 60 * 60 * 1000"

lemmas provider_constants = PROVIDER_RETRY_MAX_ATTEMPTS_def PROVIDER_RETRY_MAX_CUMULATIVE_MS_def
  PROVIDER_RETRY_BASE_BACKOFF_MS_def PROVIDER_RETRY_MAX_EXPONENTIAL_MS_def PROVIDER_RETRY_AFTER_MAX_MS_def

datatype (plugins only: code size) ExhaustedReason = XR_max_attempts | XR_max_cumulative_ms

datatype (plugins only: code size) ProviderRetryDecision =
    PD_auto_retry number number number "number option" \<comment> \<open>attempt delayMs resumeAt retryAfterMs\<close>
  | PD_manual "ustring option" \<comment> \<open>detail\<close>
  | PD_exhausted number ExhaustedReason \<comment> \<open>attempt reason\<close>

record DecideProviderRetryOpts =
  dp_httpStatus :: "number option"
  dp_retryAfterMs :: "number option"
  dp_priorAttempt :: number
  dp_now :: number
  dp_cumulativeDelayMs :: number
  dp_random :: number
  dp_retryAfterMaxMs :: "number option"

definition js_mod :: "number \<Rightarrow> number \<Rightarrow> number" where
  \<comment> \<open>\<open>a % b\<close> for non-negative operands\<close>
  "js_mod a b = a - b * Math_floor (a / b)"

definition formatDelayMs :: "number \<Rightarrow> ustring" where
  "formatDelayMs ms =
     (let totalSeconds = Math_round (ms / 1000) in
      if totalSeconds < 60 then numberToString totalSeconds @ U ''s''
      else
        let totalMinutes = Math_round (totalSeconds / 60) in
        if totalMinutes < 60 then numberToString totalMinutes @ U ''m''
        else
          let hours = Math_floor (totalMinutes / 60);
              minutes = js_mod totalMinutes 60
          in if minutes = 0 then numberToString hours @ U ''h''
             else numberToString hours @ U ''h'' @ numberToString minutes @ U ''m'')"

definition computeBackoffMs :: "number option \<Rightarrow> number \<Rightarrow> number \<Rightarrow> number" where
  "computeBackoffMs retryAfterMs attempt random =
     (case retryAfterMs of
        Some ms \<Rightarrow> ms
      | None \<Rightarrow>
          let exponentialMs = min (PROVIDER_RETRY_BASE_BACKOFF_MS * js_pow 2 (attempt - 1)) PROVIDER_RETRY_MAX_EXPONENTIAL_MS;
              half = exponentialMs / 2
          in Math_floor (half + random * half))"

definition decideProviderRetry :: "DecideProviderRetryOpts \<Rightarrow> ProviderRetryDecision" where
  "decideProviderRetry opts =
     (if \<not> isAutoRetryableStatus (dp_httpStatus opts) then PD_manual None
      else
        let retryAfterMaxMs = orElse (dp_retryAfterMaxMs opts) PROVIDER_RETRY_AFTER_MAX_MS in
        if (case dp_retryAfterMs opts of Some ms \<Rightarrow> ms > retryAfterMaxMs | None \<Rightarrow> False) then
          PD_manual (Some (U ''provider requested a '' @ formatDelayMs (orElse (dp_retryAfterMs opts) 0)
            @ U '' retry delay, above the '' @ formatDelayMs retryAfterMaxMs @ U '' auto-retry cap''))
        else
          let nextAttempt = dp_priorAttempt opts + 1 in
          if nextAttempt > PROVIDER_RETRY_MAX_ATTEMPTS then PD_exhausted nextAttempt XR_max_attempts
          else
            let delayMs = computeBackoffMs (dp_retryAfterMs opts) nextAttempt (dp_random opts) in
            if dp_cumulativeDelayMs opts + delayMs > PROVIDER_RETRY_MAX_CUMULATIVE_MS \<and> dp_retryAfterMs opts = None
            then PD_exhausted nextAttempt XR_max_cumulative_ms
            else PD_auto_retry nextAttempt delayMs (dp_now opts + delayMs) (dp_retryAfterMs opts))"

section \<open>Properties of the handler retry\<close>

lemma retryStep_retry:
  "retryStep i = RA_retry st d \<longleftrightarrow>
     ri_nonRetryable i \<noteq> Some True \<and> ri_status i = OS_retry
     \<and> rs_retries (ri_state i) < rs_maxRetries (ri_state i)
     \<and> st = (ri_state i)\<lparr>rs_retries := rs_retries (ri_state i) + 1\<rparr>
     \<and> d = delayForAttempt (rs_retries (ri_state i) + 1) (orElse (ri_backoff i) (snd (RETRY_PRESETS RPN_none))) (ri_random i)"
  by (cases "ri_state i") (auto simp: retryStep_def Let_def split: OutcomeStatus.splits if_splits)

definition retryAgain :: "number \<Rightarrow> number \<Rightarrow> RetryStepInput \<Rightarrow> number option" where
  "retryAgain maxRetries c i =
     (case retryStep (i\<lparr>ri_state := \<lparr>rs_retries = c, rs_maxRetries = maxRetries\<rparr>\<rparr>) of
        RA_retry st _ \<Rightarrow> Some (rs_retries st) | _ \<Rightarrow> None)"

interpretation hr: bounded_retry "retryAgain maxRetries" maxRetries for maxRetries
  by unfold_locales (auto simp: retryAgain_def retryStep_retry split: RetryAction.splits)

text \<open>from a fresh state a node is retried at most \<open>floor(maxRetries)\<close> times: whatever outcomes a
  sequence of executions reports, the chain of retries it can form is no longer than the cap.\<close>

theorem retry_chain_bounded:
  assumes "retryChain (retryAgain (rs_maxRetries (initialRetryState m))) 0 is = Some c"
  shows "c = of_nat (length is) \<and> of_nat (length is) \<le> max 0 (Math_floor m)"
  using hr.chain_count [OF assms] hr.chain_length_int [OF assms, of "max 0 (floor m)"]
  by (simp add: initialRetryState_def Math_floor_def of_int_max)

theorem retry_chain_bounded_witness:
  "let i = \<lparr>ri_state = \<lparr>rs_retries = 0, rs_maxRetries = 2\<rparr>, ri_status = OS_retry, ri_backoff = None,
            ri_nonRetryable = None, ri_allowPartial = None, ri_random = 0\<rparr>
   in retryChain (retryAgain (rs_maxRetries (initialRetryState (5 / 2)))) 0 [i, i] = Some 2
      \<and> (2 :: number) \<le> max 0 (Math_floor (5 / 2))"
proof -
  let ?i = "\<lparr>ri_state = \<lparr>rs_retries = 0, rs_maxRetries = 2\<rparr>, ri_status = OS_retry, ri_backoff = None,
            ri_nonRetryable = None, ri_allowPartial = None, ri_random = 0\<rparr>"
  have c: "retryChain (retryAgain (rs_maxRetries (initialRetryState (5 / 2)))) 0 [?i, ?i] = Some 2"
    by code_simp
  with retry_chain_bounded [OF c] show ?thesis by simp
qed

section \<open>Properties of the delays\<close>

lemma js_pow_nonneg: "0 \<le> b \<Longrightarrow> 0 \<le> js_pow b e"
  by (simp add: js_pow_def)

text \<open>the delay before a retry lies within half and one and a half times the capped exponential
  (exactly the capped exponential without jitter), and is never negative, for a non-negative
  configuration and a draw in \<open>[0, 1)\<close>.\<close>

theorem delayForAttempt_bounds:
  assumes "0 \<le> bk_initialDelayMs cfg" "0 \<le> bk_backoffFactor cfg" "0 \<le> bk_maxDelayMs cfg"
    "0 \<le> random" "random < 1" "1 \<le> attempt"
  shows "let capped = min (bk_initialDelayMs cfg * js_pow (bk_backoffFactor cfg) (attempt - 1)) (bk_maxDelayMs cfg);
             d = delayForAttempt attempt cfg random
         in 0 \<le> d \<and> capped / 2 \<le> d \<and> d \<le> capped * 3 / 2 \<and> d \<le> bk_maxDelayMs cfg * 3 / 2"
proof -
  define capped where "capped = min (bk_initialDelayMs cfg * js_pow (bk_backoffFactor cfg) (attempt - 1)) (bk_maxDelayMs cfg)"
  have c: "0 \<le> capped" "capped \<le> bk_maxDelayMs cfg" using assms by (simp_all add: capped_def js_pow_nonneg)
  have d: "delayForAttempt attempt cfg random = (if bk_jitter cfg then capped * (1 / 2 + random) else capped)"
    using assms(6) by (simp add: delayForAttempt_def capped_def Let_def)
  have "capped * (1 / 2) \<le> capped * (1 / 2 + random)"
    using c assms(4) by (intro mult_left_mono) simp_all
  moreover have "capped * (1 / 2 + random) \<le> capped * (3 / 2)"
    using c assms(5) by (intro mult_left_mono) simp_all
  ultimately show ?thesis unfolding capped_def [symmetric] Let_def d using c by (auto simp: field_simps)
qed

theorem delayForAttempt_bounds_witness:
  "let d = delayForAttempt 3 (snd (RETRY_PRESETS RPN_standard)) (1 / 4) in 400 \<le> d \<and> d \<le> 1200"
  using delayForAttempt_bounds [of "snd (RETRY_PRESETS RPN_standard)" "1 / 4" 3]
  by (simp add: js_pow_def Let_def)

section \<open>Properties of the provider retry\<close>

definition providerAgain :: "number \<Rightarrow> DecideProviderRetryOpts \<Rightarrow> number option" where
  "providerAgain c opts =
     (case decideProviderRetry (opts\<lparr>dp_priorAttempt := c\<rparr>) of PD_auto_retry n _ _ _ \<Rightarrow> Some n | _ \<Rightarrow> None)"

lemma decide_auto_retry:
  "decideProviderRetry opts = PD_auto_retry n d r ra \<Longrightarrow>
     isAutoRetryableStatus (dp_httpStatus opts) \<and> n = dp_priorAttempt opts + 1 \<and> n \<le> PROVIDER_RETRY_MAX_ATTEMPTS
     \<and> d = computeBackoffMs (dp_retryAfterMs opts) n (dp_random opts) \<and> r = dp_now opts + d \<and> ra = dp_retryAfterMs opts
     \<and> (dp_retryAfterMs opts = None \<longrightarrow> dp_cumulativeDelayMs opts + d \<le> PROVIDER_RETRY_MAX_CUMULATIVE_MS)
     \<and> (\<forall>ms. dp_retryAfterMs opts = Some ms \<longrightarrow> ms \<le> orElse (dp_retryAfterMaxMs opts) PROVIDER_RETRY_AFTER_MAX_MS)"
  by (auto simp: decideProviderRetry_def Let_def split: if_splits option.splits)

interpretation pr: bounded_retry providerAgain PROVIDER_RETRY_MAX_ATTEMPTS
proof
  fix c opts c'
  assume "providerAgain c opts = Some c'"
  then obtain d r ra where "decideProviderRetry (opts\<lparr>dp_priorAttempt := c\<rparr>) = PD_auto_retry c' d r ra"
    by (auto simp: providerAgain_def split: ProviderRetryDecision.splits)
  from decide_auto_retry [OF this] show "c' = c + 1 \<and> c < PROVIDER_RETRY_MAX_ATTEMPTS"
    by (simp add: PROVIDER_RETRY_MAX_ATTEMPTS_def)
qed

text \<open>C38: a chain of provider failures is retried automatically at most five times before the
  decision stops being a retry, however the failures, the provider's delays and the draws fall.\<close>

theorem provider_chain_bounded:
  assumes "retryChain providerAgain 0 failures = Some c"
  shows "c = of_nat (length failures) \<and> length failures \<le> 5"
proof -
  have "of_nat (length failures) \<le> PROVIDER_RETRY_MAX_ATTEMPTS"
    by (rule pr.chain_length_int [OF assms, of 5]) (simp_all add: PROVIDER_RETRY_MAX_ATTEMPTS_def)
  then have "(of_nat (length failures) :: number) \<le> of_nat 5" by (simp add: PROVIDER_RETRY_MAX_ATTEMPTS_def)
  then show ?thesis using pr.chain_count [OF assms] by (simp only: of_nat_le_iff) simp
qed

theorem provider_chain_bounded_witness:
  "let f = \<lparr>dp_httpStatus = Some 429, dp_retryAfterMs = None, dp_priorAttempt = 0, dp_now = 0,
            dp_cumulativeDelayMs = 0, dp_random = 0, dp_retryAfterMaxMs = None\<rparr>
   in retryChain providerAgain 0 [f, f, f, f, f] = Some 5 \<and> length [f, f, f, f, f] \<le> 5"
proof -
  let ?f = "\<lparr>dp_httpStatus = Some 429, dp_retryAfterMs = None, dp_priorAttempt = 0, dp_now = 0,
            dp_cumulativeDelayMs = 0, dp_random = 0, dp_retryAfterMaxMs = None\<rparr>"
  have c: "retryChain providerAgain 0 [?f, ?f, ?f, ?f, ?f] = Some 5" by code_simp
  with provider_chain_bounded [OF c] show ?thesis by simp
qed

lemma exponential_bounds:
  fixes attempt :: number
  assumes "1 \<le> attempt"
  defines "e \<equiv> min (PROVIDER_RETRY_BASE_BACKOFF_MS * js_pow 2 (attempt - 1)) PROVIDER_RETRY_MAX_EXPONENTIAL_MS"
  shows "1000 \<le> e" "e \<le> 32000"
proof -
  have "1 \<le> js_pow 2 (attempt - 1)" using assms(1) by (simp add: js_pow_def one_le_power_int)
  then show "1000 \<le> e" by (simp add: e_def provider_constants)
  show "e \<le> 32000" by (simp add: e_def provider_constants)
qed

text \<open>an automatic retry resumes no earlier than now: without a \<open>Retry-After\<close> its delay is between
  half a second and 32 seconds and keeps the accumulated backoff within five minutes; with one, the
  delay is exactly the provider's and is at most the configured cap.\<close>

theorem provider_delay_bounds:
  assumes "decideProviderRetry opts = PD_auto_retry n d r ra" "0 \<le> dp_random opts" "dp_random opts < 1"
    "0 \<le> dp_priorAttempt opts"
  shows "r = dp_now opts + d \<and> n = dp_priorAttempt opts + 1 \<and> n \<le> 5
    \<and> (case dp_retryAfterMs opts of
         Some ms \<Rightarrow> d = ms \<and> ms \<le> orElse (dp_retryAfterMaxMs opts) PROVIDER_RETRY_AFTER_MAX_MS
       | None \<Rightarrow> 500 \<le> d \<and> d \<le> 32000 \<and> dp_cumulativeDelayMs opts + d \<le> 300000)"
proof (cases "dp_retryAfterMs opts")
  case (Some ms)
  then show ?thesis using decide_auto_retry [OF assms(1)]
    by (simp add: computeBackoffMs_def provider_constants)
next
  case None
  define e where "e = min (PROVIDER_RETRY_BASE_BACKOFF_MS * js_pow 2 (n - 1)) PROVIDER_RETRY_MAX_EXPONENTIAL_MS"
  note f = decide_auto_retry [OF assms(1)]
  have n: "1 \<le> n" using f assms(4) by simp
  note e = exponential_bounds [OF n, folded e_def]
  have d: "d = Math_floor (e / 2 + dp_random opts * (e / 2))"
    using f None by (simp add: computeBackoffMs_def e_def Let_def)
  have lo: "of_int 500 \<le> e / 2 + dp_random opts * (e / 2)"
    using e mult_nonneg_nonneg [of "dp_random opts" "e / 2"] assms(2) by linarith
  have "dp_random opts * (e / 2) \<le> e / 2" using e assms(3) by (intro mult_left_le_one_le) (auto simp: assms(2))
  then have hi: "e / 2 + dp_random opts * (e / 2) \<le> 32000" using e by linarith
  have "500 \<le> d" "d \<le> 32000" unfolding d using Math_floor_ge_int [OF lo] Math_floor_le order_trans hi by (simp, blast)
  moreover have "n \<le> PROVIDER_RETRY_MAX_ATTEMPTS" "dp_cumulativeDelayMs opts + d \<le> PROVIDER_RETRY_MAX_CUMULATIVE_MS"
    "r = dp_now opts + d" "n = dp_priorAttempt opts + 1"
    using f None by blast+
  ultimately show ?thesis using None unfolding provider_constants by simp
qed

theorem provider_delay_bounds_witness:
  "\<exists>n d r ra. decideProviderRetry \<lparr>dp_httpStatus = Some 503, dp_retryAfterMs = None, dp_priorAttempt = 2, dp_now = 1000,
      dp_cumulativeDelayMs = 3000, dp_random = 1 / 2, dp_retryAfterMaxMs = None\<rparr> = PD_auto_retry n d r ra
    \<and> n = 3 \<and> 500 \<le> d \<and> d \<le> 32000 \<and> r = 1000 + d"
proof -
  let ?o = "\<lparr>dp_httpStatus = Some 503, dp_retryAfterMs = None, dp_priorAttempt = 2, dp_now = 1000,
      dp_cumulativeDelayMs = 3000, dp_random = 1 / 2, dp_retryAfterMaxMs = None\<rparr> :: DecideProviderRetryOpts"
  have c: "decideProviderRetry ?o = PD_auto_retry 3 3000 4000 None" by code_simp
  with provider_delay_bounds [OF c] show ?thesis by simp
qed

end
