(* ===== verification/Exit_Planner.thy ===== *)
theory Exit_Planner
  imports Result_To_Facts Budget_Policy Retry_Policy
begin

text \<open>
  The planners around a dispatch that does not return a result: \<open>packages/daemon/src/abort-planner.ts\<close>
  (classification of an exit, the exit plan, the reactive budget gate, the abort-loop ceiling),
  \<open>predispatch-planner.ts\<close> (the gates before a dispatch) and \<open>lifecycle-planner.ts\<close> (pause, start,
  dispatch marker, crash and conflict terminals), with \<open>classifyAbortCause\<close> and \<open>deriveResumeOf\<close> of
  \<open>executor-helpers.ts\<close>.

  The theorems: every exit charges the dispatch's usage exactly once and ends in the disposition its
  outcome tag announces; a leak is never resumed; the watchdog retries a node at most twice; the
  routing patch of an exit passes the write gate; the pre-dispatch gates park at most once.
\<close>

section \<open>Which signal ended the dispatch\<close>

record AbortSignal =
  sg_aborted :: bool
  sg_reason :: nat \<comment> \<open>identity of the reason object\<close>

record DispatchSignals =
  sig_composite :: AbortSignal
  sig_steer :: AbortSignal
  sig_shutdown :: AbortSignal
  sig_deadlines :: "AbortSignal list"

datatype (plugins only: code size) AbortCause = AC_timeout | AC_shutdown | AC_aborted | AC_none

definition classifyAbortCause :: "DispatchSignals \<Rightarrow> AbortCause" where
  "classifyAbortCause sources =
     (let composite = sig_composite sources in
      if \<not> sg_aborted composite then AC_none
      else if list_ex (\<lambda>d. sg_aborted d \<and> sg_reason d = sg_reason composite) (sig_deadlines sources) then AC_timeout
      else if sg_aborted (sig_shutdown sources) then AC_shutdown
      else AC_aborted)"

datatype (plugins only: code size) ExitKind = EK_throw | EK_timeout | EK_abort | EK_shutdown | EK_leak

primrec EXIT_CAUSE :: "ExitKind \<Rightarrow> ustring" where
  "EXIT_CAUSE EK_throw = U ''error''"
| "EXIT_CAUSE EK_timeout = U ''timeout''"
| "EXIT_CAUSE EK_abort = U ''aborted''"
| "EXIT_CAUSE EK_shutdown = U ''shutdown''"
| "EXIT_CAUSE EK_leak = U ''leak''"

datatype (plugins only: code size) Invocation = IV_leak | IV_thrown

record ExitClassifyInput =
  ec_invocation :: Invocation
  ec_cause :: AbortCause
  ec_budgetTripped :: bool

definition classifyExit :: "ExitClassifyInput \<Rightarrow> ExitKind" where
  "classifyExit input =
     (if ec_invocation input = IV_leak then EK_leak
      else if ec_cause input = AC_none then (if ec_budgetTripped input then EK_abort else EK_throw)
      else if ec_cause input = AC_timeout then EK_timeout
      else if ec_cause input = AC_shutdown then EK_shutdown
      else EK_abort)"

definition deriveResumeOf :: "(ustring \<Rightarrow> nat \<Rightarrow> (ustring \<times> jsval) option list) \<Rightarrow> ustring \<Rightarrow> ResumeOf" where
  \<comment> \<open>the argument is the store's \<open>getLatestEvents\<close>, newest first; the first significant fact decides\<close>
  "deriveResumeOf getLatestEvents runId =
     (let significant = (\<lambda>e. case e of None \<Rightarrow> False | Some (t, _) \<Rightarrow> startsWith t (U ''fact.''))
      in case find significant (getLatestEvents runId 20) of
           Some (Some (t, payload)) \<Rightarrow>
             if t = U ''fact.run_resumed'' then
               (case payload of
                  JObj ob \<Rightarrow>
                    (let fs = obj_get ob (U ''fromStatus'') in
                     if fs = Some (JStr (U ''paused'')) then RO_paused
                     else if fs = Some (JStr (U ''paused_human'')) then RO_paused_human
                     else if fs = Some (JStr (U ''paused_auto'')) then RO_paused_auto
                     else if fs = Some (JStr (U ''quarantined'')) then RO_quarantined
                     else RO_fresh)
                | _ \<Rightarrow> RO_fresh)
             else if t = U ''fact.run_requeued_after_crash'' then RO_crash
             else RO_fresh
         | _ \<Rightarrow> RO_fresh)"

section \<open>The exit plan\<close>

definition TIMEOUT_RETRY_BACKOFF_MS_BASE :: number where "TIMEOUT_RETRY_BACKOFF_MS_BASE = 5000"
definition TIMEOUT_RETRY_BACKOFF_MS_CEILING :: number where "TIMEOUT_RETRY_BACKOFF_MS_CEILING = 60000"
definition TIMEOUT_RETRY_MAX_ATTEMPTS :: number where "TIMEOUT_RETRY_MAX_ATTEMPTS = 3"

record ExitPlanInput =
  xi_exit :: ExitKind
  xi_currentNode :: ustring
  xi_iteration :: number
  xi_errorDetail :: "ustring option"
  xi_leakedAt :: "number option"
  xi_reactiveBudgetHaltDetail :: "ustring option"
  xi_reactiveBudgetPauseBreach :: "PauseBreach option"
  xi_usage :: HaltUsage
  xi_routingDelta :: jsobj
  xi_appliedSeqs :: "int list"
  xi_effectiveRouting :: jsobj
  xi_now :: number
  xi_attemptedMs :: number

datatype (plugins only: code size) ExitOutcome = XO_halt | XO_pause | XO_timeout_retry | XO_abort_step | XO_shutdown

record ExitPlan =
  xp_facts :: "FactEvent list"
  xp_routingPatch :: "jsobj option"
  xp_advanceAppliedTo :: "int option"
  xp_outcome :: ExitOutcome

record ReactiveBudgetPlan =
  rb_haltDetail :: "ustring option"
  rb_pauseBreach :: "PauseBreach option"
  rb_events :: "ObservabilityEvent list"
  rb_newlyWarned :: "ustring list"

definition planReactiveBudget :: "BudgetInput \<Rightarrow> ReactiveBudgetPlan" where
  "planReactiveBudget input =
     (let d = evaluateBudget input;
          plan = \<lparr>rb_haltDetail = None, rb_pauseBreach = None, rb_events = bd_events d, rb_newlyWarned = bd_newlyWarned d\<rparr>
      in if bd_shouldHalt d then plan\<lparr>rb_haltDetail := Some (orElse (bd_haltReason d) [])\<rparr>
         else if bd_pauseBreach d \<noteq> None then plan\<lparr>rb_pauseBreach := bd_pauseBreach d\<rparr>
         else plan)"

definition planBudgetBreach :: "ustring option \<Rightarrow> PauseBreach option \<Rightarrow> ustring \<Rightarrow> FactEvent option" where
  "planBudgetBreach haltDetail pauseBreach nodeId =
     (case haltDetail of
        Some detail \<Rightarrow> Some (F_run_terminated (RT_errored (bareHalt HR_budget (truthy_str (Some detail)))))
      | None \<Rightarrow>
          (case pauseBreach of
             Some b \<Rightarrow> Some (F_run_paused (RP_budget nodeId (pb_scope b) (pb_metric b) (pb_limit b) (pb_actual b)))
           | None \<Rightarrow> None))"

definition computeAdvanceAppliedTo :: "int list \<Rightarrow> int option" where
  "computeAdvanceAppliedTo appliedSeqs = (if length appliedSeqs > 0 then Some (Max (set appliedSeqs)) else None)"

definition isTerminatedFact :: "FactEvent \<Rightarrow> bool" where
  "isTerminatedFact f = (case f of F_run_terminated _ \<Rightarrow> True | _ \<Rightarrow> False)"

definition planExit :: "ExitPlanInput \<Rightarrow> ExitPlan" where
  "planExit input =
     (let currentNode = xi_currentNode input; exit = xi_exit input;
          facts = exitSpendFacts currentNode (xi_iteration input) (EXIT_CAUSE exit) (xi_usage input)
                    (readGoalGateRetries (xi_effectiveRouting input));
          baseAdvance = computeAdvanceAppliedTo (xi_appliedSeqs input);
          baseRoutingPatch = (if xi_routingDelta input \<noteq> [] then Some (xi_routingDelta input) else None);
          withBase = (\<lambda>fs outcome. \<lparr>xp_facts = fs, xp_routingPatch = baseRoutingPatch, xp_advanceAppliedTo = baseAdvance,
                        xp_outcome = outcome\<rparr>)
      in if exit = EK_leak then
           withBase (facts @ [F_handler_timeout_leaked currentNode (orElse (xi_leakedAt input) (xi_now input)),
             F_run_terminated (RT_errored (bareHalt HR_error (Some (U ''handler_leaked''))))]) XO_halt
         else
         case planBudgetBreach (xi_reactiveBudgetHaltDetail input) (xi_reactiveBudgetPauseBreach input) currentNode of
           Some breach \<Rightarrow> withBase (facts @ [breach]) (if isTerminatedFact breach then XO_halt else XO_pause)
         | None \<Rightarrow>
             if exit = EK_shutdown then withBase facts XO_shutdown
             else if exit = EK_timeout then
               (let priorAttempts = rv_timeoutRetries (getRetry (xi_effectiveRouting input)) currentNode;
                    nextAttempt = priorAttempts + 1
                in if nextAttempt < TIMEOUT_RETRY_MAX_ATTEMPTS then
                     (let delayMs = min TIMEOUT_RETRY_BACKOFF_MS_CEILING (TIMEOUT_RETRY_BACKOFF_MS_BASE * js_pow 2 priorAttempts);
                          resumeAt = xi_now input + delayMs
                      in \<lparr>xp_facts = facts @ [F_run_paused (RP_timeout_retry currentNode
                             \<lparr>rt_attempt = nextAttempt, rt_delayMs = delayMs, rt_resumeAt = resumeAt,
                              rt_max = TIMEOUT_RETRY_MAX_ATTEMPTS\<rparr> (xi_attemptedMs input))],
                          xp_routingPatch = Some (obj_set (timeoutRetriesKey currentNode) (JFin nextAttempt)
                            (obj_set AUTO_RESUME_AT_KEY (JFin resumeAt) (xi_routingDelta input))),
                          xp_advanceAppliedTo = baseAdvance, xp_outcome = XO_timeout_retry\<rparr>)
                   else
                     withBase (facts @ [F_run_terminated (RT_errored (bareHalt HR_timeout_exhausted
                       (Some (numberToString TIMEOUT_RETRY_MAX_ATTEMPTS @ U '' watchdog timeouts on node '' @ [0x22] @ currentNode
                          @ [0x22] @ U ''; thread continuity preserved but progress stalled''))))]) XO_halt)
             else if exit = EK_throw then
               withBase (facts @ [F_run_terminated (RT_errored
                 (bareHalt HR_error (map_option clipFactText (truthy_str (xi_errorDetail input)))))]) XO_halt
             else withBase facts XO_abort_step)"

section \<open>The abort-loop ceiling\<close>

record AbortLoopPlan =
  al_warn :: "ObservabilityEvent option"
  al_pause :: "FactEvent option"

definition abortLoopWarning :: "ustring \<Rightarrow> number \<Rightarrow> number \<Rightarrow> ObservabilityEvent" where
  "abortLoopWarning nodeId consecutiveAborts ceil =
     \<lparr>oe_type = U ''abort_loop_warning'',
      oe_payload = [(U ''nodeId'', JStr nodeId), (U ''consecutiveAborts'', JFin consecutiveAborts), (U ''ceiling'', JFin ceil)]\<rparr>"

definition planAbortLoop :: "number \<Rightarrow> number \<Rightarrow> ustring \<Rightarrow> AbortLoopPlan" where
  "planAbortLoop consecutiveAborts ceil nodeId =
     \<lparr>al_warn = (if consecutiveAborts = ceil - 1 then Some (abortLoopWarning nodeId consecutiveAborts ceil) else None),
      al_pause = (if consecutiveAborts \<ge> ceil then Some (F_run_paused (RP_abort_loop nodeId consecutiveAborts)) else None)\<rparr>"

definition abortLoopStep :: "number \<Rightarrow> ObservabilityEvent list \<times> FactEvent option \<Rightarrow> ustring \<times> number
    \<Rightarrow> ObservabilityEvent list \<times> FactEvent option" where
  \<comment> \<open>the loop body of \<open>planAbortLoops\<close>\<close>
  "abortLoopStep ceil acc streak =
     (let plan = planAbortLoop (snd streak) ceil (fst streak)
      in (case al_warn plan of Some w \<Rightarrow> fst acc @ [w] | None \<Rightarrow> fst acc,
          if snd acc = None \<and> al_pause plan \<noteq> None then al_pause plan else snd acc))"

definition planAbortLoops :: "(ustring \<times> number) list \<Rightarrow> number \<Rightarrow> ObservabilityEvent list \<times> FactEvent option" where
  "planAbortLoops streaks ceil = foldl (abortLoopStep ceil) ([], None) streaks"

section \<open>Before a dispatch\<close>

definition PARSE_ERROR_DETAIL_MAX_BYTES :: int where "PARSE_ERROR_DETAIL_MAX_BYTES = 300"

definition workflowParseFailedDetail :: "ustring option \<Rightarrow> ustring" where
  "workflowParseFailedDetail errorMessage =
     (case truthy_str errorMessage of
        None \<Rightarrow> U ''workflow_parse_failed''
      | Some m \<Rightarrow> U ''workflow_parse_failed: '' @ clipPayloadText m PARSE_ERROR_DETAIL_MAX_BYTES)"

definition planLoopCeiling :: "number \<Rightarrow> number \<Rightarrow> FactEvent option" where
  "planLoopCeiling dispatches effectiveMaxLoops =
     (if dispatches < effectiveMaxLoops then None else Some (maxLoopsPause effectiveMaxLoops dispatches))"

record PreDispatchInput =
  pi_state :: RunState
  pi_windowMin :: number
  pi_windowMax :: number
  pi_graphParseError :: "ustring option"
  pi_worktreeError :: "ustring option"
  pi_dispatches :: number
  pi_effectiveMaxLoops :: number

record PreDispatchPlan =
  pp_facts :: "FactEvent list"
  pp_routingPatch :: "jsobj option"
  pp_terminal :: bool

definition planPreDispatch :: "PreDispatchInput \<Rightarrow> PreDispatchPlan" where
  "planPreDispatch input =
     (let version = rn_contractVersion (pi_state input);
          park = (\<lambda>f. \<lparr>pp_facts = [f], pp_routingPatch = None, pp_terminal = True\<rparr>)
      in if version < pi_windowMin input \<or> version > pi_windowMax input then
           park (F_run_paused (RP_engine_incompatible version (pi_windowMin input) (pi_windowMax input)))
         else
         case pi_graphParseError input of
           Some m \<Rightarrow> park (F_run_terminated (RT_errored (bareHalt HR_error (Some (workflowParseFailedDetail (Some m))))))
         | None \<Rightarrow>
         (case pi_worktreeError input of
           Some m \<Rightarrow> park (F_run_terminated (RT_errored
             (bareHalt HR_worktree_error (Some (U ''worktree_provision_failed: '' @ clipFactText m)))))
         | None \<Rightarrow>
         (case planLoopCeiling (pi_dispatches input) (pi_effectiveMaxLoops input) of
           Some f \<Rightarrow> park f
         | None \<Rightarrow> \<lparr>pp_facts = [], pp_routingPatch = None, pp_terminal = False\<rparr>)))"

section \<open>Lifecycle facts\<close>

definition planOperatorPause :: "ustring \<Rightarrow> FactEvent list" where
  "planOperatorPause nodeId = [F_run_paused (RP_operator nodeId)]"

definition planRunStarted :: "RunStartedPayload \<Rightarrow> FactEvent list" where
  \<comment> \<open>the input has the fields of the payload; the conditional spreads keep its optional ones\<close>
  "planRunStarted input = [F_run_started input]"

definition planDispatchStarted :: "ustring \<Rightarrow> number \<Rightarrow> number \<Rightarrow> ResumeOf \<Rightarrow> FactEvent list" where
  "planDispatchStarted nodeId iteration pass resumeOf =
     [F_dispatch_started \<lparr>ds_nodeId = nodeId, ds_iteration = iteration, ds_pass = passField pass, ds_resumeOf = resumeOf\<rparr>]"

definition planCrashHalt :: "ustring \<Rightarrow> FactEvent list option \<Rightarrow> FactEvent list" where
  "planCrashHalt detail spend =
     orElse spend [] @ [F_run_terminated (RT_errored (bareHalt HR_error (Some (clipFactText detail))))]"

definition CRASH_HALT_MINIMAL_DETAIL :: ustring where
  "CRASH_HALT_MINIMAL_DETAIL = U ''executor crashed (detail exceeded payload cap)''"

definition planCrashHaltMinimal :: "FactEvent list option \<Rightarrow> FactEvent list" where
  "planCrashHaltMinimal spend =
     orElse spend [] @ [F_run_terminated (RT_errored (bareHalt HR_error (Some CRASH_HALT_MINIMAL_DETAIL)))]"

definition planOccExhausted :: "OccContext \<Rightarrow> FactEvent list option \<Rightarrow> FactEvent list" where
  \<comment> \<open>the input's five values are those of \<open>occContext\<close>\<close>
  "planOccExhausted c spend =
     orElse spend [] @ [F_run_terminated (RT_errored ((bareHalt HR_occ_exhausted
        (Some (clipFactText (numberToString (occ_count c) @ U '' consecutive OCC conflicts on '' @ occ_attemptedFactType c
           @ U '' for node '' @ occ_nodeId c))))\<lparr>re_occContext := Some c\<rparr>))]"

section \<open>What an exit charges and where it leaves the run\<close>

lemmas planExit_simps = planExit_def Let_def planBudgetBreach_def isTerminatedFact_def

lemma foldFacts_Cons: "foldFacts s (f # fs) now = foldFacts (applyFact s f now) fs now"
  by (simp add: foldFacts_def)

lemma foldFacts_Nil [simp]: "foldFacts s [] now = s"
  by (simp add: foldFacts_def)

lemma status_of_fact:
  "rn_status (applyFact s (F_node_aborted p) now) = rn_status s"
  "rn_status (applyFact s (F_handler_timeout_leaked n t) now) = rn_status s"
  "rn_status (applyFact s (F_run_terminated (RT_errored e)) now) = St_halted"
  "rn_status (applyFact s (F_run_paused rp) now) = pausedStatus rp"
  by (simp_all add: applyFact_def status_terminated)

lemma paused_reasons:
  "pausedStatus (RP_budget n sc m l a) = St_paused" "pausedStatus (RP_timeout_retry n t ms) = St_paused_auto"
  by (simp_all add: pausedStatus_def AUTO_WAKE_PAUSE_REASONS_def)

primrec outcomeStatusAfter :: "ExitOutcome \<Rightarrow> RunStatus \<Rightarrow> RunStatus" where
  \<comment> \<open>the documented meaning of an outcome tag\<close>
  "outcomeStatusAfter XO_halt st = St_halted"
| "outcomeStatusAfter XO_pause st = St_paused"
| "outcomeStatusAfter XO_timeout_retry st = St_paused_auto"
| "outcomeStatusAfter XO_abort_step st = st"
| "outcomeStatusAfter XO_shutdown st = st"

lemma planExit_status:
  "rn_status (foldFacts s (xp_facts (planExit i)) now) = outcomeStatusAfter (xp_outcome (planExit i)) (rn_status s)"
  by (cases "xi_exit i"; cases "xi_reactiveBudgetHaltDetail i"; cases "xi_reactiveBudgetPauseBreach i")
    (simp_all add: planExit_simps exitSpendFacts_def foldFacts_Cons status_of_fact paused_reasons)

lemma planExit_charge: "batchUsage u (xp_facts (planExit i)) = chargeOf u (xi_usage i)"
  by (simp add: planExit_simps split: option.splits)

text \<open>C17: however a dispatch ends without a result (error, deadline, abort, shutdown, leak, budget trip),
  folding the plan's facts charges the run exactly the dispatch's usage, once, and leaves it in the
  status the outcome tag stands for: halted, paused, paused until the watchdog's timer, or as it was.
  A leaked handler always halts the run, whatever budget breach came with it.\<close>

theorem planExit_folded:
  "totalOf u (rn_metrics (foldFacts s (xp_facts (planExit i)) now)) = totalOf u (rn_metrics s) + chargeOf u (xi_usage i)
   \<and> rn_status (foldFacts s (xp_facts (planExit i)) now) = outcomeStatusAfter (xp_outcome (planExit i)) (rn_status s)
   \<and> xp_outcome (planExit (i\<lparr>xi_exit := EK_leak\<rparr>)) = XO_halt"
  using foldFacts_total [of u s "xp_facts (planExit i)" now] planExit_charge [of u i]
  by (simp add: planExit_status batchUsage_def) (simp add: planExit_simps)

section \<open>The watchdog\<close>

definition watchdogAgain :: "ustring \<Rightarrow> number \<Rightarrow> ExitPlanInput \<Rightarrow> number option" where
  \<comment> \<open>one more dispatch of a node: the counter the exit plan writes when it retries\<close>
  "watchdogAgain nodeId c i =
     (let plan = planExit (i\<lparr>xi_currentNode := nodeId,
            xi_effectiveRouting := obj_set (timeoutRetriesKey nodeId) (JFin c) (xi_effectiveRouting i)\<rparr>)
      in if xp_outcome plan = XO_timeout_retry
         then Some (rv_timeoutRetries (getRetry (orElse (xp_routingPatch plan) [])) nodeId) else None)"

lemma timeoutRetries_read:
  "rv_timeoutRetries (getRetry ob) n = (case obj_get ob (timeoutRetriesKey n) of Some (JNum (Fin r)) \<Rightarrow> r | _ \<Rightarrow> 0)"
  by (simp add: getRetry_def finiteNumber_def)

interpretation wd: bounded_retry "watchdogAgain nodeId" "TIMEOUT_RETRY_MAX_ATTEMPTS - 1" for nodeId
proof
  fix c i c'
  assume "watchdogAgain nodeId c i = Some c'"
  then show "c' = c + 1 \<and> c < TIMEOUT_RETRY_MAX_ATTEMPTS - 1"
    by (auto simp: watchdogAgain_def planExit_simps timeoutRetries_read obj_simps split: if_splits option.splits)
qed

text \<open>the watchdog gives up: whatever happens in between, a node is put to sleep and retried after
  at most two deadlines; the third one in a row halts the run.\<close>

theorem watchdog_bounded:
  assumes "retryChain (watchdogAgain nodeId) 0 exits = Some c"
  shows "c = of_nat (length exits) \<and> length exits \<le> 2"
proof -
  have "of_nat (length exits) \<le> TIMEOUT_RETRY_MAX_ATTEMPTS - 1"
    by (rule wd.chain_length_int [OF assms, of 2]) (simp_all add: TIMEOUT_RETRY_MAX_ATTEMPTS_def)
  then have "(of_nat (length exits) :: number) \<le> of_nat 2" by (simp add: TIMEOUT_RETRY_MAX_ATTEMPTS_def)
  then show ?thesis using wd.chain_count [OF assms] by (simp only: of_nat_le_iff) simp
qed

definition sampleExit :: ExitPlanInput where
  "sampleExit = \<lparr>xi_exit = EK_timeout, xi_currentNode = U ''n'', xi_iteration = 0, xi_errorDetail = None, xi_leakedAt = None,
     xi_reactiveBudgetHaltDetail = None, xi_reactiveBudgetPauseBreach = None, xi_usage = noUsage, xi_routingDelta = [],
     xi_appliedSeqs = [4, 9], xi_effectiveRouting = [], xi_now = 100, xi_attemptedMs = 50\<rparr>"

theorem watchdog_bounded_witness:
  "retryChain (watchdogAgain (U ''n'')) 0 [sampleExit, sampleExit] = Some 2 \<and> length [sampleExit, sampleExit] \<le> 2"
proof -
  have "retryChain (watchdogAgain (U ''n'')) 0 [sampleExit, sampleExit] = Some 2"
    by (simp add: watchdogAgain_def planExit_simps timeoutRetries_read obj_simps sampleExit_def TIMEOUT_RETRY_MAX_ATTEMPTS_def)
  from watchdog_bounded [OF this] this show ?thesis by simp
qed

section \<open>The exit's routing patch passes the write gate\<close>

text \<open>the routing patch of an exit is one the store accepts, whenever the turn's intent delta is, for
  any named node: the wake timer and the timeout counter it adds are keys of the right kind. And no
  intent of the turn is lost: each key of the delta other than those two keeps its value.\<close>

theorem planExit_patch_ok:
  assumes "patchOk (xi_routingDelta i)" "xi_currentNode i \<noteq> []"
  shows "patchOk (orElse (xp_routingPatch (planExit i)) [])
    \<and> (k \<in> {AUTO_RESUME_AT_KEY, timeoutRetriesKey (xi_currentNode i)}
       \<or> obj_get (orElse (xp_routingPatch (planExit i)) []) k = obj_get (xi_routingDelta i) k)"
proof -
  have "patchOk (obj_set (timeoutRetriesKey (xi_currentNode i)) (JFin n) (obj_set AUTO_RESUME_AT_KEY (JFin r) (xi_routingDelta i)))"
    for n r using assms by (intro patch_gate.accepts_set entry_number) (simp_all add: kinds)
  with assms(1) show ?thesis by (auto simp: planExit_simps obj_simps split: option.splits)
qed

theorem planExit_patch_ok_witness:
  "xp_routingPatch (planExit (sampleExit\<lparr>xi_routingDelta := [(PRIORITY_KEY, JFin 3)]\<rparr>))
     = Some [(PRIORITY_KEY, JFin 3), (AUTO_RESUME_AT_KEY, JFin 5100), (timeoutRetriesKey (U ''n''), JFin 1)]
   \<and> patchOk [(PRIORITY_KEY, JFin 3), (AUTO_RESUME_AT_KEY, JFin 5100), (timeoutRetriesKey (U ''n''), JFin 1)]"
proof -
  let ?i = "sampleExit\<lparr>xi_routingDelta := [(PRIORITY_KEY, JFin 3)]\<rparr>"
  have d: "patchOk (xi_routingDelta ?i)"
    by (simp add: patch_gate.accepts_Cons entry_number kinds sampleExit_def validateRoutingPatch.simps(1))
  have n: "xi_currentNode ?i \<noteq> []" by (simp add: sampleExit_def)
  have p: "xp_routingPatch (planExit ?i)
      = Some [(PRIORITY_KEY, JFin 3), (AUTO_RESUME_AT_KEY, JFin 5100), (timeoutRetriesKey (U ''n''), JFin 1)]"
    by (simp add: planExit_simps sampleExit_def TIMEOUT_RETRY_MAX_ATTEMPTS_def getRetry_def finiteNumber_def js_pow_def
        TIMEOUT_RETRY_BACKOFF_MS_BASE_def TIMEOUT_RETRY_BACKOFF_MS_CEILING_def routing_keys timeoutRetriesKey_def ustr)
  show ?thesis using planExit_patch_ok [OF d n] p by simp
qed

section \<open>The abort-loop ceiling over a fan-out\<close>

lemma abortLoop_fold:
  "foldl (abortLoopStep ceil) (ws, p) streaks =
     (ws @ map (\<lambda>(n, c). abortLoopWarning n c ceil) (filter (\<lambda>(n, c). c = ceil - 1) streaks),
      orOption p (map_option (\<lambda>(n, c). F_run_paused (RP_abort_loop n c)) (find (\<lambda>(n, c). c \<ge> ceil) streaks)))"
  by (induction streaks arbitrary: ws p)
    (auto simp: abortLoopStep_def planAbortLoop_def Let_def orOption_def split: option.splits)

text \<open>over the streaks of a fan-out's branches, a warning is emitted for exactly the branches one
  abort below the ceiling, in branch order, and the run is paused exactly when some branch is at or
  past it, naming the first such branch; no branch is both warned about and at the ceiling.\<close>

theorem planAbortLoops_spec:
  "planAbortLoops streaks ceil =
     (map (\<lambda>(n, c). abortLoopWarning n c ceil) (filter (\<lambda>(n, c). c = ceil - 1) streaks),
      map_option (\<lambda>(n, c). F_run_paused (RP_abort_loop n c)) (find (\<lambda>(n, c). c \<ge> ceil) streaks))
   \<and> filter (\<lambda>(n, c). c = ceil - 1 \<and> c \<ge> ceil) streaks = []"
  by (auto simp: planAbortLoops_def abortLoop_fold filter_empty_conv)

section \<open>The pre-dispatch gates\<close>

text \<open>before a dispatch at most one fact is planned, it is a disposition that charges nothing, and it
  is there exactly when the plan ends the turn; the dispatch goes ahead exactly when the pinned
  contract version is inside the daemon's window, the workflow parses, the worktree is there and the
  dispatch count is below the ceiling.\<close>

theorem planPreDispatch_gates:
  "length (pp_facts (planPreDispatch i)) = (if pp_terminal (planPreDispatch i) then 1 else 0)
   \<and> filter isDisposition (pp_facts (planPreDispatch i)) = pp_facts (planPreDispatch i)
   \<and> batchUsage u (pp_facts (planPreDispatch i)) = 0
   \<and> (\<not> pp_terminal (planPreDispatch i))
     = (pi_windowMin i \<le> rn_contractVersion (pi_state i) \<and> rn_contractVersion (pi_state i) \<le> pi_windowMax i
        \<and> pi_graphParseError i = None \<and> pi_worktreeError i = None \<and> pi_dispatches i < pi_effectiveMaxLoops i)"
  by (auto simp: planPreDispatch_def Let_def planLoopCeiling_def maxLoopsPause_def split: option.splits)

section \<open>Terminal details fit the payload budget\<close>

definition detailSize :: "FactEvent \<Rightarrow> nat" where
  \<comment> \<open>bytes of the detail of an errored terminal, as it is written into the payload\<close>
  "detailSize f = (case f of F_run_terminated (RT_errored e) \<Rightarrow> byteLength (JSON_quote (orElse (re_detail e) [])) | _ \<Rightarrow> 0)"

lemma escapedSize_literals:
  "escapedSize (U ''workflow_parse_failed: '') = 23" "escapedSize (U ''worktree_provision_failed: '') = 27"
  "escapedSize (U ''workflow_parse_failed'') = 21" "escapedSize [] = 0"
  by (simp_all add: escapedSize_def ustr isHigh_def escapedBytes_def)

lemma detail_prefixed:
  "escapedSize (U ''workflow_parse_failed: '' @ clipPayloadText m n) \<le> 23 + nat n"
  "escapedSize (U ''worktree_provision_failed: '' @ clipPayloadText m n) \<le> 27 + nat n"
  using escapedSize_prefixed [of "U ''workflow_parse_failed: ''" m n] escapedSize_prefixed [of "U ''worktree_provision_failed: ''" m n]
  by (simp_all add: escapedSize_literals) (simp_all add: ustr isHigh_def)

text \<open>the terminals that quote foreign text stay small: whatever an exception, a parser or a git
  command says, however long a node id is, the JSON text of the detail that a crash, a lost commit
  race, an unparseable workflow or a missing worktree is recorded with is at most 29 bytes (prefix
  and quotes) over the fact-text budget.\<close>

theorem terminal_details_bounded:
  "list_all (\<lambda>f. detailSize f \<le> nat FACT_TEXT_MAX_BYTES + 29)
     (planCrashHalt d None @ planOccExhausted c None @ pp_facts (planPreDispatch i))"
proof -
  have clip: "byteLength (JSON_quote (clipFactText t)) \<le> nat FACT_TEXT_MAX_BYTES + 29" for t
    using clip_escapedSize [of t FACT_TEXT_MAX_BYTES] by (simp add: byteLength_JSON_quote clipFactText_def)
  have parse: "byteLength (JSON_quote (workflowParseFailedDetail m)) \<le> nat FACT_TEXT_MAX_BYTES + 29" for m
  proof (cases "truthy_str m")
    case (Some t)
    then show ?thesis using detail_prefixed(1) [of t PARSE_ERROR_DETAIL_MAX_BYTES]
      by (simp add: workflowParseFailedDetail_def byteLength_JSON_quote PARSE_ERROR_DETAIL_MAX_BYTES_def FACT_TEXT_MAX_BYTES_def)
  qed (simp add: workflowParseFailedDetail_def byteLength_JSON_quote escapedSize_literals FACT_TEXT_MAX_BYTES_def)
  have tree: "byteLength (JSON_quote (U ''worktree_provision_failed: '' @ clipFactText m)) \<le> nat FACT_TEXT_MAX_BYTES + 29" for m
    using detail_prefixed(2) [of m FACT_TEXT_MAX_BYTES] by (simp add: byteLength_JSON_quote clipFactText_def)
  have pre: "list_all (\<lambda>f. detailSize f \<le> nat FACT_TEXT_MAX_BYTES + 29) (pp_facts (planPreDispatch i))"
    using parse tree
    by (simp add: planPreDispatch_def Let_def planLoopCeiling_def maxLoopsPause_def detailSize_def bareHalt_def split: option.splits)
  show ?thesis
    using clip pre by (simp add: planCrashHalt_def planOccExhausted_def detailSize_def bareHalt_def)
qed

end
