(* ===== verification/Goal_Gate.thy ===== *)
theory Goal_Gate
  imports Retry_Policy
begin

text \<open>
  The goal-gate reducer, \<open>packages/core/src/engine/goal-gate-policy.ts\<close>: at a terminal, every
  visited gate must have succeeded, or the run is sent back to the failed gate's retry target as
  long as the retarget counter is below the cap.
\<close>

section \<open>Definitions\<close>

datatype (plugins only: code size) GateCheck = GC_satisfied | GC_failed ustring

fun check_gates :: "(ustring \<times> Node) list \<Rightarrow> (ustring \<times> OutcomeStatus) list \<Rightarrow> GateCheck" where
  \<comment> \<open>the loop over \<open>Object.values(graph.nodes)\<close>\<close>
  "check_gates [] outcomes = GC_satisfied"
| "check_gates ((_, node) # rest) outcomes =
     (if na_goal_gate (nd_attrs node) \<noteq> Some True then check_gates rest outcomes
      else
        case obj_get outcomes (nd_id node) of
          None \<Rightarrow> check_gates rest outcomes
        | Some status \<Rightarrow> if status = OS_success then check_gates rest outcomes else GC_failed (nd_id node))"

definition checkGoalGates :: "Graph \<Rightarrow> (ustring \<times> OutcomeStatus) list \<Rightarrow> GateCheck" where
  "checkGoalGates graph outcomes = check_gates (gr_nodes graph) outcomes"

definition resolveRetargetChain :: "Graph \<Rightarrow> ustring \<Rightarrow> ustring option" where
  "resolveRetargetChain graph failedGateId =
     (case Option.bind (obj_get (gr_nodes graph) failedGateId) (\<lambda>gate. na_retry_target (nd_attrs gate)) of
        Some tgt \<Rightarrow> if tgt \<noteq> [] \<and> obj_get (gr_nodes graph) tgt \<noteq> None then Some tgt else None
      | None \<Rightarrow> None)"

datatype (plugins only: code size) GoalGateAction =
    GG_exit
  | GG_retarget ustring ustring number \<comment> \<open>gate target nextRetries\<close>
  | GG_halt ustring \<comment> \<open>gate; reason \<open>goal_gate_unsatisfied\<close>\<close>

record GoalGateInput =
  gi_graph :: Graph
  gi_outcomes :: "(ustring \<times> OutcomeStatus) list"
  gi_retries :: number
  gi_gateCap :: number
  gi_capOverride :: "number option"

definition gateCapOf :: "GoalGateInput \<Rightarrow> number" where
  \<comment> \<open>\<open>capOverride && capOverride > 0 ? capOverride : gateCap\<close>\<close>
  "gateCapOf input = (case gi_capOverride input of Some c \<Rightarrow> if c > 0 then c else gi_gateCap input
     | None \<Rightarrow> gi_gateCap input)"

definition goalGateStep :: "GoalGateInput \<Rightarrow> GoalGateAction" where
  "goalGateStep input =
     (case checkGoalGates (gi_graph input) (gi_outcomes input) of
        GC_satisfied \<Rightarrow> GG_exit
      | GC_failed failedGate \<Rightarrow>
          if gi_retries input \<ge> gateCapOf input then GG_halt failedGate
          else
            case resolveRetargetChain (gi_graph input) failedGate of
              None \<Rightarrow> GG_halt failedGate
            | Some target \<Rightarrow> GG_retarget failedGate target (gi_retries input + 1))"

section \<open>Properties\<close>

definition unsatisfied :: "(ustring \<times> OutcomeStatus) list \<Rightarrow> Node \<Rightarrow> bool" where
  \<comment> \<open>a gate that was visited and did not succeed\<close>
  "unsatisfied outcomes n = (na_goal_gate (nd_attrs n) = Some True
     \<and> obj_get outcomes (nd_id n) \<notin> {None, Some OS_success})"

lemma check_gates_find:
  "check_gates ns outcomes = (case find (unsatisfied outcomes) (map snd ns) of
     None \<Rightarrow> GC_satisfied | Some n \<Rightarrow> GC_failed (nd_id n))"
  by (induction ns outcomes rule: check_gates.induct) (auto simp: unsatisfied_def split: option.splits)

text \<open>at a terminal the run exits exactly when every visited gate succeeded; otherwise the first
  unsatisfied gate in node order is the one reported, the run is redirected to that gate's own
  retry target, which exists in the graph, exactly while the retarget count is below the cap, and
  halts in every other case.\<close>

theorem goalGateStep_spec:
  "goalGateStep i =
     (case find (unsatisfied (gi_outcomes i)) (map snd (gr_nodes (gi_graph i))) of
        None \<Rightarrow> GG_exit
      | Some gate \<Rightarrow>
          (case resolveRetargetChain (gi_graph i) (nd_id gate) of
             None \<Rightarrow> GG_halt (nd_id gate)
           | Some target \<Rightarrow>
               if gi_retries i < gateCapOf i then GG_retarget (nd_id gate) target (gi_retries i + 1)
               else GG_halt (nd_id gate)))
   \<and> (goalGateStep i = GG_exit) = list_all (\<lambda>(_, n). \<not> unsatisfied (gi_outcomes i) n) (gr_nodes (gi_graph i))"
proof
  show 1: "goalGateStep i =
     (case find (unsatisfied (gi_outcomes i)) (map snd (gr_nodes (gi_graph i))) of
        None \<Rightarrow> GG_exit
      | Some gate \<Rightarrow>
          (case resolveRetargetChain (gi_graph i) (nd_id gate) of
             None \<Rightarrow> GG_halt (nd_id gate)
           | Some target \<Rightarrow>
               if gi_retries i < gateCapOf i then GG_retarget (nd_id gate) target (gi_retries i + 1)
               else GG_halt (nd_id gate)))"
    by (auto simp: goalGateStep_def checkGoalGates_def check_gates_find split: option.splits)
  have "(goalGateStep i = GG_exit) = (find (unsatisfied (gi_outcomes i)) (map snd (gr_nodes (gi_graph i))) = None)"
    unfolding 1 by (auto split: option.splits)
  also have "\<dots> = list_all (\<lambda>(_, n). \<not> unsatisfied (gi_outcomes i) n) (gr_nodes (gi_graph i))"
    by (auto simp: find_None_iff list_all_iff)
  finally show "(goalGateStep i = GG_exit) = list_all (\<lambda>(_, n). \<not> unsatisfied (gi_outcomes i) n) (gr_nodes (gi_graph i))" .
qed

lemma retarget_exists:
  "goalGateStep i = GG_retarget gate target n \<Longrightarrow>
     obj_get (gr_nodes (gi_graph i)) target \<noteq> None \<and> target \<noteq> [] \<and> n = gi_retries i + 1 \<and> gi_retries i < gateCapOf i"
  by (auto simp: goalGateStep_def resolveRetargetChain_def split: GateCheck.splits if_splits option.splits)

definition retargetAgain :: "number \<Rightarrow> number \<Rightarrow> GoalGateInput \<Rightarrow> number option" where
  "retargetAgain cap c i =
     (case goalGateStep (i\<lparr>gi_retries := c, gi_gateCap := cap, gi_capOverride := None\<rparr>) of
        GG_retarget _ _ n \<Rightarrow> Some n | _ \<Rightarrow> None)"

interpretation gr: bounded_retry "retargetAgain cap" cap for cap
proof
  fix c i c'
  assume "retargetAgain cap c i = Some c'"
  then obtain g t where "goalGateStep (i\<lparr>gi_retries := c, gi_gateCap := cap, gi_capOverride := None\<rparr>) = GG_retarget g t c'"
    by (auto simp: retargetAgain_def split: GoalGateAction.splits)
  from retarget_exists [OF this] show "c' = c + 1 \<and> c < cap" by (simp add: gateCapOf_def)
qed

text \<open>under a cap of \<open>n\<close> a run is redirected by its gates at most \<open>n\<close> times, whatever outcomes the
  gates record on each pass and whatever the graph is.\<close>

theorem goal_gate_retargets_bounded:
  assumes "retryChain (retargetAgain (of_nat n)) 0 passes = Some c"
  shows "c = of_nat (length passes) \<and> length passes \<le> n"
proof -
  have "of_nat (length passes) \<le> (of_nat n :: number)"
    by (rule gr.chain_length_int [OF assms, of "int n"]) simp_all
  then show ?thesis using gr.chain_count [OF assms] by simp
qed

theorem goal_gate_retargets_bounded_witness:
  "let gate = \<lparr>nd_id = U ''v'', nd_type = NT_llm,
          nd_attrs = noAttrs\<lparr>na_goal_gate := Some True, na_retry_target := Some (U ''v'')\<rparr>\<rparr>;
       g = \<lparr>gr_id = U ''g'', gr_attrs = noGraphAttrs, gr_nodes = [(U ''v'', gate)], gr_edges = []\<rparr>;
       p = \<lparr>gi_graph = g, gi_outcomes = [(U ''v'', OS_fail)], gi_retries = 0, gi_gateCap = 2, gi_capOverride = None\<rparr>
   in retryChain (retargetAgain (of_nat 2)) 0 [p, p] = Some 2 \<and> length [p, p] \<le> 2"
proof -
  let ?gate = "\<lparr>nd_id = U ''v'', nd_type = NT_llm,
          nd_attrs = noAttrs\<lparr>na_goal_gate := Some True, na_retry_target := Some (U ''v'')\<rparr>\<rparr>"
  let ?g = "\<lparr>gr_id = U ''g'', gr_attrs = noGraphAttrs, gr_nodes = [(U ''v'', ?gate)], gr_edges = []\<rparr>"
  let ?p = "\<lparr>gi_graph = ?g, gi_outcomes = [(U ''v'', OS_fail)], gi_retries = 0, gi_gateCap = 2, gi_capOverride = None\<rparr>"
  have c: "retryChain (retargetAgain (of_nat 2)) 0 [?p, ?p] = Some 2"
    by (simp add: retargetAgain_def goalGateStep_def checkGoalGates_def resolveRetargetChain_def gateCapOf_def noAttrs_def)
  with goal_gate_retargets_bounded [OF c] show ?thesis by simp
qed

end
