(* ===== verification/Intent_Fold.thy ===== *)
theory Intent_Fold
  imports Routing
begin

text \<open>
  The intent fold, \<open>packages/core/src/handler/intent-fold.ts\<close>: the operator intents collected
  between two node turns are reduced to one decision. A payload is the object read from the log, its
  fields are inspected as the code inspects them. The loop of the source fills one accumulator per
  kind of intent; the specification theorem states its result with filters over the batch.
\<close>

section \<open>Definitions\<close>

datatype (plugins only: code size) IntentType = IT_run_enqueued | IT_steering_requested | IT_pause_requested | IT_cancel_requested
  | IT_human_input | IT_resume | IT_unquarantine | IT_priority_adjusted | IT_budget_adjusted
  | IT_max_retries_adjusted | IT_goal_gate_adjusted | IT_max_loops_adjusted
  | IT_other ustring \<comment> \<open>any other type: no arm of the switch\<close>

datatype (plugins only: code size) DroppedReason = DR_wrong_state | DR_superseded_by_cancel | DR_later_input_won | DR_already_paused

record DroppedIntent =
  di_seq :: int
  di_type :: IntentType
  di_reason :: DroppedReason

record IntentFoldEvent =
  ie_seq :: int
  ie_type :: IntentType
  ie_payload :: jsobj

record ProceedDecision =
  pd_routingDelta :: jsobj
  pd_steering :: "ustring option"
  pd_humanInput :: "jsobj option"
  pd_shouldPause :: bool
  pd_shouldPauseAfterDispatch :: bool
  pd_appliedSeqs :: "int list"
  pd_dropped :: "DroppedIntent list"

datatype (plugins only: code size) IntentDecision =
    ID_cancel int "jsval option" "DroppedIntent list" \<comment> \<open>intentSeq reason dropped\<close>
  | ID_proceed ProceedDecision

definition firstCancel :: "IntentFoldEvent list \<Rightarrow> IntentFoldEvent option" where
  "firstCancel intents =
     foldl (\<lambda>first ev.
       if ie_type ev = IT_cancel_requested then
         (case first of None \<Rightarrow> Some ev | Some f \<Rightarrow> if ie_seq ev < ie_seq f then Some ev else first)
       else first) None intents"

definition dropAs :: "DroppedReason \<Rightarrow> IntentFoldEvent \<Rightarrow> DroppedIntent" where
  "dropAs reason ev = \<lparr>di_seq = ie_seq ev, di_type = ie_type ev, di_reason = reason\<rparr>"

definition positiveNumber :: "jsval option \<Rightarrow> bool" where
  \<comment> \<open>\<open>typeof v === "number" && v > 0\<close>\<close>
  "positiveNumber v = (case v of Some (JNum n) \<Rightarrow> js_pos n | _ \<Rightarrow> False)"

definition field :: "IntentFoldEvent \<Rightarrow> string \<Rightarrow> jsval option" where
  "field ev name = obj_get (ie_payload ev) (U name)"

definition fieldString :: "IntentFoldEvent \<Rightarrow> string \<Rightarrow> ustring option" where
  "fieldString ev name = (case field ev name of Some (JStr s) \<Rightarrow> Some s | _ \<Rightarrow> None)"

definition scopeOf :: "IntentFoldEvent \<Rightarrow> BudgetScope option" where
  "scopeOf ev = (if fieldString ev ''scope'' = Some (U ''node'') then Some BS_node
     else if fieldString ev ''scope'' = Some (U ''run'') then Some BS_run else None)"

definition metricOf :: "IntentFoldEvent \<Rightarrow> BudgetMetric option" where
  "metricOf ev = (if fieldString ev ''metric'' = Some (U ''cost'') then Some BM_cost
     else if fieldString ev ''metric'' = Some (U ''tokens'') then Some BM_tokens else None)"

record FoldAcc =
  fa_routingDelta :: jsobj
  fa_steerEvents :: "(int \<times> ustring) list"
  fa_humanEvents :: "IntentFoldEvent list"
  fa_priorityEvents :: "IntentFoldEvent list"
  fa_pauseSeqs :: "int list"
  fa_dropped :: "DroppedIntent list"
  fa_applied :: "int list"

definition addDropped :: "DroppedReason \<Rightarrow> IntentFoldEvent \<Rightarrow> FoldAcc \<Rightarrow> FoldAcc" where
  "addDropped reason ev acc = acc\<lparr>fa_dropped := fa_dropped acc @ [dropAs reason ev]\<rparr>"

definition setDelta :: "ustring \<Rightarrow> jsval \<Rightarrow> FoldAcc \<Rightarrow> FoldAcc" where
  "setDelta k v acc = acc\<lparr>fa_routingDelta := obj_set k v (fa_routingDelta acc)\<rparr>"

definition foldSwitch :: "bool \<Rightarrow> bool \<Rightarrow> FoldAcc \<Rightarrow> IntentFoldEvent \<Rightarrow> FoldAcc" where
  \<comment> \<open>the switch of the loop body\<close>
  "foldSwitch isDispatching isPaused acc ev =
     (case ie_type ev of
        IT_pause_requested \<Rightarrow>
          if isPaused then addDropped DR_already_paused ev acc
          else if \<not> isDispatching then addDropped DR_wrong_state ev acc
          else acc\<lparr>fa_pauseSeqs := fa_pauseSeqs acc @ [ie_seq ev]\<rparr>
      | IT_steering_requested \<Rightarrow>
          (case fieldString ev ''text'' of
             Some text \<Rightarrow>
               if (isDispatching \<or> isPaused) \<and> length text > 0
               then acc\<lparr>fa_steerEvents := fa_steerEvents acc @ [(ie_seq ev, text)]\<rparr>
               else if \<not> isDispatching \<and> \<not> isPaused then addDropped DR_wrong_state ev acc
               else acc
           | None \<Rightarrow> if \<not> isDispatching \<and> \<not> isPaused then addDropped DR_wrong_state ev acc else acc)
      | IT_human_input \<Rightarrow>
          if isDispatching \<or> isPaused then acc\<lparr>fa_humanEvents := fa_humanEvents acc @ [ev]\<rparr>
          else addDropped DR_wrong_state ev acc
      | IT_priority_adjusted \<Rightarrow> acc\<lparr>fa_priorityEvents := fa_priorityEvents acc @ [ev]\<rparr>
      | IT_budget_adjusted \<Rightarrow>
          (case (scopeOf ev, metricOf ev, field ev ''newLimit'') of
             (Some scope, Some metric, Some limit) \<Rightarrow>
               if positiveNumber (Some limit) then setDelta (budgetOverrideKey scope metric) limit acc
               else addDropped DR_wrong_state ev acc
           | _ \<Rightarrow> addDropped DR_wrong_state ev acc)
      | IT_max_retries_adjusted \<Rightarrow>
          (case (fieldString ev ''nodeId'', field ev ''newLimit'') of
             (Some nodeId, Some limit) \<Rightarrow>
               if length nodeId > 0 \<and> positiveNumber (Some limit) then setDelta (maxRetriesOverrideKey nodeId) limit acc
               else addDropped DR_wrong_state ev acc
           | _ \<Rightarrow> addDropped DR_wrong_state ev acc)
      | IT_goal_gate_adjusted \<Rightarrow>
          (case field ev ''newLimit'' of
             Some limit \<Rightarrow>
               if positiveNumber (Some limit) then setDelta MAX_GOAL_GATE_RETRIES_OVERRIDE_KEY limit acc
               else addDropped DR_wrong_state ev acc
           | None \<Rightarrow> addDropped DR_wrong_state ev acc)
      | IT_max_loops_adjusted \<Rightarrow>
          (case field ev ''newLimit'' of
             Some limit \<Rightarrow>
               if positiveNumber (Some limit) then setDelta MAX_LOOPS_OVERRIDE_KEY limit acc
               else addDropped DR_wrong_state ev acc
           | None \<Rightarrow> addDropped DR_wrong_state ev acc)
      | _ \<Rightarrow> acc)"

definition foldStep :: "bool \<Rightarrow> bool \<Rightarrow> FoldAcc \<Rightarrow> IntentFoldEvent \<Rightarrow> FoldAcc" where
  "foldStep isDispatching isPaused acc ev =
     foldSwitch isDispatching isPaused (acc\<lparr>fa_applied := fa_applied acc @ [ie_seq ev]\<rparr>) ev"

definition emptyAcc :: FoldAcc where
  "emptyAcc = \<lparr>fa_routingDelta = [], fa_steerEvents = [], fa_humanEvents = [], fa_priorityEvents = [],
     fa_pauseSeqs = [], fa_dropped = [], fa_applied = []\<rparr>"

definition lastWins :: "IntentFoldEvent list \<Rightarrow> DroppedIntent list" where
  \<comment> \<open>the entries before the last are dropped\<close>
  "lastWins evs = map (dropAs DR_later_input_won) (butlast evs)"

definition newPriority :: "IntentFoldEvent \<Rightarrow> jsval" where
  \<comment> \<open>an absent field is \<open>undefined\<close>, which the write gate rejects as it rejects \<open>null\<close>\<close>
  "newPriority ev = orElse (field ev ''newPriority'') JNull"

definition foldIntents :: "IntentFoldEvent list \<Rightarrow> RunStatus \<Rightarrow> IntentDecision" where
  "foldIntents intents runStatus =
     (case firstCancel intents of
        Some first \<Rightarrow>
          ID_cancel (ie_seq first) (field first ''reason'')
            (map (\<lambda>ev. dropAs (if ie_type ev = IT_cancel_requested then DR_later_input_won else DR_superseded_by_cancel) ev)
              (filter (\<lambda>ev. ie_seq ev \<noteq> ie_seq first) intents))
      | None \<Rightarrow>
          let isDispatching = (runStatus = St_queued \<or> runStatus = St_running);
              isPaused = (runStatus = St_paused_human \<or> runStatus = St_paused \<or> runStatus = St_paused_auto);
              acc = foldl (foldStep isDispatching isPaused) emptyAcc intents;
              humanInput = (if fa_humanEvents acc = [] then None else Some (ie_payload (last (fa_humanEvents acc))));
              delta = (if fa_priorityEvents acc = [] then fa_routingDelta acc
                       else obj_set PRIORITY_KEY (newPriority (last (fa_priorityEvents acc))) (fa_routingDelta acc));
              steering = (if fa_steerEvents acc = [] then None
                          else Some (ujoin [10] (map snd (sort_key fst (fa_steerEvents acc)))));
              hasSpecific = (steering \<noteq> None \<or> humanInput \<noteq> None)
          in ID_proceed
               \<lparr>pd_routingDelta = delta, pd_steering = steering, pd_humanInput = humanInput,
                pd_shouldPause = (fa_pauseSeqs acc \<noteq> [] \<and> \<not> hasSpecific),
                pd_shouldPauseAfterDispatch = (fa_pauseSeqs acc \<noteq> [] \<and> hasSpecific),
                pd_appliedSeqs = fa_applied acc,
                pd_dropped = fa_dropped acc @ lastWins (fa_humanEvents acc) @ lastWins (fa_priorityEvents acc)\<rparr>)"

section \<open>Cancellation\<close>

definition cancels :: "IntentFoldEvent list \<Rightarrow> IntentFoldEvent list" where
  "cancels intents = filter (\<lambda>ev. ie_type ev = IT_cancel_requested) intents"

lemma firstCancel_spec:
  "(firstCancel intents = None) = (cancels intents = [])"
  "firstCancel intents = Some f \<Longrightarrow> f \<in> set (cancels intents) \<and> (\<forall>ev \<in> set (cancels intents). ie_seq f \<le> ie_seq ev)"
proof -
  define step :: "IntentFoldEvent option \<Rightarrow> IntentFoldEvent \<Rightarrow> IntentFoldEvent option" where "step = (\<lambda>first ev.
       if ie_type ev = IT_cancel_requested then
         (case first of None \<Rightarrow> Some ev | Some f \<Rightarrow> if ie_seq ev < ie_seq f then Some ev else first)
       else first)"
  have inv: "(foldl step a es = None) = (a = None \<and> cancels es = [])
     \<and> (\<forall>f. foldl step a es = Some f \<longrightarrow>
          f \<in> set_option a \<union> set (cancels es) \<and> (\<forall>ev \<in> set_option a \<union> set (cancels es). ie_seq f \<le> ie_seq ev))" for a es
  proof (induction es arbitrary: a)
    case (Cons e es)
    show ?case
    proof (cases "ie_type e = IT_cancel_requested")
      case True
      with Cons.IH [of "step a e"] show ?thesis
        by (cases a) (auto simp: step_def cancels_def split: if_splits intro: order_trans less_imp_le)
    next
      case False
      with Cons.IH [of a] show ?thesis by (simp add: step_def cancels_def)
    qed
  qed (auto simp: cancels_def)
  have fc: "firstCancel intents = foldl step None intents" by (simp add: firstCancel_def step_def)
  show "(firstCancel intents = None) = (cancels intents = [])" using inv [of None intents] fc by simp
  show "firstCancel intents = Some f \<Longrightarrow> f \<in> set (cancels intents) \<and> (\<forall>ev \<in> set (cancels intents). ie_seq f \<le> ie_seq ev)"
    using inv [of None intents] fc by simp
qed

text \<open>cancel beats everything: a batch with a cancel request is decided as a cancel, whatever else
  it holds and whatever the run's status; the recorded request is the one with the least sequence
  number, and every intent with another sequence number is reported as dropped, in order. A batch
  without one is never a cancel.\<close>

theorem cancel_dominates:
  "case foldIntents intents st of
     ID_cancel q reason drops \<Rightarrow>
       cancels intents \<noteq> [] \<and> q = Min (set (map ie_seq (cancels intents)))
       \<and> map di_seq drops = filter (\<lambda>s. s \<noteq> q) (map ie_seq intents)
   | ID_proceed d \<Rightarrow> cancels intents = []"
proof (cases "firstCancel intents")
  case None
  then show ?thesis using firstCancel_spec(1) [of intents] by (simp add: foldIntents_def Let_def)
next
  case (Some f)
  note s = firstCancel_spec(2) [OF Some]
  have "ie_seq f = Min (set (map ie_seq (cancels intents)))"
    using s by (intro Min_eqI [symmetric]) auto
  then show ?thesis using s Some
    by (auto simp: foldIntents_def filter_map comp_def dropAs_def)
qed

section \<open>The loop, specified\<close>












lemma map_filter_snoc [simp]:
  "List.map_filter f (xs @ [x]) = List.map_filter f xs @ (case f x of None \<Rightarrow> [] | Some y \<Rightarrow> [y])"
  by (induction xs) (auto simp: List.map_filter_def split: option.splits)






section \<open>The routing delta passes the write gate\<close>






end
