(* ===== verification/Transition_Planner.thy ===== *)
theory Transition_Planner
  imports Exit_Planner Goal_Gate Intent_Fold
begin

text \<open>
  The transition planner, \<open>packages/daemon/src/transition-planner.ts\<close>: what a handler turn that
  returned a result comes to. The eight stages are definitions of their own, composed by
  \<open>planTransition\<close> as in the source: edge selection with the accounting backfill, the budget gate,
  the goal gate, the retry gate, the provider retry, the rewrite of the result's facts, the routing
  patch and the watermark. A draw of the random source is an argument; a turn draws at most once
  (the retry gate draws on a transition, the provider retry on a provider pause).

  The properties are in theory \<open>Transition_Properties\<close>.
\<close>

section \<open>Input and output\<close>

record TransitionInput =
  ti_state :: RunState
  ti_decision :: ProceedDecision
  ti_graph :: "Graph option"
  ti_handlerResult :: HandlerResult
  ti_accounting :: TurnAccounting
  ti_effectiveRouting :: jsobj
  ti_currentNode :: ustring
  ti_iteration :: number
  ti_now :: number
  ti_random :: number
  ti_providerRetryAfterMaxMs :: "number option"

record TransitionPlan =
  tp_facts :: "FactEvent list"
  tp_routingPatch :: "jsobj option"
  tp_advanceAppliedTo :: "int option"
  tp_observability :: "ObservabilityEvent list"

record RetryPause =
  rp_nodeId :: ustring
  rp_timer :: RetryTimer \<comment> \<open>attempt delayMs resumeAt maxRetries\<close>

record RetriesExhaustedPause =
  rx_nodeId :: ustring
  rx_currentLimit :: number
  rx_attempts :: number

definition nodeOf :: "Graph option \<Rightarrow> ustring \<Rightarrow> Node option" where
  \<comment> \<open>\<open>graph?.nodes[id]\<close>\<close>
  "nodeOf graph nodeId = Option.bind graph (\<lambda>g. obj_get (gr_nodes g) nodeId)"

section \<open>Stage 1: accounting and edge selection\<close>

record EdgeSelectionOutcome =
  eo_result :: HandlerResult
  eo_pendingEdgeSelection :: "EdgeSelection option"
  eo_convertedTransitionUsage :: "HaltUsage option"

definition fillIfZero :: "number option \<Rightarrow> number \<Rightarrow> number option" where
  \<comment> \<open>\<open>if ((x ?? 0) === 0 && total > 0) x = total\<close>\<close>
  "fillIfZero x tot = (if orElse x 0 = 0 \<and> tot > 0 then Some tot else x)"

definition backfillAccounting :: "TurnAccounting \<Rightarrow> TransitionResult \<Rightarrow> TransitionResult" where
  "backfillAccounting accounting r =
     (let h = ta_usage accounting; p = tr_split r in
      r\<lparr>tr_tokens := (if tr_tokens r = 0 \<and> hu_turnBilled h > 0 then hu_turnBilled h else tr_tokens r),
        tr_costUsd := (if tr_costUsd r = 0 \<and> hu_totalCostUsd h > 0 then hu_totalCostUsd h else tr_costUsd r),
        tr_split := p\<lparr>us_inputTokens := fillIfZero (us_inputTokens p) (hu_totalInputTokens h),
          us_outputTokens := fillIfZero (us_outputTokens p) (hu_totalOutputTokens h),
          us_cacheReadTokens := fillIfZero (us_cacheReadTokens p) (hu_totalCacheReadTokens h),
          us_cacheWriteTokens := fillIfZero (us_cacheWriteTokens p) (hu_totalCacheWriteTokens h)\<rparr>,
        tr_modelName := orOption (tr_modelName r) (ta_lastModel accounting)\<rparr>)"

definition plainEdgeOutcome :: "TransitionResult \<Rightarrow> EdgeSelectionOutcome" where
  "plainEdgeOutcome r = \<lparr>eo_result = H_transition r, eo_pendingEdgeSelection = None, eo_convertedTransitionUsage = None\<rparr>"

definition edgeNoMatch :: "TransitionResult \<Rightarrow> ustring \<Rightarrow> ustring \<Rightarrow> EdgeSelectionOutcome" where
  \<comment> \<open>the conversion of a routing transition without a matching edge\<close>
  "edgeNoMatch r route currentNode =
     \<lparr>eo_result = H_halt \<lparr>ht_reason = HH_edge_no_match,
        ht_detail = Some (U ''no edge keyed route='' @ [0x22] @ route @ [0x22] @ U '' from '' @ currentNode),
        ht_pauseContext = None\<rparr>,
      eo_pendingEdgeSelection = None,
      eo_convertedTransitionUsage = Some (usageOf (tr_tokens r) (tr_costUsd r) (tr_split r))\<rparr>"

definition selectTransitionEdge :: "HandlerResult \<Rightarrow> Graph option \<Rightarrow> ustring \<Rightarrow> TurnAccounting \<Rightarrow> EdgeSelectionOutcome" where
  "selectTransitionEdge handlerResult graph currentNode accounting =
     (case handlerResult of
        H_transition r0 \<Rightarrow>
          (let r = backfillAccounting accounting r0; toEnd = plainEdgeOutcome (r\<lparr>tr_nextNode := Some (U ''__end__'')\<rparr>) in
           if tr_nextNode r \<noteq> None then plainEdgeOutcome r
           else
             case (graph, nodeOf graph currentNode) of
               (Some g, Some srcNode) \<Rightarrow>
                 (let route = truthy_str (tr_route r);
                      selectorOutcome = ok_outcome\<lparr>oc_status := orElse (tr_outcomeStatus r) OS_success, oc_route := route\<rparr>
                  in case selectEdge g srcNode selectorOutcome of
                       Some selection \<Rightarrow>
                         (plainEdgeOutcome (r\<lparr>tr_nextNode := Some (ed_to (es_edge selection))\<rparr>))
                           \<lparr>eo_pendingEdgeSelection := Some selection\<rparr>
                     | None \<Rightarrow>
                         (case route of
                            Some rt \<Rightarrow> edgeNoMatch r rt currentNode
                          | None \<Rightarrow> toEnd))
             | _ \<Rightarrow> toEnd)
      | _ \<Rightarrow> \<lparr>eo_result = handlerResult, eo_pendingEdgeSelection = None, eo_convertedTransitionUsage = None\<rparr>)"

section \<open>Stage 2: the budget gate\<close>

record BudgetGateOutcome =
  bg_observability :: "ObservabilityEvent list"
  bg_budgetWarnedTags :: "ustring list"
  bg_budgetPause :: "PauseBreach option"
  bg_budgetHaltDetail :: "ustring option"

definition budgetGateInput :: "TransitionResult \<Rightarrow> Graph option \<Rightarrow> RunState \<Rightarrow> ustring \<Rightarrow> jsobj \<Rightarrow> BudgetInput" where
  "budgetGateInput result graph state currentNode effectiveRouting =
     (let turnFresh = orElse (us_inputTokens (tr_split result)) 0 + orElse (us_outputTokens (tr_split result)) 0;
          turnCost = tr_costUsd result;
          priorNodeBucket = orElse (obj_get (rm_nodeCosts (rn_metrics state)) currentNode) noCost;
          priorRunFresh = rm_totalInputTokens (rn_metrics state) + rm_totalOutputTokens (rn_metrics state)
      in \<lparr>bi_graphAttrs = (case graph of Some g \<Rightarrow> gr_attrs g | None \<Rightarrow> noGraphAttrs),
          bi_completedNodeAttrs = map_option nd_attrs (nodeOf graph currentNode),
          bi_completedNodeId = currentNode,
          bi_cumulativeCostUsd = rm_totalCostUsd (rn_metrics state) + turnCost,
          bi_cumulativeTokens = priorRunFresh + turnFresh,
          bi_nodeCumulativeCostUsd = tc_costUsd priorNodeBucket + turnCost,
          bi_nodeCumulativeTokens = tc_tokens priorNodeBucket + turnFresh,
          bi_alreadyWarned = readBudgetWarned effectiveRouting,
          bi_overrides = readBudgetOverrides effectiveRouting\<rparr>)"

definition applyBudgetGate :: "HandlerResult \<Rightarrow> Graph option \<Rightarrow> RunState \<Rightarrow> ustring \<Rightarrow> number \<Rightarrow> jsobj \<Rightarrow> BudgetGateOutcome" where
  "applyBudgetGate result graph state currentNode iteration effectiveRouting =
     (case result of
        H_transition r \<Rightarrow>
          (let d = evaluateBudget (budgetGateInput r graph state currentNode effectiveRouting)
           in \<lparr>bg_observability =
                 map (\<lambda>ev. \<lparr>oe_type = oe_type ev,
                   oe_payload = obj_merge [(U ''nodeId'', JStr currentNode), (U ''iteration'', JFin iteration)] (oe_payload ev)\<rparr>)
                   (bd_events d),
               bg_budgetWarnedTags = bd_newlyWarned d,
               bg_budgetPause = (if bd_shouldHalt d then None else bd_pauseBreach d),
               bg_budgetHaltDetail = (if bd_shouldHalt d then Some (orElse (bd_haltReason d) []) else None)\<rparr>)
      | _ \<Rightarrow> \<lparr>bg_observability = [], bg_budgetWarnedTags = [], bg_budgetPause = None, bg_budgetHaltDetail = None\<rparr>)"

section \<open>Stage 3: the goal gate\<close>

record GoalGateOutcome =
  go_result :: HandlerResult
  go_observability :: "ObservabilityEvent list"
  go_retargetTarget :: "ustring option"
  go_retriesPatch :: "number option"

definition synthOutcomes :: "TransitionResult \<Rightarrow> Node \<Rightarrow> RunState \<Rightarrow> ustring \<Rightarrow> (ustring \<times> OutcomeStatus) list" where
  "synthOutcomes r completedNode state currentNode =
     (let prior = readGateOutcomes (rn_routing state) in
      if na_goal_gate (nd_attrs completedNode) = Some True
      then (case tr_outcomeStatus r of Some st \<Rightarrow> obj_set currentNode st prior | None \<Rightarrow> prior)
      else prior)"

definition attrMaxRetries :: "Graph \<Rightarrow> ustring \<Rightarrow> number" where
  \<comment> \<open>\<open>readNumber(graph.nodes[id]?.attrs.max_retries)\<close>\<close>
  "attrMaxRetries g nodeId = orElse (Option.bind (obj_get (gr_nodes g) nodeId) (\<lambda>n. na_max_retries (nd_attrs n))) 0"

definition goalGateInput :: "TransitionResult \<Rightarrow> Graph \<Rightarrow> Node \<Rightarrow> RunState \<Rightarrow> ustring \<Rightarrow> jsobj \<Rightarrow> GoalGateInput" where
  "goalGateInput r g completedNode state currentNode effectiveRouting =
     (let outcomes = synthOutcomes r completedNode state currentNode;
          override = orElse (lv_maxGoalGateRetries (getLimits effectiveRouting)) 0
      in \<lparr>gi_graph = g, gi_outcomes = outcomes, gi_retries = readGoalGateRetries (rn_routing state),
          gi_gateCap = (case checkGoalGates g outcomes of GC_satisfied \<Rightarrow> 0 | GC_failed gate \<Rightarrow> attrMaxRetries g gate),
          gi_capOverride = (if override > 0 then Some override else None)\<rparr>)"

definition applyGoalGate :: "HandlerResult \<Rightarrow> Graph option \<Rightarrow> RunState \<Rightarrow> ustring \<Rightarrow> jsobj \<Rightarrow> GoalGateOutcome" where
  "applyGoalGate result graph state currentNode effectiveRouting =
     (let unchanged = \<lparr>go_result = result, go_observability = [], go_retargetTarget = None, go_retriesPatch = None\<rparr> in
      case (result, graph, nodeOf graph currentNode) of
        (H_transition r, Some g, Some completedNode) \<Rightarrow>
          (let isTerminalNext = (case tr_nextNode r of Some n \<Rightarrow> isTerminalNextNode n (Some g) | None \<Rightarrow> False);
               nonGateFail = (tr_outcomeStatus r = Some OS_fail \<and> na_goal_gate (nd_attrs completedNode) \<noteq> Some True)
           in if isTerminalNext \<and> \<not> nonGateFail then
                (case goalGateStep (goalGateInput r g completedNode state currentNode effectiveRouting) of
                   GG_exit \<Rightarrow> unchanged
                 | GG_retarget gate target nextRetries \<Rightarrow>
                     \<lparr>go_result = H_transition (r\<lparr>tr_nextNode := Some target\<rparr>),
                      go_observability = [\<lparr>oe_type = U ''goal_gate.retarget'',
                        oe_payload = [(U ''failedGate'', JStr gate), (U ''target'', JStr target), (U ''retries'', JFin nextRetries)]\<rparr>],
                      go_retargetTarget = Some target, go_retriesPatch = Some nextRetries\<rparr>
                 | GG_halt gate \<Rightarrow>
                     (let override = orElse (lv_maxGoalGateRetries (getLimits effectiveRouting)) 0;
                          goalGateLimit = (if override \<noteq> 0 then override else attrMaxRetries g gate)
                      in \<lparr>go_result = H_halt \<lparr>ht_reason = HH_goal_gate_unsatisfied, ht_detail = Some gate,
                            ht_pauseContext = Some \<lparr>pc_currentLimit = Some goalGateLimit, pc_attempts = None\<rparr>\<rparr>,
                          go_observability = [\<lparr>oe_type = U ''goal_gate.unsatisfied'', oe_payload = [(U ''gate'', JStr gate)]\<rparr>],
                          go_retargetTarget = None, go_retriesPatch = None\<rparr>))
              else unchanged)
      | _ \<Rightarrow> unchanged)"

section \<open>Stage 4: the retry gate\<close>

record RetryGateOutcome =
  rg_result :: HandlerResult
  rg_observability :: "ObservabilityEvent list"
  rg_retryCounterPatch :: "(ustring \<times> number) option" \<comment> \<open>the one entry of the patch\<close>
  rg_retryPause :: "RetryPause option"
  rg_retriesExhaustedPause :: "RetriesExhaustedPause option"

definition effectiveMaxRetries :: "Graph \<Rightarrow> Node \<Rightarrow> ustring \<Rightarrow> jsobj \<Rightarrow> number" where
  "effectiveMaxRetries g completedNode currentNode effectiveRouting =
     (let override = orElse (lv_maxRetries (getLimits effectiveRouting) currentNode) 0
      in if override > 0 then override else resolveMaxRetries (nd_attrs completedNode) (gr_attrs g))"

definition retryEvent :: "ustring \<Rightarrow> ustring \<Rightarrow> number \<Rightarrow> number \<Rightarrow> ObservabilityEvent" where
  "retryEvent ty nodeId attempts maxRetries =
     \<lparr>oe_type = ty, oe_payload = [(U ''nodeId'', JStr nodeId), (U ''attempts'', JFin attempts), (U ''maxRetries'', JFin maxRetries)]\<rparr>"

definition unchangedRetry :: "TransitionResult \<Rightarrow> RetryGateOutcome" where
  "unchangedRetry r = \<lparr>rg_result = H_transition r, rg_observability = [], rg_retryCounterPatch = None, rg_retryPause = None,
     rg_retriesExhaustedPause = None\<rparr>"

definition exhaustedRetry :: "TransitionResult \<Rightarrow> ustring \<Rightarrow> number \<Rightarrow> number \<Rightarrow> RetryGateOutcome" where
  "exhaustedRetry r currentNode priorRetries maxRetries =
     (unchangedRetry (r\<lparr>tr_nextNode := Some currentNode\<rparr>))
       \<lparr>rg_observability := [retryEvent (U ''node.retry_exhausted'') currentNode (priorRetries + 1) maxRetries],
        rg_retriesExhaustedPause := Some \<lparr>rx_nodeId = currentNode, rx_currentLimit = maxRetries, rx_attempts = priorRetries + 1\<rparr>\<rparr>"

definition failEdgeGate :: "TransitionResult \<Rightarrow> Graph \<Rightarrow> Node \<Rightarrow> RunState \<Rightarrow> ustring \<Rightarrow> jsobj \<Rightarrow> RetryGateOutcome" where
  \<comment> \<open>the fail-edge back-edge cap, for a \<open>fail\<close> outcome\<close>
  "failEdgeGate r g completedNode state currentNode effectiveRouting =
     (let loops = (case tr_nextNode r of Some n \<Rightarrow> currentNode \<in> set (reachableFrom g n) | None \<Rightarrow> False);
          maxRetries = effectiveMaxRetries g completedNode currentNode effectiveRouting;
          priorRetries = rv_count (getRetry (rn_routing state)) currentNode
      in if na_goal_gate (nd_attrs completedNode) \<noteq> Some True \<and> loops \<and> maxRetries > 0 then
           (if priorRetries \<ge> maxRetries then exhaustedRetry r currentNode priorRetries maxRetries
            else (unchangedRetry r)\<lparr>rg_retryCounterPatch := Some (retryCountKey currentNode, priorRetries + 1)\<rparr>)
         else unchangedRetry r)"

definition retryStatusGate :: "TransitionResult \<Rightarrow> Graph \<Rightarrow> Node \<Rightarrow> RunState \<Rightarrow> ustring \<Rightarrow> jsobj \<Rightarrow> number \<Rightarrow> number \<Rightarrow> RetryGateOutcome" where
  \<comment> \<open>the branch of a \<open>retry\<close> outcome\<close>
  "retryStatusGate r g completedNode state currentNode effectiveRouting now random =
     (let maxRetries = effectiveMaxRetries g completedNode currentNode effectiveRouting;
          priorRetries = rv_count (getRetry (rn_routing state)) currentNode
      in case retryStep \<lparr>ri_state = \<lparr>rs_retries = priorRetries, rs_maxRetries = maxRetries\<rparr>, ri_status = OS_retry,
                ri_backoff = Some (resolveBackoff (nd_attrs completedNode) (gr_attrs g)), ri_nonRetryable = None,
                ri_allowPartial = Some False, ri_random = random\<rparr> of
           RA_retry _ delayMs \<Rightarrow>
             (let resumeAt = now + max 0 (Math_round delayMs) in
              (unchangedRetry (r\<lparr>tr_nextNode := Some currentNode\<rparr>))
                \<lparr>rg_observability := [\<lparr>oe_type = U ''node.retry_scheduled'',
                    oe_payload = [(U ''nodeId'', JStr currentNode), (U ''attempt'', JFin (priorRetries + 1)),
                      (U ''delayMs'', JFin delayMs), (U ''maxRetries'', JFin maxRetries), (U ''resumeAt'', JFin resumeAt)]\<rparr>],
                 rg_retryCounterPatch := Some (retryCountKey currentNode, priorRetries + 1),
                 rg_retryPause := Some \<lparr>rp_nodeId = currentNode,
                   rp_timer = \<lparr>rt_attempt = priorRetries + 1, rt_delayMs = delayMs, rt_resumeAt = resumeAt, rt_max = maxRetries\<rparr>\<rparr>\<rparr>)
         | RA_halt \<Rightarrow> exhaustedRetry r currentNode priorRetries maxRetries
         | RA_advance_partial \<Rightarrow>
             (unchangedRetry (r\<lparr>tr_outcomeStatus := Some OS_success\<rparr>))
               \<lparr>rg_observability := [retryEvent (U ''node.retry_partial_accept'') currentNode (priorRetries + 1) maxRetries]\<rparr>
         | _ \<Rightarrow> unchangedRetry r)"

definition applyRetryGate :: "HandlerResult \<Rightarrow> Graph option \<Rightarrow> RunState \<Rightarrow> ustring \<Rightarrow> jsobj \<Rightarrow> number \<Rightarrow> number \<Rightarrow> RetryGateOutcome" where
  "applyRetryGate result graph state currentNode effectiveRouting now random =
     (case result of
        H_transition r \<Rightarrow>
          (case tr_outcomeStatus r of
             Some OS_success \<Rightarrow>
               if rv_count (getRetry (rn_routing state)) currentNode > 0
               then (unchangedRetry r)\<lparr>rg_retryCounterPatch := Some (retryCountKey currentNode, 0)\<rparr>
               else unchangedRetry r
           | Some OS_fail \<Rightarrow>
               (case (graph, nodeOf graph currentNode) of
                  (Some g, Some completedNode) \<Rightarrow> failEdgeGate r g completedNode state currentNode effectiveRouting
                | _ \<Rightarrow> unchangedRetry r)
           | Some OS_retry \<Rightarrow>
               (case (graph, nodeOf graph currentNode) of
                  (Some g, Some completedNode) \<Rightarrow> retryStatusGate r g completedNode state currentNode effectiveRouting now random
                | _ \<Rightarrow> unchangedRetry r)
           | None \<Rightarrow> unchangedRetry r)
      | _ \<Rightarrow> \<lparr>rg_result = result, rg_observability = [], rg_retryCounterPatch = None, rg_retryPause = None,
               rg_retriesExhaustedPause = None\<rparr>)"

section \<open>Stage 5: the provider retry\<close>

record ProviderRetryOutcome =
  po_providerRetryDecision :: "ProviderRetryDecision option"
  po_providerExhausted :: "number option" \<comment> \<open>the attempt; nothing reads the reason\<close>

definition applyProviderRetry :: "HandlerResult \<Rightarrow> RunState \<Rightarrow> number \<Rightarrow> number \<Rightarrow> number option \<Rightarrow> ProviderRetryOutcome" where
  "applyProviderRetry result state now random retryAfterMaxMs =
     (case result of
        H_pause_provider r \<Rightarrow>
          (let d = decideProviderRetry \<lparr>dp_httpStatus = pv_httpStatus r, dp_retryAfterMs = pv_retryAfterMs r,
                 dp_priorAttempt = rv_providerAttempt (getRetry (rn_routing state)), dp_now = now,
                 dp_cumulativeDelayMs = rv_providerCumulativeMs (getRetry (rn_routing state)), dp_random = random,
                 dp_retryAfterMaxMs = retryAfterMaxMs\<rparr>
           in case d of
                PD_exhausted attempt _ \<Rightarrow> \<lparr>po_providerRetryDecision = None, po_providerExhausted = Some attempt\<rparr>
              | _ \<Rightarrow> \<lparr>po_providerRetryDecision = Some d, po_providerExhausted = None\<rparr>)
      | _ \<Rightarrow> \<lparr>po_providerRetryDecision = None, po_providerExhausted = None\<rparr>)"

section \<open>Stage 6: the rewrite of the facts\<close>

definition isNodeStarted :: "FactEvent \<Rightarrow> bool" where
  "isNodeStarted f = (case f of F_node_started _ _ _ \<Rightarrow> True | _ \<Rightarrow> False)"

definition isRunPaused :: "FactEvent \<Rightarrow> bool" where
  "isRunPaused f = (case f of F_run_paused _ \<Rightarrow> True | _ \<Rightarrow> False)"

definition isSuccessContinuation :: "FactEvent \<Rightarrow> bool" where
  "isSuccessContinuation f = (case f of F_node_started _ _ _ \<Rightarrow> True | F_run_terminated (RT_completed _) \<Rightarrow> True | _ \<Rightarrow> False)"

definition isTransition :: "HandlerResult \<Rightarrow> bool" where
  "isTransition result = (case result of H_transition _ \<Rightarrow> True | _ \<Rightarrow> False)"

definition stampGoalGateRetarget :: "FactEvent list \<Rightarrow> ustring option \<Rightarrow> number option \<Rightarrow> FactEvent list" where
  "stampGoalGateRetarget facts target retriesPatch =
     (case (target, retriesPatch) of
        (Some t, Some pass) \<Rightarrow>
          map (\<lambda>f. case f of F_node_started n i p \<Rightarrow> if n = t then F_node_started n i (Some pass) else f | _ \<Rightarrow> f) facts
      | _ \<Rightarrow> facts)"

definition deferPauseAfterDispatch :: "FactEvent list \<Rightarrow> HandlerResult \<Rightarrow> ProceedDecision \<Rightarrow> RunState \<Rightarrow> FactEvent list" where
  "deferPauseAfterDispatch facts result decision state =
     (if \<not> (isTransition result \<and> pd_shouldPauseAfterDispatch decision) then facts
      else if \<not> list_ex isSuccessContinuation facts then facts
      else filter (\<lambda>f. \<not> isSuccessContinuation f) facts @ [F_run_paused (RP_operator (currentNodeOf state))])"

definition swapRetryPause :: "FactEvent list \<Rightarrow> RetryPause option \<Rightarrow> ProceedDecision \<Rightarrow> FactEvent list" where
  "swapRetryPause facts retryPause decision =
     (case retryPause of
        None \<Rightarrow> facts
      | Some p \<Rightarrow>
          if pd_shouldPauseAfterDispatch decision then facts
          else filter (\<lambda>f. \<not> isNodeStarted f) facts @ [F_run_paused (RP_handler_retry (rp_nodeId p) (rp_timer p))])"

definition swapRetriesExhausted :: "FactEvent list \<Rightarrow> RetriesExhaustedPause option \<Rightarrow> FactEvent list" where
  "swapRetriesExhausted facts retriesExhaustedPause =
     (case retriesExhaustedPause of
        None \<Rightarrow> facts
      | Some p \<Rightarrow> filter (\<lambda>f. \<not> isNodeStarted f) facts
                    @ [F_run_paused (RP_max_retries (rx_nodeId p) (rx_currentLimit p) (rx_attempts p))])"

definition rewriteProviderExhausted :: "FactEvent list \<Rightarrow> number option \<Rightarrow> RunState \<Rightarrow> FactEvent list" where
  "rewriteProviderExhausted facts providerExhausted state =
     (case providerExhausted of
        None \<Rightarrow> facts
      | Some attempt \<Rightarrow> filter (\<lambda>f. \<not> isRunPaused f) facts
                          @ [F_run_paused (RP_provider_exhausted (currentNodeOf state) attempt 0)])"

fun toProviderRetry :: "number \<Rightarrow> number \<Rightarrow> number option \<Rightarrow> FactEvent list \<Rightarrow> FactEvent list" where
  \<comment> \<open>the loop up to its \<open>break\<close>: the first \<open>provider_error\<close> pause is rewritten\<close>
  "toProviderRetry attempt resumeAt retryAfterMs [] = []"
| "toProviderRetry attempt resumeAt retryAfterMs (f # fs) =
     (case f of
        F_run_paused (RP_provider_error nodeId httpStatus provider errorMessage _ _) \<Rightarrow>
          F_run_paused (RP_provider_retry nodeId httpStatus provider errorMessage attempt resumeAt retryAfterMs) # fs
      | _ \<Rightarrow> f # toProviderRetry attempt resumeAt retryAfterMs fs)"

definition httpStatusOf :: "HandlerResult \<Rightarrow> number option" where
  "httpStatusOf result = (case result of H_pause_provider r \<Rightarrow> pv_httpStatus r | _ \<Rightarrow> None)"

definition retryAfterMsOf :: "HandlerResult \<Rightarrow> number option" where
  "retryAfterMsOf result = (case result of H_pause_provider r \<Rightarrow> pv_retryAfterMs r | _ \<Rightarrow> None)"

definition rewriteProviderAutoRetry :: "FactEvent list \<Rightarrow> ProviderRetryDecision option \<Rightarrow> HandlerResult \<Rightarrow> RunState \<Rightarrow> FactEvent list" where
  "rewriteProviderAutoRetry facts providerRetryDecision result state =
     (case providerRetryDecision of
        Some (PD_auto_retry attempt delayMs resumeAt retryAfterMs) \<Rightarrow>
          toProviderRetry attempt resumeAt retryAfterMs facts
          @ [F_provider_retry_attempted (currentNodeOf state) attempt (httpStatusOf result) delayMs]
      | _ \<Rightarrow> facts)"

definition annotateProviderManual :: "FactEvent list \<Rightarrow> ProviderRetryDecision option \<Rightarrow> HandlerResult \<Rightarrow> FactEvent list" where
  "annotateProviderManual facts providerRetryDecision result =
     (case providerRetryDecision of
        Some (PD_manual (Some detail)) \<Rightarrow>
          map (\<lambda>f. case f of
                 F_run_paused (RP_provider_error nodeId httpStatus provider errorMessage _ ra) \<Rightarrow>
                   F_run_paused (RP_provider_error nodeId httpStatus provider errorMessage (Some detail)
                     (orOption (retryAfterMsOf result) ra))
               | _ \<Rightarrow> f) facts
      | _ \<Rightarrow> facts)"

definition swapBudgetPause :: "FactEvent list \<Rightarrow> PauseBreach option \<Rightarrow> RunState \<Rightarrow> FactEvent list" where
  "swapBudgetPause facts budgetPause state =
     (case budgetPause of
        None \<Rightarrow> facts
      | Some b \<Rightarrow>
          if list_ex isTerminatedFact facts then facts
          else filter (\<lambda>f. \<not> isNodeStarted f) facts
                 @ [F_run_paused (RP_budget (currentNodeOf state) (pb_scope b) (pb_metric b) (pb_limit b) (pb_actual b))])"

definition swapBudgetHalt :: "FactEvent list \<Rightarrow> ustring option \<Rightarrow> FactEvent list" where
  "swapBudgetHalt facts budgetHaltDetail =
     (case budgetHaltDetail of
        None \<Rightarrow> facts
      | Some detail \<Rightarrow> filter (\<lambda>f. \<not> isTerminatedFact f \<and> \<not> isNodeStarted f) facts
                         @ [F_run_terminated (RT_errored (bareHalt HR_budget (truthy_str (Some detail))))])"

record RewriteArgs =
  rw_result :: HandlerResult
  rw_state :: RunState
  rw_decision :: ProceedDecision
  rw_goalGateRetargetTarget :: "ustring option"
  rw_goalGateRetriesPatch :: "number option"
  rw_retryPause :: "RetryPause option"
  rw_retriesExhaustedPause :: "RetriesExhaustedPause option"
  rw_providerExhausted :: "number option"
  rw_providerRetryDecision :: "ProviderRetryDecision option"
  rw_budgetPause :: "PauseBreach option"
  rw_budgetHaltDetail :: "ustring option"

definition rewriteTerminalFacts :: "FactEvent list \<Rightarrow> RewriteArgs \<Rightarrow> FactEvent list" where
  "rewriteTerminalFacts facts0 a =
     (let facts1 = stampGoalGateRetarget facts0 (rw_goalGateRetargetTarget a) (rw_goalGateRetriesPatch a);
          facts2 = deferPauseAfterDispatch facts1 (rw_result a) (rw_decision a) (rw_state a);
          facts3 = swapRetryPause facts2 (rw_retryPause a) (rw_decision a);
          facts4 = swapRetriesExhausted facts3 (rw_retriesExhaustedPause a);
          facts5 = rewriteProviderExhausted facts4 (rw_providerExhausted a) (rw_state a);
          facts6 = rewriteProviderAutoRetry facts5 (rw_providerRetryDecision a) (rw_result a) (rw_state a);
          facts7 = annotateProviderManual facts6 (rw_providerRetryDecision a) (rw_result a);
          facts8 = swapBudgetPause facts7 (rw_budgetPause a) (rw_state a)
      in swapBudgetHalt facts8 (rw_budgetHaltDetail a))"

section \<open>Stage 7: the routing patch\<close>

definition OPERATOR_NOTES_PATCH_HEADROOM_BYTES :: int where "OPERATOR_NOTES_PATCH_HEADROOM_BYTES = 512"
definition MAX_ROUTING_BYTES :: int where "MAX_ROUTING_BYTES = 8192"

definition operatorNotesBudget :: "jsobj \<Rightarrow> int" where
  "operatorNotesBudget effectiveRouting =
     (let withoutNotes = obj_set OPERATOR_NOTES_KEY (JArr []) effectiveRouting;
          otherBytes = int (byteLength (JSON_stringify (JObj withoutNotes)));
          available = MAX_ROUTING_BYTES - OPERATOR_NOTES_PATCH_HEADROOM_BYTES - otherBytes
      in max 0 (min OPERATOR_NOTES_MAX_BYTES available))"

definition mergeRoutingPatches :: "jsobj \<Rightarrow> HandlerResult \<Rightarrow> jsobj option" where
  "mergeRoutingPatches fromIntents result = (if fromIntents \<noteq> [] then Some fromIntents else None)"

definition patchSet :: "ustring \<Rightarrow> jsval \<Rightarrow> jsobj option \<Rightarrow> jsobj option" where
  \<comment> \<open>\<open>{ ...(routingPatch ?? {}), [k]: v }\<close>\<close>
  "patchSet k v p = Some (obj_set k v (orElse p []))"

record PatchArgs =
  pa_result :: HandlerResult
  pa_decision :: ProceedDecision
  pa_state :: RunState
  pa_currentNode :: ustring
  pa_graph :: "Graph option"
  pa_effectiveRouting :: jsobj
  pa_budgetWarnedTags :: "ustring list"
  pa_retryCounterPatch :: "(ustring \<times> number) option"
  pa_retryPause :: "RetryPause option"
  pa_providerRetryDecision :: "ProviderRetryDecision option"
  pa_goalGateRetargetTarget :: "ustring option"
  pa_goalGateRetriesPatch :: "number option"
  pa_operatorPauseApplied :: bool

definition patchBudgetWarned :: "PatchArgs \<Rightarrow> jsobj option \<Rightarrow> jsobj option" where
  "patchBudgetWarned a p =
     (if pa_budgetWarnedTags a \<noteq> [] then
        patchSet BUDGET_WARNED_KEY
          (JArr (map JStr (sort (remdups (readBudgetWarned (pa_effectiveRouting a) @ pa_budgetWarnedTags a))))) p
      else p)"

definition patchRetry :: "PatchArgs \<Rightarrow> jsobj option \<Rightarrow> jsobj option" where
  "patchRetry a p =
     (let p1 = (case pa_retryCounterPatch a of Some (k, c) \<Rightarrow> patchSet k (JFin c) p | None \<Rightarrow> p)
      in case pa_retryPause a of Some rp \<Rightarrow> patchSet AUTO_RESUME_AT_KEY (JFin (rt_resumeAt (rp_timer rp))) p1 | None \<Rightarrow> p1)"

definition patchProvider :: "PatchArgs \<Rightarrow> jsobj option \<Rightarrow> jsobj option" where
  "patchProvider a p =
     (let retry = getRetry (rn_routing (pa_state a));
          p1 = (case pa_providerRetryDecision a of
                  Some (PD_auto_retry attempt delayMs resumeAt retryAfterMs) \<Rightarrow>
                    patchSet PROVIDER_RETRY_CUMULATIVE_MS_KEY
                      (JFin (if retryAfterMs = None then rv_providerCumulativeMs retry + delayMs else rv_providerCumulativeMs retry))
                      (patchSet PROVIDER_RETRY_ATTEMPT_KEY (JFin attempt) (patchSet AUTO_RESUME_AT_KEY (JFin resumeAt) p))
                | _ \<Rightarrow> p)
      in if isTransition (pa_result a) \<and> rv_providerAttempt retry > 0 then
           patchSet PROVIDER_RETRY_CUMULATIVE_MS_KEY (JFin 0) (patchSet PROVIDER_RETRY_ATTEMPT_KEY (JFin 0) p1)
         else p1)"

definition patchGoalGate :: "PatchArgs \<Rightarrow> jsobj option \<Rightarrow> jsobj option" where
  "patchGoalGate a p =
     (case pa_result a of
        H_transition r \<Rightarrow>
          (let gate = (case nodeOf (pa_graph a) (pa_currentNode a) of Some n \<Rightarrow> na_goal_gate (nd_attrs n) = Some True | None \<Rightarrow> False);
               p1 = (case tr_outcomeStatus r of
                       Some st \<Rightarrow> if gate then patchSet (goalGateOutcomeKey (pa_currentNode a)) (JStr (statusString st)) p else p
                     | None \<Rightarrow> p)
           in case (pa_goalGateRetargetTarget a, pa_goalGateRetriesPatch a) of
                (Some _, Some n) \<Rightarrow> patchSet GOAL_GATE_RETRIES_KEY (JFin n) p1
              | _ \<Rightarrow> p1)
      | _ \<Rightarrow> p)"

definition consumesInput :: "PatchArgs \<Rightarrow> bool" where
  \<comment> \<open>an llm turn that completed with a success outcome\<close>
  "consumesInput a =
     (case pa_result a of
        H_transition r \<Rightarrow>
          tr_outcomeStatus r \<noteq> Some OS_fail \<and> tr_outcomeStatus r \<noteq> Some OS_retry
          \<and> (case nodeOf (pa_graph a) (pa_currentNode a) of Some n \<Rightarrow> nd_type n = NT_llm | None \<Rightarrow> False)
      | _ \<Rightarrow> False)"

definition stagedNotes :: "PatchArgs \<Rightarrow> TransitionResult \<Rightarrow> ustring \<Rightarrow> OperatorNote list" where
  "stagedNotes a r note =
     readOperatorNotes (pa_effectiveRouting a)
     @ [[(U ''gateNodeId'', JStr (pa_currentNode a)), (U ''route'', JStr (orElse (tr_route r) [])),
         (U ''note'', JStr (truncateOperatorNote note OPERATOR_NOTE_MAX_BYTES))]]"

definition resultNote :: "HandlerResult \<Rightarrow> (TransitionResult \<times> ustring) option" where
  "resultNote result = (case result of H_transition r \<Rightarrow> map_option (Pair r) (tr_operatorNote r) | _ \<Rightarrow> None)"

definition patchNotes :: "PatchArgs \<Rightarrow> jsobj option \<Rightarrow> jsobj option" where
  "patchNotes a p =
     (case resultNote (pa_result a) of
        Some (r, note) \<Rightarrow>
          patchSet OPERATOR_NOTES_KEY
            (JArr (map JObj (capOperatorNotes (stagedNotes a r note) (operatorNotesBudget (pa_effectiveRouting a))))) p
      | None \<Rightarrow>
          if consumesInput a \<and> readOperatorNotes (pa_effectiveRouting a) \<noteq> [] then patchSet OPERATOR_NOTES_KEY (JArr []) p else p)"

definition patchSteerAndPause :: "PatchArgs \<Rightarrow> jsobj option \<Rightarrow> jsobj option" where
  "patchSteerAndPause a p =
     (let p1 = (if consumesInput a \<and> readPendingSteer (pa_effectiveRouting a) \<noteq> None
                then patchSet PENDING_STEER_KEY (JStr []) p else p)
      in if readPauseAfterDispatch (pa_effectiveRouting a) \<and> pa_operatorPauseApplied a
         then patchSet PAUSE_AFTER_DISPATCH_KEY (JBool False) p1 else p1)"

definition buildRoutingPatch :: "PatchArgs \<Rightarrow> jsobj option" where
  "buildRoutingPatch a =
     patchSteerAndPause a (patchNotes a (patchGoalGate a (patchProvider a (patchRetry a (patchBudgetWarned a
       (mergeRoutingPatches (pd_routingDelta (pa_decision a)) (pa_result a)))))))"

section \<open>The composition\<close>

definition ruleString :: "EdgeSelectionRule \<Rightarrow> ustring" where
  "ruleString r = (case r of R_route \<Rightarrow> U ''route'' | R_outcome \<Rightarrow> U ''outcome'')"

definition recordEdgeSelected :: "ustring \<Rightarrow> number \<Rightarrow> EdgeSelection \<Rightarrow> number \<Rightarrow> ObservabilityEvent" where
  "recordEdgeSelected fromNode iteration selection pass =
     \<lparr>oe_type = U ''edge.selected'',
      oe_payload = [(U ''from'', JStr fromNode), (U ''to'', JStr (ed_to (es_edge selection))), (U ''iteration'', JFin iteration)]
        @ (case passField pass of Some p \<Rightarrow> [(U ''pass'', JFin p)] | None \<Rightarrow> [])
        @ [(U ''rule'', JStr (ruleString (es_rule selection)))]
        @ (case es_matched selection of Some m \<Rightarrow> [(U ''matched'', JStr m)] | None \<Rightarrow> [])\<rparr>"

definition isOperatorPause :: "FactEvent \<Rightarrow> bool" where
  "isOperatorPause f = (case f of F_run_paused (RP_operator _) \<Rightarrow> True | _ \<Rightarrow> False)"

record Stages =
  \<comment> \<open>the intermediate results \<open>planTransition\<close> holds in its local variables\<close>
  sg_edge :: EdgeSelectionOutcome
  sg_budget :: BudgetGateOutcome
  sg_goalGate :: GoalGateOutcome
  sg_retry :: RetryGateOutcome
  sg_provider :: ProviderRetryOutcome
  sg_retargetApplied :: bool

definition nextNodeOf :: "HandlerResult \<Rightarrow> ustring option" where
  "nextNodeOf result = (case result of H_transition r \<Rightarrow> tr_nextNode r | _ \<Rightarrow> None)"

definition runStages :: "TransitionInput \<Rightarrow> Stages" where
  "runStages i =
     (let edge = selectTransitionEdge (ti_handlerResult i) (ti_graph i) (ti_currentNode i) (ti_accounting i);
          budget = applyBudgetGate (eo_result edge) (ti_graph i) (ti_state i) (ti_currentNode i) (ti_iteration i)
                     (ti_effectiveRouting i);
          goalGate = applyGoalGate (eo_result edge) (ti_graph i) (ti_state i) (ti_currentNode i) (ti_effectiveRouting i);
          retry = applyRetryGate (go_result goalGate) (ti_graph i) (ti_state i) (ti_currentNode i) (ti_effectiveRouting i)
                    (ti_now i) (ti_random i)
      in \<lparr>sg_edge = edge, sg_budget = budget, sg_goalGate = goalGate, sg_retry = retry,
          sg_provider = applyProviderRetry (rg_result retry) (ti_state i) (ti_now i) (ti_random i) (ti_providerRetryAfterMaxMs i),
          sg_retargetApplied =
            (go_retargetTarget goalGate \<noteq> None \<and> isTransition (rg_result retry)
             \<and> nextNodeOf (rg_result retry) = go_retargetTarget goalGate \<and> bg_budgetPause budget = None)\<rparr>)"

definition stagesFacts :: "TransitionInput \<Rightarrow> Stages \<Rightarrow> FactEvent list" where
  "stagesFacts i s =
     (let result = rg_result (sg_retry s) in
      rewriteTerminalFacts
        (resultToFacts result
           \<lparr>rc_state = ti_state i, rc_appliedIntentSeqs = pd_appliedSeqs (ti_decision i), rc_cancelIntentSeq = None,
            rc_usage = Some (orElse (eo_convertedTransitionUsage (sg_edge s)) (ta_usage (ti_accounting i)))\<rparr>)
        \<lparr>rw_result = result, rw_state = ti_state i, rw_decision = ti_decision i,
         rw_goalGateRetargetTarget = (if sg_retargetApplied s then go_retargetTarget (sg_goalGate s) else None),
         rw_goalGateRetriesPatch = (if sg_retargetApplied s then go_retriesPatch (sg_goalGate s) else None),
         rw_retryPause = rg_retryPause (sg_retry s), rw_retriesExhaustedPause = rg_retriesExhaustedPause (sg_retry s),
         rw_providerExhausted = po_providerExhausted (sg_provider s),
         rw_providerRetryDecision = po_providerRetryDecision (sg_provider s),
         rw_budgetPause = bg_budgetPause (sg_budget s), rw_budgetHaltDetail = bg_budgetHaltDetail (sg_budget s)\<rparr>)"

definition stagesPatch :: "TransitionInput \<Rightarrow> Stages \<Rightarrow> FactEvent list \<Rightarrow> jsobj option" where
  "stagesPatch i s facts =
     buildRoutingPatch
       \<lparr>pa_result = rg_result (sg_retry s), pa_decision = ti_decision i, pa_state = ti_state i,
        pa_currentNode = ti_currentNode i, pa_graph = ti_graph i, pa_effectiveRouting = ti_effectiveRouting i,
        pa_budgetWarnedTags = bg_budgetWarnedTags (sg_budget s), pa_retryCounterPatch = rg_retryCounterPatch (sg_retry s),
        pa_retryPause = rg_retryPause (sg_retry s), pa_providerRetryDecision = po_providerRetryDecision (sg_provider s),
        pa_goalGateRetargetTarget = (if sg_retargetApplied s then go_retargetTarget (sg_goalGate s) else None),
        pa_goalGateRetriesPatch = (if sg_retargetApplied s then go_retriesPatch (sg_goalGate s) else None),
        pa_operatorPauseApplied = list_ex isOperatorPause facts\<rparr>"

definition stagesObservability :: "TransitionInput \<Rightarrow> Stages \<Rightarrow> ObservabilityEvent list" where
  "stagesObservability i s =
     bg_observability (sg_budget s) @ go_observability (sg_goalGate s)
     @ (case eo_pendingEdgeSelection (sg_edge s) of
          Some selection \<Rightarrow>
            if go_retargetTarget (sg_goalGate s) = None \<and> isTransition (go_result (sg_goalGate s)) then
              [recordEdgeSelected (ti_currentNode i) (ti_iteration i) selection (readGoalGateRetries (ti_effectiveRouting i))]
            else []
        | None \<Rightarrow> [])
     @ rg_observability (sg_retry s)"

definition planTransition :: "TransitionInput \<Rightarrow> TransitionPlan" where
  "planTransition i =
     (let s = runStages i; facts = stagesFacts i s
      in \<lparr>tp_facts = facts, tp_routingPatch = stagesPatch i s facts,
          tp_advanceAppliedTo = computeAdvanceAppliedTo (pd_appliedSeqs (ti_decision i)),
          tp_observability = stagesObservability i s\<rparr>)"

end
