(* ===== verification/Transition_Properties.thy ===== *)
theory Transition_Properties
  imports Transition_Planner
begin

text \<open>
  What the transition planner promises: the batch it plans charges the turn's spend, its
  dispositions are well formed and decide the run's status, its routing patch passes the write gate,
  a started node carries the goal-gate epoch the commit leaves behind, and the loops it opens are
  bounded.
\<close>

section \<open>The rewrites act on dispositions only\<close>

definition inert :: "FactEvent list \<Rightarrow> bool" where
  "inert fs = list_all (\<lambda>f. \<not> isDisposition f) fs"

lemma inert_Nil [simp]: "inert []" and inert_Cons [simp]: "inert (f # fs) = (\<not> isDisposition f \<and> inert fs)"
  by (simp_all add: inert_def)

lemma inert_kinds:
  "\<not> isDisposition f \<Longrightarrow> \<not> isNodeStarted f \<and> \<not> isRunPaused f \<and> \<not> isSuccessContinuation f \<and> \<not> isTerminatedFact f
     \<and> \<not> isOperatorPause f"
  by (cases f) (simp_all add: isDisposition_def isNodeStarted_def isRunPaused_def isSuccessContinuation_def
      isTerminatedFact_def isOperatorPause_def)

lemma filter_inert:
  assumes "inert pre"
  shows "filter (\<lambda>f. \<not> isNodeStarted f) pre = pre" "filter (\<lambda>f. \<not> isRunPaused f) pre = pre"
    "filter (\<lambda>f. \<not> isSuccessContinuation f) pre = pre"
    "filter (\<lambda>f. \<not> isTerminatedFact f \<and> \<not> isNodeStarted f) pre = pre"
    "list_ex isSuccessContinuation pre = False" "list_ex isTerminatedFact pre = False" "list_ex isOperatorPause pre = False"
  using assms by (induction pre) (simp_all add: inert_kinds)

lemma toProviderRetry_inert: "inert pre \<Longrightarrow> toProviderRetry n r ra (pre @ ds) = pre @ toProviderRetry n r ra ds"
proof (induction pre)
  case (Cons f pre)
  then show ?case by (cases f) (simp_all add: isDisposition_def)
qed simp

lemma map_inert:
  assumes "inert pre"
  shows "map (\<lambda>f. case f of F_node_started n i p \<Rightarrow> if n = t then F_node_started n i (Some pass) else f | _ \<Rightarrow> f) pre = pre"
    "map (\<lambda>f. case f of
                 F_run_paused (RP_provider_error nodeId httpStatus provider errorMessage _ ra) \<Rightarrow>
                   F_run_paused (RP_provider_error nodeId httpStatus provider errorMessage (Some detail) (orOption ra' ra))
               | _ \<Rightarrow> f) pre = pre"
proof -
  have "list_all (\<lambda>f. \<not> isDisposition f) pre" using assms by (simp add: inert_def)
  then show "map (\<lambda>f. case f of F_node_started n i p \<Rightarrow> if n = t then F_node_started n i (Some pass) else f | _ \<Rightarrow> f) pre = pre"
    by (intro map_idI) (auto simp: list_all_iff isDisposition_def split: FactEvent.splits)
  show "map (\<lambda>f. case f of
                 F_run_paused (RP_provider_error nodeId httpStatus provider errorMessage _ ra) \<Rightarrow>
                   F_run_paused (RP_provider_error nodeId httpStatus provider errorMessage (Some detail) (orOption ra' ra))
               | _ \<Rightarrow> f) pre = pre"
    using \<open>list_all _ pre\<close> by (intro map_idI) (auto simp: list_all_iff isDisposition_def split: FactEvent.splits)
qed

lemma rewrite_inert:
  assumes "inert pre"
  shows "rewriteTerminalFacts (pre @ ds) a = pre @ rewriteTerminalFacts ds a"
proof -
  note fi = filter_inert [OF assms] and mi = map_inert [OF assms]
  have "stampGoalGateRetarget (pre @ fs) t n = pre @ stampGoalGateRetarget fs t n" for fs t n
    by (cases t; cases n) (simp_all add: stampGoalGateRetarget_def mi)
  moreover have "deferPauseAfterDispatch (pre @ fs) r d s = pre @ deferPauseAfterDispatch fs r d s" for fs r d s
    by (simp add: deferPauseAfterDispatch_def fi)
  moreover have "swapRetryPause (pre @ fs) p d = pre @ swapRetryPause fs p d" for fs p d
    by (simp add: swapRetryPause_def fi split: option.split)
  moreover have "swapRetriesExhausted (pre @ fs) p = pre @ swapRetriesExhausted fs p" for fs p
    by (simp add: swapRetriesExhausted_def fi split: option.split)
  moreover have "rewriteProviderExhausted (pre @ fs) p s = pre @ rewriteProviderExhausted fs p s" for fs p s
    by (simp add: rewriteProviderExhausted_def fi split: option.split)
  moreover have "rewriteProviderAutoRetry (pre @ fs) p r s = pre @ rewriteProviderAutoRetry fs p r s" for fs p r s
    by (simp add: rewriteProviderAutoRetry_def toProviderRetry_inert assms split: option.split ProviderRetryDecision.split)
  moreover have "annotateProviderManual (pre @ fs) p r = pre @ annotateProviderManual fs p r" for fs p r
    by (simp add: annotateProviderManual_def mi split: option.split ProviderRetryDecision.split)
  moreover have "swapBudgetPause (pre @ fs) p s = pre @ swapBudgetPause fs p s" for fs p s
    by (simp add: swapBudgetPause_def fi split: option.split)
  moreover have "swapBudgetHalt (pre @ fs) p = pre @ swapBudgetHalt fs p" for fs p
    by (simp add: swapBudgetHalt_def fi split: option.split)
  ultimately show ?thesis by (simp add: rewriteTerminalFacts_def Let_def)
qed

section \<open>The batch before the rewrites\<close>

lemma split_last: "filter P fs = [last fs] \<Longrightarrow> fs = butlast fs @ [last fs] \<and> P (last fs) \<and> list_all (\<lambda>f. \<not> P f) (butlast fs)"
proof -
  assume f: "filter P fs = [last fs]"
  then have ne: "fs \<noteq> []" by auto
  then have e: "fs = butlast fs @ [last fs]" by simp
  have p: "P (last fs)" using f by (metis filter_eq_Cons_iff)
  with f have "filter P (butlast fs) @ [last fs] = [last fs]" by (subst (asm) e) (simp del: append_butlast_last_id)
  then have "filter P (butlast fs) = []" by simp
  with e p show ?thesis by (simp add: filter_empty_conv list_all_iff)
qed

lemma result_batch:
  obtains pre d where "resultToFacts result ctx = pre @ [d]" "inert pre" "isDisposition d" "wellPlaced d"
    "d = last (resultToFacts result ctx)"
  using split_last [of isDisposition "resultToFacts result ctx"] resultToFacts_last [of result ctx]
  unfolding inert_def by blast

lemma last_transition:
  "last (resultToFacts (H_transition r) ctx) =
     (let n = orElse (tr_nextNode r) (U ''__end__'') in
      if isTerminalNode n then
        (if n = U ''__end__'' \<and> tr_outcomeStatus r = Some OS_fail
         then F_run_terminated (RT_errored (bareHalt HR_aborted_exit (Some
           (case truthy_str (tr_failureReason r) of Some t \<Rightarrow> clipFactText t
            | None \<Rightarrow> U ''node '' @ orElse (rn_currentNode (rc_state ctx)) (U ''?'') @ U '' failed with no fail route''))))
         else F_run_terminated (RT_completed n))
      else F_node_started n (nodeRetryCount (rn_routing (rc_state ctx)) n) (passField (readGoalGateRetries (rn_routing (rc_state ctx)))))"
  by (simp add: resultToFacts_def transitionToFacts_def Let_def)

lemma last_free: "isTransition result \<Longrightarrow> factUsage u (last (resultToFacts result ctx)) = 0"
  by (cases result) (simp_all add: isTransition_def last_transition Let_def)

lemma last_others_free:
  "factUsage u (last (resultToFacts (H_yield_human y) ctx)) = 0"
  "factUsage u (last (resultToFacts (H_pause_provider p) ctx)) = 0"
  "ht_reason h \<in> {HH_max_retries_exceeded, HH_goal_gate_unsatisfied, HH_max_loops} \<Longrightarrow>
     factUsage u (last (resultToFacts (H_halt h) ctx)) = 0"
  by (auto simp: resultToFacts_def yieldHumanToFacts_def pauseProviderToFacts_def haltToFacts_def Let_def maxLoopsPause_def
      split: HandlerHaltReason.splits)

section \<open>The rewrites charge nothing\<close>

abbreviation free :: "UsageField \<Rightarrow> FactEvent list \<Rightarrow> bool" where
  "free u fs \<equiv> list_all (\<lambda>f. factUsage u f = 0) fs"

lemma free_usage: "free u fs \<Longrightarrow> batchUsage u fs = 0"
  by (induction fs) simp_all

text \<open>Whatever holds of every fact of a batch, of every pause, of the retry marker and of a bare halt,
  and does not depend on the epoch of a started node that is stamped, holds of the rewritten batch.\<close>

lemma list_all_filter: "list_all P fs \<Longrightarrow> list_all P (filter Q fs)"
  by (induction fs) simp_all

lemma list_all_map: "list_all P fs \<Longrightarrow> (\<And>f. P f \<Longrightarrow> P (g f)) \<Longrightarrow> list_all P (map g fs)"
  by (induction fs) simp_all

lemma rewrite_all:
  assumes "list_all P fs" and pause: "\<And>rp. P (F_run_paused rp)"
    and "\<And>n k h t. P (F_provider_retry_attempted n k h t)" "\<And>r d. P (F_run_terminated (RT_errored (bareHalt r d)))"
    and epoch: "\<And>n k p q. rw_goalGateRetargetTarget a \<noteq> None \<Longrightarrow> P (F_node_started n k p) \<Longrightarrow> P (F_node_started n k q)"
  shows "list_all P (rewriteTerminalFacts fs a)"
proof -
  have "list_all P gs \<Longrightarrow> list_all P (stampGoalGateRetarget gs (rw_goalGateRetargetTarget a) n)" for gs n
    by (auto simp: stampGoalGateRetarget_def intro!: list_all_map split: option.split FactEvent.split)
      (metis epoch option.distinct(1))
  moreover have "list_all P gs \<Longrightarrow> list_all P (deferPauseAfterDispatch gs r d s)" for gs r d s
    by (simp add: deferPauseAfterDispatch_def list_all_filter pause)
  moreover have "list_all P gs \<Longrightarrow> list_all P (swapRetryPause gs p d)" for gs p d
    by (simp add: swapRetryPause_def list_all_filter pause split: option.split)
  moreover have "list_all P gs \<Longrightarrow> list_all P (swapRetriesExhausted gs p)" for gs p
    by (simp add: swapRetriesExhausted_def list_all_filter pause split: option.split)
  moreover have "list_all P gs \<Longrightarrow> list_all P (rewriteProviderExhausted gs p s)" for gs p s
    by (simp add: rewriteProviderExhausted_def list_all_filter pause split: option.split)
  moreover have "list_all P gs \<Longrightarrow> list_all P (toProviderRetry n r ra gs)" for gs n r ra
    by (induction gs) (auto simp: pause split: FactEvent.splits RunPausedPayload.splits)
  then have "list_all P gs \<Longrightarrow> list_all P (rewriteProviderAutoRetry gs p r s)" for gs p r s
    by (simp add: rewriteProviderAutoRetry_def assms(3) split: option.split ProviderRetryDecision.split)
  moreover have "list_all P gs \<Longrightarrow> list_all P (annotateProviderManual gs p r)" for gs p r
    by (auto simp: annotateProviderManual_def pause intro!: list_all_map
        split: option.split ProviderRetryDecision.split FactEvent.split RunPausedPayload.split)
  moreover have "list_all P gs \<Longrightarrow> list_all P (swapBudgetPause gs p s)" for gs p s
    by (simp add: swapBudgetPause_def list_all_filter pause split: option.split)
  moreover have "list_all P gs \<Longrightarrow> list_all P (swapBudgetHalt gs p)" for gs p
    by (simp add: swapBudgetHalt_def list_all_filter assms(4) split: option.split)
  ultimately show ?thesis using assms(1) by (simp add: rewriteTerminalFacts_def Let_def)
qed

lemma free_rewrite: "free u fs \<Longrightarrow> free u (rewriteTerminalFacts fs a)"
  by (rule rewrite_all) simp_all

section \<open>What the stages do to a result\<close>

definition keeps :: "TransitionResult \<Rightarrow> HandlerResult \<Rightarrow> bool" where
  \<comment> \<open>a transition that differs in where it goes and in its status only\<close>
  "keeps r result = (\<exists>n st. result = H_transition (r\<lparr>tr_nextNode := n, tr_outcomeStatus := st\<rparr>))"

lemma keeps_refl: "keeps r (H_transition r)"
  unfolding keeps_def by (rule exI [of _ "tr_nextNode r"], rule exI [of _ "tr_outcomeStatus r"]) simp

lemma keeps_next: "keeps r (H_transition (r\<lparr>tr_nextNode := n\<rparr>))"
  unfolding keeps_def by (rule exI [of _ n], rule exI [of _ "tr_outcomeStatus r"]) simp

lemma keeps_status: "keeps r (H_transition (r\<lparr>tr_outcomeStatus := st\<rparr>))"
  unfolding keeps_def by (rule exI [of _ "tr_nextNode r"], rule exI [of _ st]) simp

lemma gate_keeps:
  "keeps r (rg_result (failEdgeGate r g n s c er))" "keeps r (rg_result (retryStatusGate r g n s c er now rnd))"
  by (simp_all add: failEdgeGate_def retryStatusGate_def exhaustedRetry_def unchangedRetry_def Let_def keeps_refl keeps_next
      keeps_status split: RetryAction.split)

lemma retry_keeps: "keeps r (rg_result (applyRetryGate (H_transition r) g s c er now rnd))"
  by (simp add: applyRetryGate_def gate_keeps keeps_refl unchangedRetry_def split: option.split OutcomeStatus.split)

lemma retry_transition:
  obtains n st where "rg_result (applyRetryGate (H_transition r) g s c er now rnd) = H_transition (r\<lparr>tr_nextNode := n, tr_outcomeStatus := st\<rparr>)"
  using retry_keeps unfolding keeps_def by blast

lemma retry_others:
  "\<not> isTransition res \<Longrightarrow> applyRetryGate res g s c er now rnd
     = \<lparr>rg_result = res, rg_observability = [], rg_retryCounterPatch = None, rg_retryPause = None, rg_retriesExhaustedPause = None\<rparr>"
  by (cases res) (simp_all add: applyRetryGate_def isTransition_def)

definition gateHalts :: "TransitionInput \<Rightarrow> bool" where
  \<comment> \<open>the goal gate turned the turn's transition into a halt\<close>
  "gateHalts i = (isTransition (eo_result (sg_edge (runStages i))) \<and> \<not> isTransition (go_result (sg_goalGate (runStages i))))"

lemma gate_cases:
  obtains (same) "go_result (applyGoalGate res g s c er) = res"
  | (retarget) r t where "res = H_transition r" "go_result (applyGoalGate res g s c er) = H_transition (r\<lparr>tr_nextNode := Some t\<rparr>)"
      "go_retargetTarget (applyGoalGate res g s c er) = Some t"
  | (halt) r h where "res = H_transition r" "go_result (applyGoalGate res g s c er) = H_halt h" "ht_reason h = HH_goal_gate_unsatisfied"
proof (cases res)
  case (H_transition r)
  then show thesis
    using same retarget halt
    by (fastforce simp: applyGoalGate_def Let_def split: option.splits GoalGateAction.splits if_splits)
qed (use same in \<open>simp_all add: applyGoalGate_def\<close>)

section \<open>The turn's spend is charged\<close>

definition turnCharge :: "UsageField \<Rightarrow> TransitionInput \<Rightarrow> number" where
  \<comment> \<open>what the turn spent: of a transition its own usage, backfilled from the executor's accounting\<close>
  "turnCharge u i =
     (case ti_handlerResult i of
        H_transition r \<Rightarrow>
          (let r' = backfillAccounting (ti_accounting i) r in usageField u (tr_tokens r') (tr_costUsd r') (positiveSplit (tr_split r')))
      | result \<Rightarrow> resultCharge u result (Some (ta_usage (ti_accounting i))))"

definition sensibleTurn :: "TransitionInput \<Rightarrow> bool" where
  "sensibleTurn i =
     (case ti_handlerResult i of
        H_transition r \<Rightarrow>
          (let r' = backfillAccounting (ti_accounting i) r in sensible (tr_tokens r') (tr_costUsd r') (tr_split r'))
      | _ \<Rightarrow> True)"

definition ctxOf :: "TransitionInput \<Rightarrow> Stages \<Rightarrow> ResultContext" where
  "ctxOf i s = \<lparr>rc_state = ti_state i, rc_appliedIntentSeqs = pd_appliedSeqs (ti_decision i), rc_cancelIntentSeq = None,
            rc_usage = Some (orElse (eo_convertedTransitionUsage (sg_edge s)) (ta_usage (ti_accounting i)))\<rparr>"

definition argsOf :: "TransitionInput \<Rightarrow> Stages \<Rightarrow> RewriteArgs" where
  "argsOf i s =
     \<lparr>rw_result = rg_result (sg_retry s), rw_state = ti_state i, rw_decision = ti_decision i,
         rw_goalGateRetargetTarget = (if sg_retargetApplied s then go_retargetTarget (sg_goalGate s) else None),
         rw_goalGateRetriesPatch = (if sg_retargetApplied s then go_retriesPatch (sg_goalGate s) else None),
         rw_retryPause = rg_retryPause (sg_retry s), rw_retriesExhaustedPause = rg_retriesExhaustedPause (sg_retry s),
         rw_providerExhausted = po_providerExhausted (sg_provider s),
         rw_providerRetryDecision = po_providerRetryDecision (sg_provider s),
         rw_budgetPause = bg_budgetPause (sg_budget s), rw_budgetHaltDetail = bg_budgetHaltDetail (sg_budget s)\<rparr>"

lemma plan_facts:
  "tp_facts (planTransition i)
     = rewriteTerminalFacts (resultToFacts (rg_result (sg_retry (runStages i))) (ctxOf i (runStages i))) (argsOf i (runStages i))"
  by (simp add: planTransition_def stagesFacts_def ctxOf_def argsOf_def Let_def)

lemma plan_batch:
  obtains pre d where
    "resultToFacts (rg_result (sg_retry (runStages i))) (ctxOf i (runStages i)) = pre @ [d]" "inert pre" "isDisposition d"
    "wellPlaced d" "d = last (resultToFacts (rg_result (sg_retry (runStages i))) (ctxOf i (runStages i)))"
    "tp_facts (planTransition i) = pre @ rewriteTerminalFacts [d] (argsOf i (runStages i))"
proof -
  obtain pre d where *: "resultToFacts (rg_result (sg_retry (runStages i))) (ctxOf i (runStages i)) = pre @ [d]" "inert pre"
    "isDisposition d" "wellPlaced d" "d = last (resultToFacts (rg_result (sg_retry (runStages i))) (ctxOf i (runStages i)))"
    using result_batch [of "rg_result (sg_retry (runStages i))" "ctxOf i (runStages i)"] by blast
  then show thesis using that by (metis plan_facts rewrite_inert)
qed

lemma stages_sel:
  "sg_edge (runStages i) = selectTransitionEdge (ti_handlerResult i) (ti_graph i) (ti_currentNode i) (ti_accounting i)"
  "sg_budget (runStages i) = applyBudgetGate (eo_result (sg_edge (runStages i))) (ti_graph i) (ti_state i) (ti_currentNode i)
     (ti_iteration i) (ti_effectiveRouting i)"
  "sg_goalGate (runStages i) = applyGoalGate (eo_result (sg_edge (runStages i))) (ti_graph i) (ti_state i) (ti_currentNode i)
     (ti_effectiveRouting i)"
  "sg_retry (runStages i) = applyRetryGate (go_result (sg_goalGate (runStages i))) (ti_graph i) (ti_state i) (ti_currentNode i)
     (ti_effectiveRouting i) (ti_now i) (ti_random i)"
  "sg_provider (runStages i) = applyProviderRetry (rg_result (sg_retry (runStages i))) (ti_state i) (ti_now i) (ti_random i)
     (ti_providerRetryAfterMaxMs i)"
  by (simp_all add: runStages_def Let_def)

lemma budget_others: "\<not> isTransition res \<Longrightarrow> applyBudgetGate res g s c it er
    = \<lparr>bg_observability = [], bg_budgetWarnedTags = [], bg_budgetPause = None, bg_budgetHaltDetail = None\<rparr>"
  by (cases res) (simp_all add: applyBudgetGate_def isTransition_def)

definition isProviderPause :: "HandlerResult \<Rightarrow> bool" where
  "isProviderPause res = (case res of H_pause_provider _ \<Rightarrow> True | _ \<Rightarrow> False)"

lemma provider_others: "\<not> isProviderPause res \<Longrightarrow> applyProviderRetry res s now rnd m
    = \<lparr>po_providerRetryDecision = None, po_providerExhausted = None\<rparr>"
  by (cases res) (simp_all add: applyProviderRetry_def isProviderPause_def)

text \<open>A halt the gates did not produce passes through every stage as it is.\<close>

lemma halt_passes:
  assumes "\<not> isTransition (eo_result (sg_edge (runStages i)))" "\<not> isProviderPause (eo_result (sg_edge (runStages i)))"
  shows "rg_result (sg_retry (runStages i)) = eo_result (sg_edge (runStages i))"
    "tp_facts (planTransition i) = resultToFacts (eo_result (sg_edge (runStages i))) (ctxOf i (runStages i))"
proof -
  have g: "go_result (sg_goalGate (runStages i)) = eo_result (sg_edge (runStages i))"
    using assms(1) by (cases rule: gate_cases [of "eo_result (sg_edge (runStages i))" "ti_graph i" "ti_state i" "ti_currentNode i"
        "ti_effectiveRouting i"]) (simp_all add: stages_sel(3) isTransition_def)
  then have r: "sg_retry (runStages i) = \<lparr>rg_result = eo_result (sg_edge (runStages i)), rg_observability = [], rg_retryCounterPatch = None,
      rg_retryPause = None, rg_retriesExhaustedPause = None\<rparr>"
    using retry_others [OF assms(1)] by (simp add: stages_sel(4))
  then show "rg_result (sg_retry (runStages i)) = eo_result (sg_edge (runStages i))" by simp
  have b: "sg_budget (runStages i) = \<lparr>bg_observability = [], bg_budgetWarnedTags = [], bg_budgetPause = None, bg_budgetHaltDetail = None\<rparr>"
    using budget_others [OF assms(1)] by (simp add: stages_sel(2))
  have p: "sg_provider (runStages i) = \<lparr>po_providerRetryDecision = None, po_providerExhausted = None\<rparr>"
    using provider_others assms(2) r by (simp add: stages_sel(5))
  have a: "sg_retargetApplied (runStages i) = False" using assms(1) r by (simp add: runStages_def Let_def)
  have n: "\<not> isTransition (rg_result (sg_retry (runStages i)))" using assms(1) r by simp
  show "tp_facts (planTransition i) = resultToFacts (eo_result (sg_edge (runStages i))) (ctxOf i (runStages i))"
    using n by (simp add: plan_facts argsOf_def r b p a rewriteTerminalFacts_def stampGoalGateRetarget_def deferPauseAfterDispatch_def
        swapRetryPause_def swapRetriesExhausted_def rewriteProviderExhausted_def rewriteProviderAutoRetry_def
        annotateProviderManual_def swapBudgetPause_def swapBudgetHalt_def Let_def)
qed

lemma edge_cases:
  assumes "handlerResult = H_transition r0"
  obtains (move) n where
      "eo_result (selectTransitionEdge handlerResult g c acc) = H_transition ((backfillAccounting acc r0)\<lparr>tr_nextNode := Some n\<rparr>)"
      "eo_convertedTransitionUsage (selectTransitionEdge handlerResult g c acc) = None"
  | (nomatch) rt where "selectTransitionEdge handlerResult g c acc = edgeNoMatch (backfillAccounting acc r0) rt c"
proof (cases "tr_nextNode (backfillAccounting acc r0)")
  case None
  show thesis
  proof (cases "nodeOf g c")
    case None
    with \<open>tr_nextNode _ = None\<close> show thesis
      using move [of "U ''__end__''"] assms by (simp add: selectTransitionEdge_def Let_def plainEdgeOutcome_def split: option.splits)
  next
    case (Some n)
    with \<open>tr_nextNode _ = None\<close> show thesis
      using move nomatch assms
      by (fastforce simp: selectTransitionEdge_def Let_def plainEdgeOutcome_def nodeOf_def split: option.splits)
  qed
next
  case (Some n)
  have "(backfillAccounting acc r0)\<lparr>tr_nextNode := Some n\<rparr> = backfillAccounting acc r0" using Some by (cases "backfillAccounting acc r0") simp
  with Some show thesis using move [of n] assms by (simp add: selectTransitionEdge_def Let_def plainEdgeOutcome_def)
qed

lemma charge_usageOf_any: "chargeOf u (usageOf t c p) = usageField u t c (positiveSplit p)"
proof -
  have "orElse (pos_only (Some (orElse x 0))) 0 = orElse (pos_only x) 0" for x
    by (cases x) (simp_all add: pos_only_def)
  then show ?thesis by (cases u) (simp_all add: chargeOf_def usageOf_def positiveSplit_def usageSplit_def)
qed

lemma silent_positive: "sensible t c p \<Longrightarrow> \<not> spends t c \<Longrightarrow> usageField u t c (positiveSplit p) = 0"
  using charge_usageOf [of t c p u] usage_silent [of t c p u] charge_usageOf_any [of u t c p] by simp

lemma plan_charge_free:
  assumes "factUsage u (last (resultToFacts (rg_result (sg_retry (runStages i))) (ctxOf i (runStages i)))) = 0"
  shows "batchUsage u (tp_facts (planTransition i))
    = resultCharge u (rg_result (sg_retry (runStages i))) (rc_usage (ctxOf i (runStages i)))"
proof (rule plan_batch [of i])
  fix pre d
  assume *: "resultToFacts (rg_result (sg_retry (runStages i))) (ctxOf i (runStages i)) = pre @ [d]"
    "d = last (resultToFacts (rg_result (sg_retry (runStages i))) (ctxOf i (runStages i)))"
    "tp_facts (planTransition i) = pre @ rewriteTerminalFacts [d] (argsOf i (runStages i))"
  have "factUsage u d = 0" using * assms by simp
  then have "batchUsage u (rewriteTerminalFacts [d] (argsOf i (runStages i))) = 0"
    by (intro free_usage free_rewrite) simp
  moreover have "batchUsage u (pre @ [d]) = resultCharge u (rg_result (sg_retry (runStages i))) (rc_usage (ctxOf i (runStages i)))"
    using resultToFacts_usage *(1) by metis
  ultimately show ?thesis using *(3) \<open>factUsage u d = 0\<close> by simp
qed

text \<open>C12: a turn's spend is charged exactly once, through all eight stages and nine rewrites: the planned
  batch charges what the handler reported (backfilled from the executor's accounting where it
  reported nothing), also when no edge matches and when the turn is paused or halted by the budget,
  a retry cap, the operator or the provider. The one exception is a goal gate that halts the run: its
  batch charges nothing, so the completed turn's spend is lost.\<close>

theorem planTransition_charge:
  assumes "sensibleTurn i"
  shows "batchUsage u (tp_facts (planTransition i)) = (if gateHalts i then 0 else turnCharge u i)"
proof (cases "ti_handlerResult i")
  case tr: (H_transition r0)
  let ?r = "backfillAccounting (ti_accounting i) r0"
  from tr show ?thesis
  proof (cases rule: edge_cases [of "ti_handlerResult i" r0 "ti_graph i" "ti_currentNode i" "ti_accounting i"])
    case (move n)
    note edge = move [folded stages_sel(1)]
    show ?thesis
    proof (cases rule: gate_cases [of "eo_result (sg_edge (runStages i))" "ti_graph i" "ti_state i" "ti_currentNode i" "ti_effectiveRouting i"])
      case same
      note g = same [folded stages_sel(3), unfolded edge]
      obtain m st where f: "rg_result (sg_retry (runStages i)) = H_transition (?r\<lparr>tr_nextNode := m, tr_outcomeStatus := st\<rparr>)"
        using retry_keeps [of "?r\<lparr>tr_nextNode := Some n\<rparr>"] unfolding stages_sel(4) g keeps_def by force
      then show ?thesis using plan_charge_free [of u i] last_free [of "rg_result (sg_retry (runStages i))" u] edge g tr
        by (simp add: isTransition_def resultCharge_def turnCharge_def gateHalts_def Let_def)
    next
      case (retarget r t)
      note g = retarget(2) [folded stages_sel(3)]
      have r: "r = ?r\<lparr>tr_nextNode := Some n\<rparr>" using retarget(1) edge by simp
      obtain m st where f: "rg_result (sg_retry (runStages i)) = H_transition (?r\<lparr>tr_nextNode := m, tr_outcomeStatus := st\<rparr>)"
        using retry_keeps [of "?r\<lparr>tr_nextNode := Some t\<rparr>"] r unfolding stages_sel(4) g keeps_def by force
      then show ?thesis using plan_charge_free [of u i] last_free [of "rg_result (sg_retry (runStages i))" u] edge g tr
        by (simp add: isTransition_def resultCharge_def turnCharge_def gateHalts_def Let_def)
    next
      case (halt r h)
      note g = halt(2) [folded stages_sel(3)]
      have f: "rg_result (sg_retry (runStages i)) = H_halt h"
        unfolding stages_sel(4) g by (simp add: applyRetryGate_def)
      then show ?thesis using plan_charge_free [of u i] last_others_free(3) [of h u] halt(3) edge g
        by (simp add: isTransition_def resultCharge_def gateHalts_def)
    qed
  next
    case (nomatch rt)
    note edge = nomatch [folded stages_sel(1)]
    have s: "sensible (tr_tokens ?r) (tr_costUsd ?r) (tr_split ?r)" using assms tr by (simp add: sensibleTurn_def Let_def)
    have "\<not> gateHalts i" using edge by (simp add: gateHalts_def edgeNoMatch_def isTransition_def)
    moreover have "tp_facts (planTransition i) = resultToFacts (eo_result (sg_edge (runStages i))) (ctxOf i (runStages i))"
      using halt_passes(2) edge by (simp add: edgeNoMatch_def isTransition_def isProviderPause_def)
    ultimately show ?thesis using edge tr silent_positive [OF s]
      by (simp add: resultToFacts_usage ctxOf_def edgeNoMatch_def resultCharge_def turnCharge_def charge_usageOf_any hasSpend_def Let_def)
  qed
next
  case (H_pause_provider p)
  have e: "eo_result (sg_edge (runStages i)) = H_pause_provider p" "eo_convertedTransitionUsage (sg_edge (runStages i)) = None"
    using H_pause_provider by (simp_all add: stages_sel(1) selectTransitionEdge_def)
  have "rg_result (sg_retry (runStages i)) = H_pause_provider p"
    by (simp add: stages_sel(3,4) e applyGoalGate_def applyRetryGate_def)
  then show ?thesis using plan_charge_free [of u i] last_others_free(2) [of u p] e H_pause_provider
    by (simp add: ctxOf_def turnCharge_def gateHalts_def isTransition_def)
next
  case (H_yield_human y)
  have e: "eo_result (sg_edge (runStages i)) = H_yield_human y" "eo_convertedTransitionUsage (sg_edge (runStages i)) = None"
    using H_yield_human by (simp_all add: stages_sel(1) selectTransitionEdge_def)
  then show ?thesis using halt_passes(2) [of i] H_yield_human
    by (simp add: isTransition_def isProviderPause_def resultToFacts_usage ctxOf_def turnCharge_def gateHalts_def)
next
  case (H_halt h)
  have e: "eo_result (sg_edge (runStages i)) = H_halt h" "eo_convertedTransitionUsage (sg_edge (runStages i)) = None"
    using H_halt by (simp_all add: stages_sel(1) selectTransitionEdge_def)
  then show ?thesis using halt_passes(2) [of i] H_halt
    by (simp add: isTransition_def isProviderPause_def resultToFacts_usage ctxOf_def turnCharge_def gateHalts_def)
qed

definition sampleTurn :: TransitionInput where
  \<comment> \<open>node a reports 30 tokens and goes to node b\<close>
  "sampleTurn = \<lparr>ti_state = (genesisToInitialState (U ''r'') samplePayload 0)\<lparr>rn_currentNode := Some (U ''a'')\<rparr>,
     ti_decision = \<lparr>pd_routingDelta = [], pd_steering = None, pd_humanInput = None, pd_shouldPause = False,
       pd_shouldPauseAfterDispatch = False, pd_appliedSeqs = [4], pd_dropped = []\<rparr>,
     ti_graph = None,
     ti_handlerResult = H_transition \<lparr>tr_nextNode = Some (U ''b''), tr_outcomeStatus = Some OS_success, tr_route = None,
       tr_failureReason = None, tr_tokens = 30, tr_costUsd = 0, tr_split = usageSplit noUsage, tr_modelName = None,
       tr_outputs = None, tr_operatorNote = None\<rparr>,
     ti_accounting = initialTotals, ti_effectiveRouting = [], ti_currentNode = U ''a'', ti_iteration = 0, ti_now = 100,
     ti_random = 0, ti_providerRetryAfterMaxMs = None\<rparr>"

definition sampleGateTurn :: TransitionInput where
  \<comment> \<open>a gate that fails at the end of its run, without a node to retarget to\<close>
  "sampleGateTurn = (let gate = \<lparr>nd_id = U ''a'', nd_type = NT_llm, nd_attrs = noAttrs\<lparr>na_goal_gate := Some True\<rparr>\<rparr> in
     sampleTurn\<lparr>ti_graph := Some \<lparr>gr_id = U ''g'', gr_attrs = noGraphAttrs, gr_nodes = [(U ''a'', gate)], gr_edges = []\<rparr>,
       ti_handlerResult := H_transition \<lparr>tr_nextNode = Some (U ''__end__''), tr_outcomeStatus = Some OS_fail, tr_route = None,
       tr_failureReason = None, tr_tokens = 30, tr_costUsd = 0, tr_split = usageSplit noUsage, tr_modelName = None,
       tr_outputs = None, tr_operatorNote = None\<rparr>\<rparr>)"

definition sampleBudgetTurn :: TransitionInput where
  \<comment> \<open>the same gate with a node to retarget to, under a token budget of 10 that pauses\<close>
  "sampleBudgetTurn = (let gate = \<lparr>nd_id = U ''a'', nd_type = NT_llm, nd_attrs = noAttrs\<lparr>na_goal_gate := Some True,
         na_retry_target := Some (U ''b''), na_max_retries := Some 1, na_max_tokens := Some 10\<rparr>\<rparr>;
       b = \<lparr>nd_id = U ''b'', nd_type = NT_llm, nd_attrs = noAttrs\<rparr> in
     sampleTurn\<lparr>ti_graph := Some \<lparr>gr_id = U ''g'', gr_attrs = noGraphAttrs, gr_nodes = [(U ''a'', gate), (U ''b'', b)], gr_edges = []\<rparr>,
       ti_handlerResult := H_transition \<lparr>tr_nextNode = Some (U ''__end__''), tr_outcomeStatus = Some OS_fail, tr_route = None,
       tr_failureReason = None, tr_tokens = 30, tr_costUsd = 0, tr_split = (usageSplit noUsage)\<lparr>us_inputTokens := Some 30\<rparr>, tr_modelName = None,
       tr_outputs = None, tr_operatorNote = None\<rparr>\<rparr>)"
definition sampleRetargetTurn :: TransitionInput where
  \<comment> \<open>that turn without its budget\<close>
  "sampleRetargetTurn = sampleBudgetTurn\<lparr>ti_graph := map_option (\<lambda>g. g\<lparr>gr_nodes :=
     map (\<lambda>(k, n). (k, n\<lparr>nd_attrs := (nd_attrs n)\<lparr>na_max_tokens := None\<rparr>\<rparr>)) (gr_nodes g)\<rparr>) (ti_graph sampleBudgetTurn)\<rparr>"

theorem planTransition_charge_witness:
  "batchUsage UF_billedTokens (tp_facts (planTransition sampleTurn)) = 30
   \<and> turnCharge UF_billedTokens sampleGateTurn = 30 \<and> batchUsage UF_billedTokens (tp_facts (planTransition sampleGateTurn)) = 0"
proof -
  have t: "sensibleTurn sampleTurn" "\<not> gateHalts sampleTurn" "turnCharge UF_billedTokens sampleTurn = 30" by code_simp+
  have g: "sensibleTurn sampleGateTurn" "gateHalts sampleGateTurn" "turnCharge UF_billedTokens sampleGateTurn = 30" by code_simp+
  from planTransition_charge [OF t(1), of UF_billedTokens] planTransition_charge [OF g(1), of UF_billedTokens] show ?thesis
    using t g by simp
qed

section \<open>Dispositions of a planned batch\<close>

definition dispStatus :: "FactEvent \<Rightarrow> RunStatus" where
  \<comment> \<open>the status a disposition stands for\<close>
  "dispStatus f =
     (case f of
        F_node_started _ _ _ \<Rightarrow> St_running
      | F_run_paused p \<Rightarrow> pausedStatus p
      | F_run_terminated (RT_completed _) \<Rightarrow> St_completed
      | F_run_terminated (RT_errored _) \<Rightarrow> St_halted
      | F_run_terminated (RT_aborted _) \<Rightarrow> St_cancelled
      | _ \<Rightarrow> St_running)"

definition plannedKind :: "FactEvent \<Rightarrow> bool" where
  "plannedKind f =
     (case f of F_intents_folded _ _ \<Rightarrow> True | F_node_completed _ \<Rightarrow> True | F_node_aborted _ \<Rightarrow> True
      | F_provider_retry_attempted _ _ _ _ \<Rightarrow> True | _ \<Rightarrow> isDisposition f)"

lemma plannedKind_simps [simp]:
  "plannedKind (F_intents_folded q j)" "plannedKind (F_node_completed p)" "plannedKind (F_node_aborted ab)"
  "plannedKind (F_provider_retry_attempted n k h t)" "plannedKind (F_run_paused rp)" "plannedKind (F_run_terminated rt)"
  "plannedKind (F_node_started n k ps)"
  by (simp_all add: plannedKind_def)

lemma planned_status:
  "plannedKind f \<Longrightarrow> rn_status (applyFact s f now) = (if isDisposition f then dispStatus f else rn_status s)"
  by (cases f) (simp_all add: plannedKind_def isDisposition_def dispStatus_def applyFact_def status_terminated split: RunTerminatedPayload.split)

lemma fold_status:
  "list_all plannedKind fs \<Longrightarrow> rn_status (foldFacts s fs now)
     = (if filter isDisposition fs = [] then rn_status s else dispStatus (last (filter isDisposition fs)))"
  by (induction fs arbitrary: s) (auto simp: foldFacts_Cons planned_status)

lemma result_planned: "list_all plannedKind (resultToFacts result ctx)"
proof -
  have m: "list_all plannedKind (map (\<lambda>q. F_intents_folded q j) qs)" for j qs by (induction qs) simp_all
  have "list_all plannedKind (transitionToFacts r ctx)" for r
    by (simp add: transitionToFacts_def Let_def)
  moreover have "list_all plannedKind (yieldHumanToFacts r ctx)" for r
    by (simp add: yieldHumanToFacts_def)
  moreover have "list_all plannedKind (terminalHalt reason r ctx)" for reason r
    by (simp add: terminalHalt_def Let_def)
  then have "list_all plannedKind (haltToFacts r ctx)" for r
    by (cases "ht_reason r") (simp_all add: haltToFacts_def maxLoopsPause_def Let_def)
  moreover have "list_all plannedKind (exitSpendFacts n k c h p)" for n k c h p
    by (simp add: exitSpendFacts_def)
  then have "list_all plannedKind (pauseProviderToFacts r ctx)" for r
    by (simp add: pauseProviderToFacts_def Let_def split: option.split)
  ultimately show ?thesis by (cases result) (simp_all add: resultToFacts_def m)
qed

lemma plan_planned: "list_all plannedKind (tp_facts (planTransition i))"
  unfolding plan_facts by (rule rewrite_all) (simp_all add: result_planned)

definition parked :: "FactEvent list \<Rightarrow> bool" where
  \<comment> \<open>the dispositions are pauses, and there is one\<close>
  "parked fs = (list_all (\<lambda>f. isDisposition f \<longrightarrow> isRunPaused f) fs \<and> list_ex isDisposition fs)"

lemma isRunPaused_simps [simp]: "isRunPaused (F_run_paused rp)"
  by (simp add: isRunPaused_def)

lemma paused_if: "(isDisposition f \<longrightarrow> isRunPaused f) \<Longrightarrow> \<not> isNodeStarted f \<and> \<not> isSuccessContinuation f \<and> \<not> isTerminatedFact f"
  by (cases f) (simp_all add: isDisposition_def isRunPaused_def isNodeStarted_def isSuccessContinuation_def isTerminatedFact_def)

lemma parked_none:
  assumes "parked fs"
  shows "list_ex isSuccessContinuation fs = False" "list_ex isTerminatedFact fs = False"
    "filter (\<lambda>f. \<not> isNodeStarted f) fs = fs" "filter (\<lambda>f. \<not> isTerminatedFact f \<and> \<not> isNodeStarted f) fs = fs"
  using paused_if assms unfolding parked_def list_all_iff list_ex_iff by (auto intro: filter_True)

lemma parked_append: "list_all (\<lambda>f. isDisposition f \<longrightarrow> isRunPaused f) fs \<Longrightarrow> parked (fs @ [F_run_paused rp])"
  "parked fs \<Longrightarrow> parked (fs @ [F_run_paused rp])" "parked fs \<Longrightarrow> parked (fs @ [F_provider_retry_attempted n k h t])"
  by (simp_all add: parked_def)

lemma parked_paused: "parked fs \<Longrightarrow> list_all (\<lambda>f. isDisposition f \<longrightarrow> isRunPaused f) (filter P fs)"
  by (simp add: parked_def list_all_filter)

lemma parked_map:
  "parked fs \<Longrightarrow> (\<And>f. (isDisposition f \<longrightarrow> isRunPaused f) \<Longrightarrow> isDisposition (g f) = isDisposition f \<and> (isDisposition (g f) \<longrightarrow> isRunPaused (g f)))
     \<Longrightarrow> parked (map g fs)"
  unfolding parked_def list_all_iff list_ex_iff by (simp add: ball_simps bex_simps)

lemma annotate_kind:
  "isDisposition (case f of
       F_run_paused (RP_provider_error nodeId httpStatus provider errorMessage _ ra) \<Rightarrow>
         F_run_paused (RP_provider_error nodeId httpStatus provider errorMessage (Some detail) (orOption ra' ra))
     | _ \<Rightarrow> f) = isDisposition f"
  "isRunPaused (case f of
       F_run_paused (RP_provider_error nodeId httpStatus provider errorMessage _ ra) \<Rightarrow>
         F_run_paused (RP_provider_error nodeId httpStatus provider errorMessage (Some detail) (orOption ra' ra))
     | _ \<Rightarrow> f) = isRunPaused f"
  by (cases f; simp split: RunPausedPayload.split)+

lemma parked_toProviderRetry: "parked fs \<Longrightarrow> parked (toProviderRetry n r ra fs)"
proof -
  have "list_all (\<lambda>f. isDisposition f \<longrightarrow> isRunPaused f) fs \<Longrightarrow>
      list_all (\<lambda>f. isDisposition f \<longrightarrow> isRunPaused f) (toProviderRetry n r ra fs)
      \<and> list_ex isDisposition (toProviderRetry n r ra fs) = list_ex isDisposition fs"
    by (induction fs) (auto split: FactEvent.splits RunPausedPayload.splits)
  then show "parked fs \<Longrightarrow> parked (toProviderRetry n r ra fs)" by (simp add: parked_def)
qed

lemma parked_steps:
  assumes "parked fs"
  shows "stampGoalGateRetarget fs t n = fs" "deferPauseAfterDispatch fs r d s = fs" "parked (swapRetryPause fs p d)"
    "parked (swapRetriesExhausted fs x)" "parked (rewriteProviderExhausted fs pe s)"
    "parked (rewriteProviderAutoRetry fs pd r s)" "parked (annotateProviderManual fs pd r)" "parked (swapBudgetPause fs b s)"
proof -
  note none = parked_none [OF assms]
  have "F_node_started m k ps \<notin> set fs" for m k ps
    using assms by (auto simp: parked_def list_all_iff isRunPaused_def)
  then show "stampGoalGateRetarget fs t n = fs"
    by (auto simp: stampGoalGateRetarget_def intro!: map_idI split: option.split FactEvent.split)
  show "deferPauseAfterDispatch fs r d s = fs" by (simp add: deferPauseAfterDispatch_def none)
  show "parked (swapRetryPause fs p d)" using assms by (simp add: swapRetryPause_def none parked_append split: option.split)
  show "parked (swapRetriesExhausted fs x)" using assms by (simp add: swapRetriesExhausted_def none parked_append split: option.split)
  show "parked (rewriteProviderExhausted fs pe s)"
    using assms by (simp add: rewriteProviderExhausted_def parked_append(1) parked_paused split: option.split)
  show "parked (rewriteProviderAutoRetry fs pd r s)"
    using assms by (simp add: rewriteProviderAutoRetry_def parked_append parked_toProviderRetry split: option.split ProviderRetryDecision.split)
  show "parked (annotateProviderManual fs pd r)"
    using assms by (auto simp: annotateProviderManual_def annotate_kind intro!: parked_map
        split: option.split ProviderRetryDecision.split)
  show "parked (swapBudgetPause fs b s)" using assms by (simp add: swapBudgetPause_def none parked_append split: option.split)
qed

definition wellShaped :: "FactEvent list \<Rightarrow> bool" where
  \<comment> \<open>one started node and nothing else, or pauses, the last of which may be a terminal instead\<close>
  "wellShaped fs =
     (\<exists>ps d. filter isDisposition fs = map F_run_paused ps @ [d] \<and> isDisposition d \<and> \<not> (isNodeStarted d \<and> ps \<noteq> []))"

lemma parked_pauses: "list_all (\<lambda>f. isDisposition f \<longrightarrow> isRunPaused f) fs \<Longrightarrow> \<exists>ps. filter isDisposition fs = map F_run_paused ps"
proof (induction fs)
  case (Cons f fs)
  then obtain ps where ps: "filter isDisposition fs = map F_run_paused ps" by auto
  show ?case
  proof (cases "isDisposition f")
    case True
    then obtain rp where "f = F_run_paused rp" using Cons.prems by (cases f) (auto simp: isRunPaused_def)
    with ps have "filter isDisposition (f # fs) = map F_run_paused (rp # ps)" by simp
    then show ?thesis by blast
  qed (use ps in auto)
qed simp

lemma parked_wellShaped: "parked fs \<Longrightarrow> wellShaped fs"
proof -
  assume p: "parked fs"
  then obtain ps where ps: "filter isDisposition fs = map F_run_paused ps" using parked_pauses by (auto simp: parked_def)
  have "ps \<noteq> []" using p ps by (auto simp: parked_def list_ex_iff filter_empty_conv)
  then have "filter isDisposition fs = map F_run_paused (butlast ps) @ [F_run_paused (last ps)] \<and> isDisposition (F_run_paused (last ps))
      \<and> \<not> (isNodeStarted (F_run_paused (last ps)) \<and> butlast ps \<noteq> [])"
    using ps by (simp add: isNodeStarted_def) (metis append_butlast_last_id list.simps(8,9) map_append)
  then show ?thesis unfolding wellShaped_def by blast
qed

lemma parked_terminal: "list_all (\<lambda>f. isDisposition f \<longrightarrow> isRunPaused f) fs \<Longrightarrow> wellShaped (fs @ [F_run_terminated t])"
  unfolding wellShaped_def using parked_pauses [of fs] by (auto simp: isNodeStarted_def)

lemma single_wellShaped: "isDisposition d \<Longrightarrow> wellShaped [d]"
  unfolding wellShaped_def by (rule exI [of _ "[]"]) simp

lemma parked_halt: "parked fs \<Longrightarrow> wellShaped (swapBudgetHalt fs b)"
  by (cases b) (simp_all add: swapBudgetHalt_def parked_none parked_wellShaped, simp add: parked_def parked_terminal)

lemma paused_rewrite: "parked fs \<Longrightarrow> wellShaped (rewriteTerminalFacts fs a)"
  unfolding rewriteTerminalFacts_def Let_def by (simp add: parked_steps parked_halt)

lemma started_kinds [simp]:
  "isNodeStarted (F_node_started n k p)" "\<not> isTerminatedFact (F_node_started n k p)" "isSuccessContinuation (F_node_started n k p)"
  "\<not> isNodeStarted (F_run_terminated t)" "isTerminatedFact (F_run_terminated t)"
  by (simp_all add: isNodeStarted_def isTerminatedFact_def isSuccessContinuation_def)

definition startedOrParked :: "FactEvent list \<Rightarrow> bool" where
  "startedOrParked fs = (parked fs \<or> (\<exists>n k p. fs = [F_node_started n k p]))"

lemma parked_single [simp]: "parked [F_run_paused rp]"
  by (simp add: parked_def)

lemma startedOrParked_steps:
  assumes "startedOrParked fs"
  shows "startedOrParked (stampGoalGateRetarget fs t m)" "startedOrParked (deferPauseAfterDispatch fs r d s)"
    "startedOrParked (swapRetryPause fs p d)" "startedOrParked (swapRetriesExhausted fs x)" "startedOrParked (swapBudgetPause fs b s)"
    "wellShaped (swapBudgetHalt fs h)"
proof -
  consider "parked fs" | n k q where "fs = [F_node_started n k q]" using assms unfolding startedOrParked_def by blast
  then have "startedOrParked (stampGoalGateRetarget fs t m) \<and> startedOrParked (deferPauseAfterDispatch fs r d s)
    \<and> startedOrParked (swapRetryPause fs p d) \<and> startedOrParked (swapRetriesExhausted fs x) \<and> startedOrParked (swapBudgetPause fs b s)
    \<and> wellShaped (swapBudgetHalt fs h)"
  proof cases
    case 1
    then show ?thesis by (simp add: startedOrParked_def parked_steps parked_halt)
  next
    case 2
    then show ?thesis
      by (simp add: startedOrParked_def stampGoalGateRetarget_def deferPauseAfterDispatch_def swapRetryPause_def swapRetriesExhausted_def
          swapBudgetPause_def swapBudgetHalt_def single_wellShaped split: option.split)
  qed
  then show "startedOrParked (stampGoalGateRetarget fs t m)" "startedOrParked (deferPauseAfterDispatch fs r d s)"
    "startedOrParked (swapRetryPause fs p d)" "startedOrParked (swapRetriesExhausted fs x)" "startedOrParked (swapBudgetPause fs b s)"
    "wellShaped (swapBudgetHalt fs h)" by blast+
qed

lemma no_provider:
  "rewriteProviderExhausted fs None s = fs" "rewriteProviderAutoRetry fs None r s = fs" "annotateProviderManual fs None r = fs"
  by (simp_all add: rewriteProviderExhausted_def rewriteProviderAutoRetry_def annotateProviderManual_def)

lemma started_rewrite:
  assumes "rw_providerExhausted a = None" "rw_providerRetryDecision a = None"
  shows "wellShaped (rewriteTerminalFacts [F_node_started n k p] a)"
proof -
  have "startedOrParked [F_node_started n k p]" by (simp add: startedOrParked_def)
  then show ?thesis by (simp add: rewriteTerminalFacts_def Let_def assms no_provider startedOrParked_steps)
qed

lemma terminated_rewrite:
  assumes "rw_providerExhausted a = None" "rw_providerRetryDecision a = None" "rw_retryPause a = None" "rw_retriesExhaustedPause a = None"
  shows "wellShaped (rewriteTerminalFacts [F_run_terminated t] a)"
proof -
  have stamp: "stampGoalGateRetarget [F_run_terminated t] tg m = [F_run_terminated t]" for tg m
    by (simp add: stampGoalGateRetarget_def split: option.split)
  have dfr: "deferPauseAfterDispatch [F_run_terminated t] r d s \<in> {[F_run_terminated t], [F_run_paused (RP_operator (currentNodeOf s))]}" for r d s
    by (simp add: deferPauseAfterDispatch_def)
  have "wellShaped (swapBudgetHalt (swapBudgetPause fs b s) h)"
    if "fs \<in> {[F_run_terminated t], [F_run_paused (RP_operator (currentNodeOf s))]}" for fs b h s
  proof (cases "fs = [F_run_terminated t]")
    case True
    then show ?thesis by (simp add: swapBudgetPause_def swapBudgetHalt_def single_wellShaped split: option.split)
  next
    case False
    with that have "parked fs" by simp
    then show ?thesis by (simp add: parked_steps parked_halt)
  qed
  then show ?thesis using dfr
    by (simp add: rewriteTerminalFacts_def Let_def assms no_provider stamp swapRetryPause_def swapRetriesExhausted_def)
qed

section \<open>The plan decides the run's status\<close>

definition pausesAt :: "ustring \<Rightarrow> RetryGateOutcome \<Rightarrow> bool" where
  \<comment> \<open>an outcome that pauses for a retry points back at the node\<close>
  "pausesAt c x = (rg_retryPause x = None \<and> rg_retriesExhaustedPause x = None \<or> nextNodeOf (rg_result x) = Some c)"

lemma gates_pause: "pausesAt c (failEdgeGate r g n s c er)" "pausesAt c (retryStatusGate r g n s c er now rnd)"
  by (simp_all add: pausesAt_def failEdgeGate_def retryStatusGate_def exhaustedRetry_def unchangedRetry_def nextNodeOf_def Let_def
      split: RetryAction.split)

lemma retry_pausesAt: "pausesAt c (applyRetryGate res g s c er now rnd)"
proof (cases res)
  case (H_transition r)
  have "pausesAt c (unchangedRetry r)" "pausesAt c (unchangedRetry r\<lparr>rg_retryCounterPatch := p\<rparr>)" for p
    by (simp_all add: pausesAt_def unchangedRetry_def)
  then show ?thesis
    using H_transition by (simp add: applyRetryGate_def gates_pause split: option.split OutcomeStatus.split)
qed (simp_all add: applyRetryGate_def pausesAt_def)

lemma plan_shape:
  assumes "\<not> isTerminalNode (ti_currentNode i)"
  shows "wellShaped (tp_facts (planTransition i))"
proof (rule plan_batch [of i])
  fix pre d
  assume *: "resultToFacts (rg_result (sg_retry (runStages i))) (ctxOf i (runStages i)) = pre @ [d]" "inert pre" "isDisposition d"
    "d = last (resultToFacts (rg_result (sg_retry (runStages i))) (ctxOf i (runStages i)))"
    "tp_facts (planTransition i) = pre @ rewriteTerminalFacts [d] (argsOf i (runStages i))"
  have "wellShaped (rewriteTerminalFacts [d] (argsOf i (runStages i)))"
  proof (cases "isRunPaused d")
    case True
    then have "parked [d]" using *(3) by (simp add: parked_def)
    then show ?thesis by (rule paused_rewrite)
  next
    case False
    have np: "\<not> isProviderPause (rg_result (sg_retry (runStages i)))"
    proof
      assume "isProviderPause (rg_result (sg_retry (runStages i)))"
      then obtain p where "rg_result (sg_retry (runStages i)) = H_pause_provider p"
        by (cases "rg_result (sg_retry (runStages i))") (simp_all add: isProviderPause_def)
      then have "isRunPaused d" using *(4) by (simp add: resultToFacts_def pauseProviderToFacts_def Let_def split: option.splits)
      with False show False by simp
    qed
    then have pn: "rw_providerExhausted (argsOf i (runStages i)) = None" "rw_providerRetryDecision (argsOf i (runStages i)) = None"
      using provider_others [OF np] by (simp_all add: argsOf_def stages_sel(5))
    show ?thesis
    proof (cases "isNodeStarted d")
      case True
      then obtain n k p where "d = F_node_started n k p" by (cases d) (simp_all add: isNodeStarted_def)
      then show ?thesis using started_rewrite [OF pn] by simp
    next
      case ns: False
      then obtain t where t: "d = F_run_terminated t" using False *(3) by (cases d) (simp_all add: isNodeStarted_def isDisposition_def)
      have "rg_retryPause (sg_retry (runStages i)) = None \<and> rg_retriesExhaustedPause (sg_retry (runStages i)) = None"
      proof (rule ccontr)
        assume "\<not> ?thesis"
        then have c: "nextNodeOf (rg_result (sg_retry (runStages i))) = Some (ti_currentNode i)"
          using retry_pausesAt unfolding stages_sel(4) pausesAt_def by blast
        then obtain r where r: "rg_result (sg_retry (runStages i)) = H_transition r" "tr_nextNode r = Some (ti_currentNode i)"
          by (cases "rg_result (sg_retry (runStages i))") (simp_all add: nextNodeOf_def)
        then have "isNodeStarted d" using *(4) assms by (simp add: last_transition Let_def)
        with ns show False by simp
      qed
      then show ?thesis using terminated_rewrite [OF pn] t by (simp add: argsOf_def)
    qed
  qed
  then show ?thesis using *(2,5) by (simp add: wellShaped_def inert_def filter_empty_conv list_all_iff)
qed

text \<open>C13: the dispositions of a planned batch are well formed and decide where the run goes. For a turn of
  a node that is no terminal, the batch either starts one node and holds no other disposition, or it
  holds pauses, the last disposition being a pause or the one terminal; and folding the batch into
  any state leaves the run in the status of that last disposition.\<close>

theorem planTransition_disposition:
  assumes "\<not> isTerminalNode (ti_currentNode i)"
  shows "\<exists>ps d. filter isDisposition (tp_facts (planTransition i)) = map F_run_paused ps @ [d] \<and> isDisposition d
    \<and> \<not> (isNodeStarted d \<and> ps \<noteq> [])
    \<and> rn_status (foldFacts s (tp_facts (planTransition i)) now) = dispStatus d"
proof -
  obtain ps d where *: "filter isDisposition (tp_facts (planTransition i)) = map F_run_paused ps @ [d]" "isDisposition d"
    "\<not> (isNodeStarted d \<and> ps \<noteq> [])" using plan_shape [OF assms] unfolding wellShaped_def by blast
  then have "rn_status (foldFacts s (tp_facts (planTransition i)) now) = dispStatus d"
    by (simp add: fold_status [OF plan_planned])
  with * show ?thesis by blast
qed

theorem planTransition_disposition_witness:
  "\<exists>ps d. filter isDisposition (tp_facts (planTransition sampleBudgetTurn)) = map F_run_paused ps @ [d] \<and> isDisposition d
    \<and> \<not> (isNodeStarted d \<and> ps \<noteq> [])
    \<and> rn_status (foldFacts (ti_state sampleTurn) (tp_facts (planTransition sampleBudgetTurn)) 100) = dispStatus d"
  by (rule planTransition_disposition) code_simp

section \<open>The routing patch\<close>

definition okp :: "jsobj option \<Rightarrow> bool" where
  "okp p = patchOk (orElse p [])"

lemma okp_set: "okp p \<Longrightarrow> entryOk k v \<Longrightarrow> okp (patchSet k v p)"
  by (simp add: okp_def patchSet_def patch_gate.accepts_set)

lemma retry_counter_key:
  "rg_retryCounterPatch (applyRetryGate res g s c er now rnd) \<in> {None} \<union> {Some (retryCountKey c, n) | n. True}"
proof -
  have "rg_retryCounterPatch (failEdgeGate r gr n s c er) \<in> {None} \<union> {Some (retryCountKey c, n) | n. True}"
    "rg_retryCounterPatch (retryStatusGate r gr n s c er now rnd) \<in> {None} \<union> {Some (retryCountKey c, n) | n. True}"
    "rg_retryCounterPatch (unchangedRetry r) \<in> {None} \<union> {Some (retryCountKey c, n) | n. True}" for r gr n
    by (simp_all add: failEdgeGate_def retryStatusGate_def exhaustedRetry_def unchangedRetry_def Let_def split: RetryAction.split)
  then show ?thesis
    by (cases res) (simp_all add: applyRetryGate_def split: option.split OutcomeStatus.split)
qed

lemma isOperatorNote_withNote: "isOperatorNote (JObj n) \<Longrightarrow> isOperatorNote (JObj (withNote n t))"
  by (simp add: isOperatorNote_def withNote_def isStr_def obj_simps)

lemma capped_notes_ok:
  assumes "list_all isOperatorNote (map JObj ns)"
  shows "list_all isOperatorNote (map JObj (capOperatorNotes ns m))"
proof -
  obtain k where k: "shift_oldest m ns = drop k ns" using shift_oldest_drop by blast
  have all: "\<forall>n \<in> set ns. isOperatorNote (JObj n)" using assms by (simp add: list_all_iff)
  have d: "list_all isOperatorNote (map JObj (drop k ns))" using all by (auto simp: list_all_iff dest: in_set_dropD)
  have "list_all isOperatorNote (map JObj (shrink_newest m (hd (drop k ns)) room))" if "drop k ns \<noteq> []" for room
  proof -
    have "isOperatorNote (JObj (hd (drop k ns)))" using d that by (cases "drop k ns") simp_all
    then show ?thesis using shrink_newest_spec [of m "hd (drop k ns)" room] isOperatorNote_withNote by (auto simp: list_all_iff)
  qed
  then show ?thesis using d by (simp add: capOperatorNotes_def Let_def k)
qed

lemma staged_ok: "list_all isOperatorNote (map JObj (stagedNotes a r nt))"
proof -
  have "isOperatorNote (JObj n)" if "n \<in> set (readOperatorNotes er)" for n er
    using that by (auto simp: readOperatorNotes_def List.map_filter_def split: option.splits jsval.splits if_splits)
  then show ?thesis by (auto simp: stagedNotes_def list_all_iff isOperatorNote_def isStr_def)
qed

lemma patch_stages_ok:
  assumes "okp p" "pa_currentNode a \<noteq> []" "pa_currentNode a \<noteq> U ''__retries''"
    "pa_retryCounterPatch a \<in> {None} \<union> {Some (retryCountKey (pa_currentNode a), n) | n. True}"
  shows "okp (patchBudgetWarned a p)" "okp (patchRetry a p)" "okp (patchProvider a p)" "okp (patchGoalGate a p)"
    "okp (patchNotes a p)" "okp (patchSteerAndPause a p)"
proof -
  show "okp (patchBudgetWarned a p)"
    using assms(1) by (simp add: patchBudgetWarned_def okp_set entry_strings kinds)
  show "okp (patchRetry a p)"
    using assms by (auto simp: patchRetry_def Let_def intro!: okp_set entry_number kinds split: option.split)
  show "okp (patchProvider a p)"
    using assms(1) by (simp add: patchProvider_def Let_def okp_set entry_number kinds split: option.split ProviderRetryDecision.split)
  show "okp (patchGoalGate a p)"
    using assms(1-3) by (simp add: patchGoalGate_def Let_def okp_set entry_number entry_status kinds split: HandlerResult.split option.split)
  have e: "entryOk OPERATOR_NOTES_KEY (JArr [])" by (rule entry_notes [of _ "[]", simplified]) (simp add: kinds)
  have n: "entryOk OPERATOR_NOTES_KEY (JArr (map JObj (capOperatorNotes (stagedNotes a r nt) m)))" for r nt m
    by (rule entry_notes) (simp_all add: kinds capped_notes_ok staged_ok)
  show "okp (patchNotes a p)"
    using assms(1) by (auto simp: patchNotes_def intro!: okp_set e n split: option.split)
  show "okp (patchSteerAndPause a p)"
    using assms(1) by (simp add: patchSteerAndPause_def Let_def okp_set entry_string entry_boolean kinds)
qed

definition patchArgsOf :: "TransitionInput \<Rightarrow> Stages \<Rightarrow> FactEvent list \<Rightarrow> PatchArgs" where
  "patchArgsOf i s facts =
       \<lparr>pa_result = rg_result (sg_retry s), pa_decision = ti_decision i, pa_state = ti_state i,
        pa_currentNode = ti_currentNode i, pa_graph = ti_graph i, pa_effectiveRouting = ti_effectiveRouting i,
        pa_budgetWarnedTags = bg_budgetWarnedTags (sg_budget s), pa_retryCounterPatch = rg_retryCounterPatch (sg_retry s),
        pa_retryPause = rg_retryPause (sg_retry s), pa_providerRetryDecision = po_providerRetryDecision (sg_provider s),
        pa_goalGateRetargetTarget = (if sg_retargetApplied s then go_retargetTarget (sg_goalGate s) else None),
        pa_goalGateRetriesPatch = (if sg_retargetApplied s then go_retriesPatch (sg_goalGate s) else None),
        pa_operatorPauseApplied = list_ex isOperatorPause facts\<rparr>"

lemma plan_patch:
  "tp_routingPatch (planTransition i) = buildRoutingPatch (patchArgsOf i (runStages i) (tp_facts (planTransition i)))"
  by (simp add: planTransition_def stagesPatch_def patchArgsOf_def Let_def)

text \<open>C18: the routing patch of a transition is one the store accepts, whatever the handler returned and
  whatever the budget, goal-gate, retry and provider gates decided, as long as the turn's intent
  delta is (and the node is a named one that is not called \<open>__retries\<close>): no combination of outcomes
  can make the commit of a finished turn fail at the write gate.\<close>

theorem planTransition_patch_ok:
  assumes "patchOk (pd_routingDelta (ti_decision i))" "ti_currentNode i \<noteq> []" "ti_currentNode i \<noteq> U ''__retries''"
  shows "patchOk (orElse (tp_routingPatch (planTransition i)) [])"
proof -
  let ?a = "patchArgsOf i (runStages i) (tp_facts (planTransition i))"
  have a: "pa_currentNode ?a \<noteq> []" "pa_currentNode ?a \<noteq> U ''__retries''"
    "pa_retryCounterPatch ?a \<in> {None} \<union> {Some (retryCountKey (pa_currentNode ?a), n) | n. True}"
    using assms retry_counter_key by (simp_all add: patchArgsOf_def stages_sel(4))
  have "okp (mergeRoutingPatches (pd_routingDelta (pa_decision ?a)) (pa_result ?a))"
    using assms(1) by (simp add: okp_def mergeRoutingPatches_def patchArgsOf_def validateRoutingPatch.simps(1))
  then have "okp (buildRoutingPatch ?a)"
    unfolding buildRoutingPatch_def by (intro patch_stages_ok a)
  then show ?thesis by (simp add: plan_patch okp_def)
qed

theorem planTransition_patch_ok_witness:
  "tp_routingPatch (planTransition sampleBudgetTurn) = Some [(goalGateOutcomeKey (U ''a''), JStr (U ''fail''))]
   \<and> patchOk [(goalGateOutcomeKey (U ''a''), JStr (U ''fail''))]"
proof -
  have "patchOk (pd_routingDelta (ti_decision sampleBudgetTurn))" "ti_currentNode sampleBudgetTurn \<noteq> []"
    "ti_currentNode sampleBudgetTurn \<noteq> U ''__retries''" by code_simp+
  from planTransition_patch_ok [OF this]
  have "patchOk (orElse (tp_routingPatch (planTransition sampleBudgetTurn)) [])" .
  moreover have p: "tp_routingPatch (planTransition sampleBudgetTurn) = Some [(goalGateOutcomeKey (U ''a''), JStr (U ''fail''))]"
    by code_simp
  ultimately show ?thesis by simp
qed

section \<open>Reading the patch\<close>

lemma get_patchSet [obj_simps]: "obj_get (orElse (patchSet k v p) []) k' = (if k' = k then Some v else obj_get (orElse p []) k')"
  by (simp add: patchSet_def obj_simps)

lemma get_merge: "obj_get (orElse (mergeRoutingPatches delta r) []) k = obj_get delta k"
  by (simp add: mergeRoutingPatches_def)

lemma distinct_patchSet: "distinct (map fst (orElse p [])) \<Longrightarrow> distinct (map fst (orElse (patchSet k v p) []))"
  by (simp add: patchSet_def distinct_update)

lemma keys_apart:
  "retryCountKey n \<noteq> GOAL_GATE_RETRIES_KEY" "retryCountKey n \<noteq> PAUSE_AFTER_DISPATCH_KEY"
  "goalGateOutcomeKey n = GOAL_GATE_RETRIES_KEY \<longleftrightarrow> n = U ''__retries''" "goalGateOutcomeKey n \<noteq> PAUSE_AFTER_DISPATCH_KEY"
  by (simp_all add: retryCountKey_def goalGateOutcomeKey_def GOAL_GATE_OUTCOME_KEY_PREFIX_def GOAL_GATE_RETRIES_KEY_def
      PAUSE_AFTER_DISPATCH_KEY_def ustr)

lemma read_budget: "k \<noteq> BUDGET_WARNED_KEY \<Longrightarrow> obj_get (orElse (patchBudgetWarned a p) []) k = obj_get (orElse p []) k"
  by (simp add: patchBudgetWarned_def get_patchSet)

lemma read_retry: "pa_retryCounterPatch a \<in> {None} \<union> {Some (retryCountKey c, n) | n. True} \<Longrightarrow> k \<noteq> retryCountKey c \<Longrightarrow>
    k \<noteq> AUTO_RESUME_AT_KEY \<Longrightarrow> obj_get (orElse (patchRetry a p) []) k = obj_get (orElse p []) k"
  by (auto simp: patchRetry_def Let_def get_patchSet split: option.split)

lemma read_provider: "k \<notin> {AUTO_RESUME_AT_KEY, PROVIDER_RETRY_ATTEMPT_KEY, PROVIDER_RETRY_CUMULATIVE_MS_KEY} \<Longrightarrow>
    obj_get (orElse (patchProvider a p) []) k = obj_get (orElse p []) k"
  by (simp add: patchProvider_def Let_def get_patchSet split: option.split ProviderRetryDecision.split)

lemma read_goalGate: "k \<noteq> goalGateOutcomeKey (pa_currentNode a) \<Longrightarrow>
    obj_get (orElse (patchGoalGate a p) []) k =
      (if k = GOAL_GATE_RETRIES_KEY \<and> isTransition (pa_result a) \<and> pa_goalGateRetargetTarget a \<noteq> None \<and> pa_goalGateRetriesPatch a \<noteq> None
       then map_option JFin (pa_goalGateRetriesPatch a) else obj_get (orElse p []) k)"
  by (cases "pa_result a"; cases "pa_goalGateRetargetTarget a"; cases "pa_goalGateRetriesPatch a")
    (simp_all add: patchGoalGate_def Let_def get_patchSet isTransition_def split: option.split)

lemma read_notes: "k \<noteq> OPERATOR_NOTES_KEY \<Longrightarrow> obj_get (orElse (patchNotes a p) []) k = obj_get (orElse p []) k"
  by (simp add: patchNotes_def get_patchSet split: option.split prod.split)

lemma read_steer: "k \<noteq> PENDING_STEER_KEY \<Longrightarrow> obj_get (orElse (patchSteerAndPause a p) []) k =
    (if k = PAUSE_AFTER_DISPATCH_KEY \<and> readPauseAfterDispatch (pa_effectiveRouting a) \<and> pa_operatorPauseApplied a
     then Some (JBool False) else obj_get (orElse p []) k)"
  by (simp add: patchSteerAndPause_def Let_def get_patchSet)

lemma patchArgs_counter:
  "pa_retryCounterPatch (patchArgsOf i (runStages i) fs) \<in> {None} \<union> {Some (retryCountKey (ti_currentNode i), n) | n. True}"
  using retry_counter_key by (simp add: patchArgsOf_def stages_sel(4))

lemma epoch_keys:
  "GOAL_GATE_RETRIES_KEY \<noteq> BUDGET_WARNED_KEY" "GOAL_GATE_RETRIES_KEY \<noteq> AUTO_RESUME_AT_KEY"
  "GOAL_GATE_RETRIES_KEY \<notin> {AUTO_RESUME_AT_KEY, PROVIDER_RETRY_ATTEMPT_KEY, PROVIDER_RETRY_CUMULATIVE_MS_KEY}"
  "GOAL_GATE_RETRIES_KEY \<noteq> OPERATOR_NOTES_KEY" "GOAL_GATE_RETRIES_KEY \<noteq> PENDING_STEER_KEY"
  "GOAL_GATE_RETRIES_KEY \<noteq> PAUSE_AFTER_DISPATCH_KEY"
  by (simp_all add: routing_keys ustr)

lemma pause_keys:
  "PAUSE_AFTER_DISPATCH_KEY \<noteq> BUDGET_WARNED_KEY" "PAUSE_AFTER_DISPATCH_KEY \<noteq> AUTO_RESUME_AT_KEY"
  "PAUSE_AFTER_DISPATCH_KEY \<notin> {AUTO_RESUME_AT_KEY, PROVIDER_RETRY_ATTEMPT_KEY, PROVIDER_RETRY_CUMULATIVE_MS_KEY}"
  "PAUSE_AFTER_DISPATCH_KEY \<noteq> OPERATOR_NOTES_KEY" "PAUSE_AFTER_DISPATCH_KEY \<noteq> PENDING_STEER_KEY"
  "PAUSE_AFTER_DISPATCH_KEY \<noteq> GOAL_GATE_RETRIES_KEY"
  by (simp_all add: routing_keys ustr)

lemmas patch_reads = read_budget read_retry [OF patchArgs_counter] read_provider read_goalGate read_notes read_steer get_merge

lemma patchArgs_sel [simp]:
  "pa_currentNode (patchArgsOf i s fs) = ti_currentNode i" "pa_decision (patchArgsOf i s fs) = ti_decision i"
  "pa_result (patchArgsOf i s fs) = rg_result (sg_retry s)" "pa_effectiveRouting (patchArgsOf i s fs) = ti_effectiveRouting i"
  "pa_goalGateRetargetTarget (patchArgsOf i s fs) = (if sg_retargetApplied s then go_retargetTarget (sg_goalGate s) else None)"
  "pa_goalGateRetriesPatch (patchArgsOf i s fs) = (if sg_retargetApplied s then go_retriesPatch (sg_goalGate s) else None)"
  "pa_operatorPauseApplied (patchArgsOf i s fs) = list_ex isOperatorPause fs"
  by (simp_all add: patchArgsOf_def)

lemma patch_epoch:
  assumes "ti_currentNode i \<noteq> U ''__retries''"
  shows "obj_get (orElse (tp_routingPatch (planTransition i)) []) GOAL_GATE_RETRIES_KEY =
    (if sg_retargetApplied (runStages i) \<and> go_retriesPatch (sg_goalGate (runStages i)) \<noteq> None
     then map_option JFin (go_retriesPatch (sg_goalGate (runStages i)))
     else obj_get (pd_routingDelta (ti_decision i)) GOAL_GATE_RETRIES_KEY)"
proof -
  have "isTransition (rg_result (sg_retry (runStages i))) \<and> go_retargetTarget (sg_goalGate (runStages i)) \<noteq> None"
    if "sg_retargetApplied (runStages i)" using that by (simp add: runStages_def Let_def)
  moreover have "GOAL_GATE_RETRIES_KEY \<noteq> goalGateOutcomeKey (ti_currentNode i)" "GOAL_GATE_RETRIES_KEY \<noteq> retryCountKey n" for n
    using assms keys_apart by metis+
  ultimately show ?thesis
    by (cases "go_retriesPatch (sg_goalGate (runStages i))")
      (simp_all add: plan_patch buildRoutingPatch_def patch_reads epoch_keys del: insert_iff)
qed

lemma patch_pause:
  "obj_get (orElse (tp_routingPatch (planTransition i)) []) PAUSE_AFTER_DISPATCH_KEY =
    (if readPauseAfterDispatch (ti_effectiveRouting i) \<and> list_ex isOperatorPause (tp_facts (planTransition i))
     then Some (JBool False) else obj_get (pd_routingDelta (ti_decision i)) PAUSE_AFTER_DISPATCH_KEY)"
proof -
  have "PAUSE_AFTER_DISPATCH_KEY \<noteq> goalGateOutcomeKey n" "PAUSE_AFTER_DISPATCH_KEY \<noteq> retryCountKey n" for n
    using keys_apart by metis+
  then show ?thesis
    by (simp add: plan_patch buildRoutingPatch_def patch_reads pause_keys del: insert_iff)
qed

section \<open>The epoch of a started node\<close>

lemma obj_get_merge: "distinct (map fst b) \<Longrightarrow> obj_get (obj_merge a b) k = (case obj_get b k of Some v \<Rightarrow> Some v | None \<Rightarrow> obj_get a k)"
proof (induction a b rule: obj_merge.induct)
  case (2 a k' v b)
  then have "obj_get b k' = None" by (simp add: map_of_eq_None_iff)
  with 2 show ?case by (simp add: obj_get_set split: option.split)
qed simp

lemma distinct_patch_stages:
  assumes "distinct (map fst (orElse p []))"
  shows "distinct (map fst (orElse (patchBudgetWarned a p) []))" "distinct (map fst (orElse (patchRetry a p) []))"
    "distinct (map fst (orElse (patchProvider a p) []))" "distinct (map fst (orElse (patchGoalGate a p) []))"
    "distinct (map fst (orElse (patchNotes a p) []))" "distinct (map fst (orElse (patchSteerAndPause a p) []))"
  using assms
  by (simp_all add: patchBudgetWarned_def patchRetry_def patchProvider_def patchGoalGate_def patchNotes_def patchSteerAndPause_def
      Let_def distinct_patchSet split: option.split ProviderRetryDecision.split HandlerResult.split prod.split)

lemma plan_patch_distinct:
  "distinct (map fst (pd_routingDelta (ti_decision i))) \<Longrightarrow> distinct (map fst (orElse (tp_routingPatch (planTransition i)) []))"
  unfolding plan_patch buildRoutingPatch_def
  by (intro distinct_patch_stages) (simp add: mergeRoutingPatches_def)

lemma readGoalGateRetries_get:
  "readGoalGateRetries r = (case obj_get r GOAL_GATE_RETRIES_KEY of Some (JFin n) \<Rightarrow> n | _ \<Rightarrow> 0)"
  by (simp add: readGoalGateRetries_def getGoalGate_def finiteNumber_def)

lemma rewrite_stamped:
  "rewriteTerminalFacts fs a = rewriteTerminalFacts
     (stampGoalGateRetarget fs (rw_goalGateRetargetTarget a) (rw_goalGateRetriesPatch a)) (a\<lparr>rw_goalGateRetargetTarget := None\<rparr>)"
  by (simp add: rewriteTerminalFacts_def stampGoalGateRetarget_def Let_def)

lemma last_started:
  assumes "last (resultToFacts res ctx) = F_node_started n k p"
  obtains r where "res = H_transition r" "n = orElse (tr_nextNode r) (U ''__end__'')"
    "p = passField (readGoalGateRetries (rn_routing (rc_state ctx)))"
proof (cases res)
  case (H_transition r)
  then show thesis using assms that by (simp add: last_transition Let_def split: if_splits)
next
  case (H_halt h)
  then show thesis using assms
    by (cases "ht_reason h") (simp_all add: resultToFacts_def haltToFacts_def terminalHalt_def maxLoopsPause_def Let_def split: if_splits)
qed (use assms in \<open>simp_all add: resultToFacts_def yieldHumanToFacts_def pauseProviderToFacts_def Let_def split: option.splits if_splits\<close>)

definition epochIs :: "number \<Rightarrow> FactEvent \<Rightarrow> bool" where
  "epochIs e f = (case f of F_node_started n k p \<Rightarrow> orElse p 0 = e | _ \<Rightarrow> True)"

lemma epochIs_inert: "inert pre \<Longrightarrow> list_all (epochIs e) pre"
proof (induction pre)
  case (Cons f pre)
  then show ?case by (cases f) (simp_all add: epochIs_def isDisposition_def)
qed simp

lemma orElse_passField: "0 \<le> n \<Longrightarrow> orElse (passField n) 0 = n"
  by (auto simp: passField_def)

lemma plan_epoch:
  assumes "distinct (map fst (pd_routingDelta (ti_decision i)))" "obj_get (pd_routingDelta (ti_decision i)) GOAL_GATE_RETRIES_KEY = None"
    "ti_currentNode i \<noteq> U ''__retries''" "0 \<le> readGoalGateRetries (rn_routing (ti_state i))"
  shows "list_all (epochIs (readGoalGateRetries (obj_merge (rn_routing (ti_state i)) (orElse (tp_routingPatch (planTransition i)) []))))
    (tp_facts (planTransition i))" (is "list_all (epochIs ?e) _")
proof (rule plan_batch [of i])
  fix pre d
  let ?s = "runStages i"
  assume *: "inert pre" "d = last (resultToFacts (rg_result (sg_retry ?s)) (ctxOf i ?s))"
    "tp_facts (planTransition i) = pre @ rewriteTerminalFacts [d] (argsOf i ?s)"
  have e: "?e = (if sg_retargetApplied ?s \<and> go_retriesPatch (sg_goalGate ?s) \<noteq> None then the (go_retriesPatch (sg_goalGate ?s))
      else readGoalGateRetries (rn_routing (ti_state i)))"
    using assms by (cases "go_retriesPatch (sg_goalGate ?s)")
      (simp_all add: readGoalGateRetries_get obj_get_merge plan_patch_distinct patch_epoch)
  have "list_all (epochIs ?e) (stampGoalGateRetarget [d] (rw_goalGateRetargetTarget (argsOf i ?s)) (rw_goalGateRetriesPatch (argsOf i ?s)))"
  proof (cases "isNodeStarted d")
    case True
    then obtain n k p where d: "d = F_node_started n k p" by (cases d) (simp_all add: isNodeStarted_def)
    then obtain r where r: "rg_result (sg_retry ?s) = H_transition r" "n = orElse (tr_nextNode r) (U ''__end__'')"
      "p = passField (readGoalGateRetries (rn_routing (ti_state i)))"
      using *(2) last_started [of "rg_result (sg_retry ?s)" "ctxOf i ?s" n k p] by (auto simp: ctxOf_def)
    have t: "go_retargetTarget (sg_goalGate ?s) = Some n" if "sg_retargetApplied ?s"
      using that r(1,2) by (auto simp: runStages_def Let_def nextNodeOf_def)
    show ?thesis
      using t assms(4) e by (cases "sg_retargetApplied ?s"; cases "go_retriesPatch (sg_goalGate ?s)")
        (simp_all add: d r(3) epochIs_def stampGoalGateRetarget_def argsOf_def orElse_passField split: option.split)
  next
    case False
    then have "stampGoalGateRetarget [d] t m = [d]" for t m
      by (cases d) (simp_all add: isNodeStarted_def stampGoalGateRetarget_def split: option.split)
    with False show ?thesis by (cases d) (simp_all add: epochIs_def isNodeStarted_def)
  qed
  then have "list_all (epochIs ?e) (rewriteTerminalFacts [d] (argsOf i ?s))"
    by (subst rewrite_stamped) (rule rewrite_all, simp_all add: epochIs_def)
  then show ?thesis using *(1,3) epochIs_inert by simp
qed

text \<open>C14: the goal-gate epoch is coherent. A node the planned batch starts carries exactly the retarget
  count the run's routing holds once the batch's patch is merged in, whether the goal gate retargeted
  this turn (the count is bumped and the target stamped with it), another gate overrode the retarget
  (neither happens), or no gate acted.\<close>

theorem planTransition_epoch:
  assumes "distinct (map fst (pd_routingDelta (ti_decision i)))" "obj_get (pd_routingDelta (ti_decision i)) GOAL_GATE_RETRIES_KEY = None"
    "ti_currentNode i \<noteq> U ''__retries''" "0 \<le> readGoalGateRetries (rn_routing (ti_state i))"
    "F_node_started n k p \<in> set (tp_facts (planTransition i))"
  shows "orElse p 0 = readGoalGateRetries (obj_merge (rn_routing (ti_state i)) (orElse (tp_routingPatch (planTransition i)) []))"
  using plan_epoch [OF assms(1-4)] assms(5) by (auto simp: list_all_iff epochIs_def)

theorem planTransition_epoch_witness:
  "F_node_started (U ''b'') 0 (Some 1) \<in> set (tp_facts (planTransition sampleRetargetTurn))
   \<and> orElse (Some 1) 0 = readGoalGateRetries (obj_merge (rn_routing (ti_state sampleRetargetTurn))
       (orElse (tp_routingPatch (planTransition sampleRetargetTurn)) []))"
proof -
  have h: "distinct (map fst (pd_routingDelta (ti_decision sampleRetargetTurn)))"
    "obj_get (pd_routingDelta (ti_decision sampleRetargetTurn)) GOAL_GATE_RETRIES_KEY = None"
    "ti_currentNode sampleRetargetTurn \<noteq> U ''__retries''" "0 \<le> readGoalGateRetries (rn_routing (ti_state sampleRetargetTurn))"
    by code_simp+
  have f: "F_node_started (U ''b'') 0 (Some 1) \<in> set (tp_facts (planTransition sampleRetargetTurn))" by code_simp
  from planTransition_epoch [OF h f] f show ?thesis by blast
qed

text \<open>A retarget under a budget pause: the batch still records the retarget target as the next node, so
  folding it moves the run past the gate, and the retarget count stays where it was. On resume the
  target runs and the gate has spent no retry.\<close>

lemma budget_pause_moves_past_gate:
  "let plan = planTransition sampleBudgetTurn;
       after = foldFacts (ti_state sampleBudgetTurn) (tp_facts plan) 100
   in rn_status after = St_paused \<and> rn_currentNode after = Some (U ''b'')
      \<and> readGoalGateRetries (obj_merge (rn_routing after) (orElse (tp_routingPatch plan) [])) = 0"
  by code_simp

text \<open>the deferred-pause marker is cleared exactly when it was live and the operator pause is in the
  planned batch: an operator's pause is never swallowed by a turn that did not pause, and never
  applied twice.\<close>

theorem pause_marker_cleared:
  "obj_get (orElse (tp_routingPatch (planTransition i)) []) PAUSE_AFTER_DISPATCH_KEY =
    (if readPauseAfterDispatch (ti_effectiveRouting i) \<and> list_ex isOperatorPause (tp_facts (planTransition i))
     then Some (JBool False) else obj_get (pd_routingDelta (ti_decision i)) PAUSE_AFTER_DISPATCH_KEY)"
  by (rule patch_pause)

end
