(* ===== verification/Fanout_Planner.thy ===== *)
theory Fanout_Planner
  imports Transition_Planner
begin

text \<open>
  The fan-out planner, \<open>packages/daemon/src/fanout-planner.ts\<close>: the choice between seeding, joining
  and dispatching the frontier of a parallel node, the single slot that holds the run-level
  disposition of a superstep, the settlement of a branch and the facts an early bail commits; and the
  gate on concurrent branches, class \<open>Semaphore\<close> of \<open>packages/daemon/src/fanout-support.ts\<close>.
\<close>

section \<open>The frontier\<close>

record FanoutFrontier =
  ff_active :: "ustring list option" \<comment> \<open>None is a frontier not seeded yet\<close>
  ff_redispatch :: "ustring list"
  ff_branches :: "ustring list"
  ff_join :: "ustring option"

datatype (plugins only: code size) FanoutPlan =
    FP_malformed
  | FP_seed "ustring list" \<comment> \<open>branches\<close>
  | FP_join ustring nat \<comment> \<open>nextNode branchesCompleted\<close>
  | FP_dispatch "ustring list" "ustring list" \<comment> \<open>active redispatch\<close>

definition planFanoutStep :: "FanoutFrontier \<Rightarrow> FanoutPlan" where
  "planFanoutStep frontier =
     (case ff_join frontier of
        None \<Rightarrow> FP_malformed
      | Some join \<Rightarrow>
          if ff_branches frontier = [] then FP_malformed
          else case ff_active frontier of
                 None \<Rightarrow> FP_seed (ff_branches frontier)
               | Some active \<Rightarrow>
                   if active = [] then FP_join join (length (ff_branches frontier))
                   else FP_dispatch active (ff_redispatch frontier))"

section \<open>The disposition slot\<close>

definition dispositionRank :: "FactEvent \<Rightarrow> int" where
  "dispositionRank f =
     (case f of
        F_run_terminated _ \<Rightarrow> 3
      | F_run_paused p \<Rightarrow>
          (case pauseReason p of
             Some PR_budget \<Rightarrow> 2
           | Some r \<Rightarrow> if r \<in> set AUTO_WAKE_PAUSE_REASONS then 0 else 1
           | None \<Rightarrow> 1)
      | _ \<Rightarrow> -1)"

definition noteDisposition :: "FactEvent option \<Rightarrow> FactEvent \<Rightarrow> FactEvent option" where
  "noteDisposition current incoming =
     (case current of
        None \<Rightarrow> Some incoming
      | Some c \<Rightarrow> if dispositionRank incoming > dispositionRank c then Some incoming else current)"

definition isRunLevel :: "FactEvent \<Rightarrow> bool" where
  "isRunLevel f = (case f of F_run_paused _ \<Rightarrow> True | F_run_terminated _ \<Rightarrow> True | _ \<Rightarrow> False)"

fun partitionExitFacts :: "FactEvent option \<Rightarrow> FactEvent list \<Rightarrow> FactEvent list \<times> FactEvent option" where
  \<comment> \<open>\<open>{ branchFacts, disposition }\<close>\<close>
  "partitionExitFacts disposition [] = ([], disposition)"
| "partitionExitFacts disposition (f # fs) =
     (if isRunLevel f then partitionExitFacts (noteDisposition disposition f) fs
      else let (branchFacts, d) = partitionExitFacts disposition fs in (f # branchFacts, d))"

section \<open>The facts of a superstep\<close>

definition planBranchTerminal :: "ustring \<Rightarrow> FactEvent" where
  "planBranchTerminal nodeId = F_run_terminated (RT_errored (bareHalt HR_error (Some (U ''fanout_branch_terminal:'' @ nodeId))))"

definition planFanoutMalformed :: FactEvent where
  "planFanoutMalformed = F_run_terminated (RT_errored (bareHalt HR_error (Some (U ''fanout_malformed''))))"

definition planSeedFanout :: "ustring \<Rightarrow> number \<Rightarrow> number \<Rightarrow> ustring list \<Rightarrow> FactEvent list" where
  "planSeedFanout nodeId iteration pass branches = [F_fanout_started nodeId iteration (passField pass) branches]"

definition planJoin :: "bool \<Rightarrow> ustring \<Rightarrow> number \<Rightarrow> number \<Rightarrow> ustring \<Rightarrow> number \<Rightarrow> FactEvent" where
  "planJoin deferredPause nodeId iteration pass nextNode branchesCompleted =
     (if deferredPause then F_run_paused (RP_operator nodeId)
      else F_fanout_joined nodeId iteration (passField pass) nextNode branchesCompleted)"

record BranchSettlement =
  bs_branchFacts :: "FactEvent list"
  bs_disposition :: "FactEvent option"
  bs_successor :: "ustring option"
  bs_terminal :: bool

record SettlementArgs =
  sa_nodeId :: ustring
  sa_facts :: "FactEvent list"
  sa_nextNode :: "ustring option"
  sa_join :: "ustring option"
  sa_graphNodes :: "(ustring \<times> Node) list option"
  sa_pass :: number
  sa_liveRouting :: jsobj
  sa_routingPatch :: "jsobj option"
  sa_disposition :: "FactEvent option"

record SettleLoop =
  sl_branchFacts :: "FactEvent list"
  sl_disposition :: "FactEvent option"
  sl_terminal :: bool

definition settleStep :: "number \<times> number \<Rightarrow> SettleLoop \<Rightarrow> FactEvent \<Rightarrow> SettleLoop" where
  \<comment> \<open>the body of the loop over the facts of the branch\<close>
  "settleStep pos st f =
     (case f of
        F_run_terminated (RT_completed _) \<Rightarrow> st\<lparr>sl_terminal := True\<rparr>
      | F_run_terminated _ \<Rightarrow>
          st\<lparr>sl_branchFacts := sl_branchFacts st @ spendFactsFor [f] (U ''halt'') pos,
             sl_disposition := noteDisposition (sl_disposition st) (withoutSpend f)\<rparr>
      | F_run_paused _ \<Rightarrow>
          st\<lparr>sl_branchFacts := sl_branchFacts st @ spendFactsFor [f] (U ''halt'') pos,
             sl_disposition := noteDisposition (sl_disposition st) (withoutSpend f)\<rparr>
      | F_node_started _ _ _ \<Rightarrow> st
      | _ \<Rightarrow> st\<lparr>sl_branchFacts := sl_branchFacts st @ [f]\<rparr>)"

definition inGraph :: "(ustring \<times> Node) list option \<Rightarrow> ustring \<Rightarrow> bool" where
  "inGraph graphNodes n = (case graphNodes of None \<Rightarrow> False | Some ns \<Rightarrow> obj_get ns n \<noteq> None)"

definition planBranchSettlement :: "SettlementArgs \<Rightarrow> BranchSettlement" where
  "planBranchSettlement a =
     (let pos = (nodeRetryCount (sa_liveRouting a) (sa_nodeId a), sa_pass a);
          st = foldl (settleStep pos) \<lparr>sl_branchFacts = [], sl_disposition = sa_disposition a, sl_terminal = False\<rparr> (sa_facts a);
          onward = (case sa_nextNode a of Some n \<Rightarrow> if sa_nextNode a \<noteq> sa_join a then Some n else None | None \<Rightarrow> None);
          dangling = (case onward of Some n \<Rightarrow> \<not> inGraph (sa_graphNodes a) n | None \<Rightarrow> False);
          terminal = (sl_terminal st \<or> dangling);
          successor = (if terminal then None else onward);
          successorRouting = (case sa_routingPatch a of Some p \<Rightarrow> obj_merge (sa_liveRouting a) p | None \<Rightarrow> sa_liveRouting a)
      in \<lparr>bs_branchFacts = sl_branchFacts st
            @ (case successor of
                 Some n \<Rightarrow> planDispatchStarted n (nodeRetryCount successorRouting n) (sa_pass a) RO_fresh
               | None \<Rightarrow> []),
          bs_disposition = (if terminal then noteDisposition (sl_disposition st) (planBranchTerminal (sa_nodeId a))
                            else sl_disposition st),
          bs_successor = successor,
          bs_terminal = terminal\<rparr>)"

definition bailKept :: "FactEvent \<Rightarrow> bool" where
  \<comment> \<open>\<open>BAIL_KEPT_FACTS.has(f.type)\<close>\<close>
  "bailKept f = (case f of F_node_completed _ \<Rightarrow> True | F_node_aborted _ \<Rightarrow> True | F_handler_timeout_leaked _ _ \<Rightarrow> True | _ \<Rightarrow> False)"

record Unsettled =
  un_nodeId :: ustring
  un_iteration :: number
  un_pass :: number
  un_usage :: HaltUsage

definition bailFact :: "FactEvent \<Rightarrow> FactEvent list" where
  "bailFact f =
     (if bailKept f then [f]
      else case f of F_run_terminated _ \<Rightarrow> spendFactsFor [f] (U ''halt'') (0, 0) | _ \<Rightarrow> [])"

definition planBailSettlement :: "FactEvent list list \<Rightarrow> Unsettled list \<Rightarrow> FactEvent list" where
  "planBailSettlement settled unsettled =
     concat (map (\<lambda>fs. concat (map bailFact fs)) settled)
     @ concat (map (\<lambda>u. exitSpendFacts (un_nodeId u) (un_iteration u) (U ''aborted'') (un_usage u) (un_pass u)) unsettled)"

section \<open>Precedence of dispositions\<close>

definition topRank :: "FactEvent list \<Rightarrow> int" where
  "topRank fs = Max (dispositionRank ` set fs)"

lemma topRank_skip: "dispositionRank g \<le> dispositionRank f \<Longrightarrow> topRank (g # f # fs) = topRank (f # fs)"
  by (cases fs) (simp_all add: topRank_def max_def)

lemma topRank_ge: "f \<in> set fs \<Longrightarrow> dispositionRank f \<le> topRank fs"
  by (simp add: topRank_def)

lemma topRank_swap: "topRank (g # f # fs) = topRank (f # g # fs)"
  by (simp add: topRank_def insert_commute)

lemma foldl_note: "foldl noteDisposition (Some c) fs = find (\<lambda>f. dispositionRank f = topRank (c # fs)) (c # fs)"
proof (induction fs arbitrary: c)
  case Nil
  then show ?case by (simp add: topRank_def)
next
  case (Cons f fs)
  show ?case
  proof (cases "dispositionRank f > dispositionRank c")
    case True
    then have "topRank (c # f # fs) = topRank (f # fs)" "dispositionRank c < topRank (f # fs)"
      using topRank_skip [of c f fs] topRank_ge [of f "f # fs"] by simp_all
    then show ?thesis using True Cons.IH [of f] by (simp add: noteDisposition_def)
  next
    case False
    then have t: "topRank (c # f # fs) = topRank (c # fs)" using topRank_skip [of f c fs] topRank_swap [of c f fs] by simp
    have "dispositionRank f \<noteq> topRank (c # fs)" if "dispositionRank c \<noteq> topRank (c # fs)"
      using that False topRank_ge [of c "c # fs"] by simp
    then show ?thesis using False t Cons.IH [of c] by (simp add: noteDisposition_def)
  qed
qed

text \<open>the pool's one disposition slot is decided by precedence alone. After any sequence of run-level
  facts, in whatever order the branches settle, the slot holds the first of the facts of the highest
  rank; so a halt is never masked by a pause, a budget pause never by another pause, and a pause the
  operator has to act on never by one that wakes on a timer.\<close>

theorem slot_is_first_of_top_rank:
  "foldl noteDisposition None fs = find (\<lambda>f. dispositionRank f = topRank fs) fs
   \<and> (foldl noteDisposition None fs = None) = (fs = [])"
proof (cases fs)
  case (Cons f gs)
  then have e: "foldl noteDisposition None fs = find (\<lambda>f. dispositionRank f = topRank fs) fs"
    using foldl_note [of f gs] by (simp add: noteDisposition_def)
  have "topRank fs \<in> dispositionRank ` set fs" using Cons unfolding topRank_def by (intro Max_in) simp_all
  then have "foldl noteDisposition None fs \<noteq> None" unfolding e by (auto simp: find_None_iff)
  with e Cons show ?thesis by simp
qed simp

section \<open>Splitting a batch into branch facts and disposition\<close>

lemma partition_spec:
  "partitionExitFacts d fs = (filter (\<lambda>f. \<not> isRunLevel f) fs, foldl noteDisposition d (filter isRunLevel fs))"
  by (induction d fs rule: partitionExitFacts.induct) (simp_all add: Let_def)

lemma runLevel_kinds [simp]: "isRunLevel (F_run_paused p)" "isRunLevel (F_run_terminated t)"
  by (simp_all add: isRunLevel_def)

definition settled :: "number \<times> number \<Rightarrow> FactEvent \<Rightarrow> FactEvent list" where
  \<comment> \<open>what one fact of a branch adds to its commit\<close>
  "settled pos f =
     (case f of
        F_run_terminated (RT_completed _) \<Rightarrow> []
      | F_run_terminated _ \<Rightarrow> spendFactsFor [f] (U ''halt'') pos
      | F_run_paused _ \<Rightarrow> spendFactsFor [f] (U ''halt'') pos
      | F_node_started _ _ _ \<Rightarrow> []
      | _ \<Rightarrow> [f])"

definition noted :: "FactEvent \<Rightarrow> bool" where
  \<comment> \<open>the facts that reach the slot\<close>
  "noted f = (case f of F_run_terminated (RT_completed _) \<Rightarrow> False | _ \<Rightarrow> isRunLevel f)"

definition isCompleted :: "FactEvent \<Rightarrow> bool" where
  "isCompleted f = (case f of F_run_terminated (RT_completed _) \<Rightarrow> True | _ \<Rightarrow> False)"

lemma settleStep_parts:
  "sl_branchFacts (settleStep pos st f) = sl_branchFacts st @ settled pos f"
  "sl_disposition (settleStep pos st f) = (if noted f then noteDisposition (sl_disposition st) (withoutSpend f) else sl_disposition st)"
  "sl_terminal (settleStep pos st f) = (sl_terminal st \<or> isCompleted f)"
  by (cases f; simp add: settleStep_def settled_def noted_def isCompleted_def isRunLevel_def split: RunTerminatedPayload.split)+

lemma settle_fold:
  "sl_branchFacts (foldl (settleStep pos) st fs) = sl_branchFacts st @ concat (map (settled pos) fs)"
  "sl_disposition (foldl (settleStep pos) st fs) = foldl noteDisposition (sl_disposition st) (map withoutSpend (filter noted fs))"
  "sl_terminal (foldl (settleStep pos) st fs) = (sl_terminal st \<or> list_ex isCompleted fs)"
  by (induction fs arbitrary: st) (simp_all add: settleStep_parts)

end
