(* ===== verification/Fanout_Properties.thy ===== *)
theory Fanout_Properties
  imports Fanout_Planner Transition_Properties
begin

text \<open>
  What a fan-out superstep promises: settling a branch loses none of its spend, lets no run-level fact
  into the branch's own commit, and replaces the branch by its successor in the frontier; an early
  bail keeps the spend of every sibling.
\<close>

section \<open>Settling keeps the spend\<close>

lemma settled_charge: "sensibleFact f \<Longrightarrow> batchUsage u (settled pos f) = factUsage u f"
  using spendFactsFor_charge [of "[f]" u "U ''halt''" pos]
  by (cases f) (auto simp: settled_def factUsage_def split: RunTerminatedPayload.split)

lemma settled_all_charge: "list_all sensibleFact fs \<Longrightarrow> batchUsage u (concat (map (settled pos) fs)) = batchUsage u fs"
  by (induction fs) (simp_all add: settled_charge)

lemma noted_free: "noted f \<Longrightarrow> factUsage u (withoutSpend f) = 0"
  using withoutSpend_free [of f u] by (cases f) (simp_all add: noted_def isRunLevel_def)

definition slotCharge :: "UsageField \<Rightarrow> FactEvent option \<Rightarrow> number" where
  "slotCharge u d = (case d of None \<Rightarrow> 0 | Some f \<Rightarrow> factUsage u f)"

lemma slot_fold_free:
  "slotCharge u d = 0 \<Longrightarrow> list_all (\<lambda>f. factUsage u f = 0) fs \<Longrightarrow> slotCharge u (foldl noteDisposition d fs) = 0"
proof (induction fs arbitrary: d)
  case (Cons f fs)
  then have "slotCharge u (noteDisposition d f) = 0" by (cases d) (simp_all add: noteDisposition_def slotCharge_def)
  with Cons show ?case by simp
qed simp

lemma noted_list_free: "list_all (\<lambda>f. factUsage u f = 0) (map withoutSpend (filter noted fs))"
  by (induction fs) (simp_all add: noted_free)

lemma dispatch_free [simp]: "batchUsage u (planDispatchStarted n k p r) = 0"
  by (simp add: planDispatchStarted_def factUsage_def)

lemmas settlement_parts = planBranchSettlement_def Let_def settle_fold

text \<open>C20: settling a branch charges its spend exactly once. For facts with sensible amounts, the branch's own
  commit charges in each of the ten totals what the facts of its turn charged, a halting or pausing
  branch's included, and the disposition slot, which another commit will carry, charges nothing.\<close>

theorem settlement_conserves_spend:
  assumes "list_all sensibleFact (sa_facts a)" "slotCharge u (sa_disposition a) = 0"
  shows "batchUsage u (bs_branchFacts (planBranchSettlement a)) = batchUsage u (sa_facts a)
    \<and> slotCharge u (bs_disposition (planBranchSettlement a)) = 0"
proof
  show "batchUsage u (bs_branchFacts (planBranchSettlement a)) = batchUsage u (sa_facts a)"
    using assms(1) by (simp add: settlement_parts settled_all_charge split: option.split)
  have "slotCharge u (foldl noteDisposition (sa_disposition a) (map withoutSpend (filter noted (sa_facts a)))) = 0"
    using assms(2) noted_list_free by (rule slot_fold_free)
  moreover from this have "slotCharge u (noteDisposition
      (foldl noteDisposition (sa_disposition a) (map withoutSpend (filter noted (sa_facts a)))) (planBranchTerminal (sa_nodeId a))) = 0"
    using slot_fold_free [of u _ "[planBranchTerminal (sa_nodeId a)]"]
    by (simp add: planBranchTerminal_def bareHalt_def factUsage_def haltUsage_def emptySplit_def)
  ultimately show "slotCharge u (bs_disposition (planBranchSettlement a)) = 0"
    by (simp add: settlement_parts)
qed

section \<open>The shape of a settlement\<close>

definition branchFact :: "FactEvent \<Rightarrow> bool" where
  "branchFact f = (\<not> isRunLevel f \<and> \<not> isNodeStarted f)"

lemma aborted_branchFact:
  "(case f of F_node_aborted p \<Rightarrow> spends (ab_partialTokens p) (ab_partialCostUsd p) | _ \<Rightarrow> False) \<Longrightarrow> branchFact f"
  by (cases f) (simp_all add: branchFact_def isRunLevel_def isNodeStarted_def)

lemma spend_branchFacts: "list_all branchFact (spendFactsFor [f] c pos)"
  using spendFactsOf_shape [of c pos f] aborted_branchFact
  by (simp add: spendFactsFor_def list_all_iff)

lemma settled_branchFacts: "list_all branchFact (settled pos f)"
  using spend_branchFacts
  by (cases f) (simp_all add: settled_def branchFact_def isRunLevel_def isNodeStarted_def split: RunTerminatedPayload.split)

lemma settled_all_branchFacts: "list_all branchFact (concat (map (settled pos) fs))"
  by (induction fs) (simp_all add: settled_branchFacts)

lemma noteDisposition_rank: "slot = noteDisposition d f \<Longrightarrow> \<exists>g. slot = Some g \<and> dispositionRank f \<le> dispositionRank g"
  by (cases d) (auto simp: noteDisposition_def)

text \<open>C19: a settlement keeps the levels apart. The branch's commit holds no run-level fact and starts no
  node of the run; a successor is a node of the graph other than the join, and its dispatch is the
  last fact of the commit; a branch that ends the run (it completed it, or its successor is not in the
  graph) has no successor and leaves a halt in the slot.\<close>

theorem settlement_shape:
  "list_all branchFact (bs_branchFacts (planBranchSettlement a))
   \<and> (case bs_successor (planBranchSettlement a) of
        None \<Rightarrow> True
      | Some n \<Rightarrow> inGraph (sa_graphNodes a) n \<and> Some n \<noteq> sa_join a \<and> \<not> bs_terminal (planBranchSettlement a)
          \<and> (case last (bs_branchFacts (planBranchSettlement a)) of F_dispatch_started d \<Rightarrow> ds_nodeId d = n | _ \<Rightarrow> False))
   \<and> (if bs_terminal (planBranchSettlement a)
      then bs_successor (planBranchSettlement a) = None \<and> (case bs_disposition (planBranchSettlement a) of
             Some g \<Rightarrow> dispositionRank g \<ge> 3 | None \<Rightarrow> False)
      else True)"
proof -
  let ?s = "planBranchSettlement a"
  have d: "list_all branchFact (planDispatchStarted n k p r)" for n k p r
    by (simp add: planDispatchStarted_def branchFact_def isRunLevel_def isNodeStarted_def)
  have 1: "list_all branchFact (bs_branchFacts ?s)"
    using d by (simp add: settlement_parts settled_all_branchFacts split: option.split)
  have 2: "inGraph (sa_graphNodes a) n \<and> Some n \<noteq> sa_join a \<and> \<not> bs_terminal ?s
      \<and> (case last (bs_branchFacts ?s) of F_dispatch_started d \<Rightarrow> ds_nodeId d = n | _ \<Rightarrow> False)"
    if "bs_successor ?s = Some n" for n
    using that by (auto simp: settlement_parts planDispatchStarted_def split: option.splits if_splits)
  have 3: "bs_successor ?s = None \<and> (\<exists>g. bs_disposition ?s = Some g \<and> dispositionRank g \<ge> 3)" if "bs_terminal ?s"
  proof -
    have "bs_disposition ?s = noteDisposition (foldl noteDisposition (sa_disposition a) (map withoutSpend (filter noted (sa_facts a))))
        (planBranchTerminal (sa_nodeId a))" "bs_successor ?s = None"
      using that by (simp_all add: settlement_parts)
    moreover have "dispositionRank (planBranchTerminal (sa_nodeId a)) = 3"
      by (simp add: planBranchTerminal_def dispositionRank_def)
    ultimately show ?thesis using noteDisposition_rank by metis
  qed
  show ?thesis
  proof (intro conjI 1)
    show "case bs_successor ?s of None \<Rightarrow> True | Some n \<Rightarrow> inGraph (sa_graphNodes a) n \<and> Some n \<noteq> sa_join a \<and> \<not> bs_terminal ?s
        \<and> (case last (bs_branchFacts ?s) of F_dispatch_started d \<Rightarrow> ds_nodeId d = n | _ \<Rightarrow> False)"
      using 2 by (cases "bs_successor ?s") (simp only: option.case, simp only: option.case simp_thms)
    show "if bs_terminal ?s then bs_successor ?s = None
        \<and> (case bs_disposition ?s of Some g \<Rightarrow> dispositionRank g \<ge> 3 | None \<Rightarrow> False) else True"
    proof (cases "bs_terminal ?s")
      case True
      from 3 [OF this] obtain g where "bs_successor ?s = None" "bs_disposition ?s = Some g" "dispositionRank g \<ge> 3" by blast
      then show ?thesis by simp
    qed simp
  qed
qed

section \<open>The frontier after a settlement\<close>

definition isNodeCompleted :: "FactEvent \<Rightarrow> bool" where
  "isNodeCompleted f = (case f of F_node_completed _ \<Rightarrow> True | _ \<Rightarrow> False)"

lemma settled_quiet: "plannedKind f \<Longrightarrow> \<not> isNodeCompleted f \<Longrightarrow> foldl regionStep r (settled pos f) = r"
proof -
  have q: "foldl regionStep r fs = r"
    if "list_all (\<lambda>f. case f of F_node_aborted p \<Rightarrow> spends (ab_partialTokens p) (ab_partialCostUsd p) | _ \<Rightarrow> False) fs" for fs r
    using that
  proof (induction fs arbitrary: r)
    case (Cons f fs)
    then obtain p where "f = F_node_aborted p" by (cases f) simp_all
    then have "regionStep r f = r" by (simp add: regionStep_def frontierStep_def pointerStep_def)
    with Cons show ?case by simp
  qed simp
  have "foldl regionStep r (spendFactsFor [f] c pos) = r" for c f
    by (rule q) (simp add: spendFactsFor_def spendFactsOf_shape)
  then show "plannedKind f \<Longrightarrow> \<not> isNodeCompleted f \<Longrightarrow> foldl regionStep r (settled pos f) = r"
    by (cases f) (simp_all add: plannedKind_def isDisposition_def isNodeCompleted_def settled_def regionStep_def frontierStep_def
        pointerStep_def split: RunTerminatedPayload.split)
qed

lemma settled_completed [simp]: "settled pos (F_node_completed p) = [F_node_completed p]"
  by (simp add: settled_def)

lemma settled_all_quiet:
  "list_all plannedKind fs \<Longrightarrow> filter isNodeCompleted fs = [] \<Longrightarrow> foldl regionStep r (concat (map (settled pos) fs)) = r"
  by (induction fs arbitrary: r) (simp_all add: settled_quiet split: if_splits)

lemma settled_all_region:
  assumes "list_all plannedKind fs" "filter isNodeCompleted fs = [F_node_completed p]"
  shows "foldl regionStep r (concat (map (settled pos) fs)) = regionStep r (F_node_completed p)"
  using assms
proof (induction fs arbitrary: r)
  case (Cons f fs)
  show ?case
  proof (cases "isNodeCompleted f")
    case True
    then have "f = F_node_completed p" "filter isNodeCompleted fs = []" using Cons.prems by simp_all
    then show ?thesis using Cons.prems settled_all_quiet [of fs] by simp
  next
    case False
    then show ?thesis using Cons by (simp add: settled_quiet)
  qed
qed simp

text \<open>C21: settling a branch moves the frontier and nothing else of the region. When the branch's turn
  completed its node, the commit takes the node out of the frontier and puts its successor in (once,
  if a sibling dispatched it already); the node the run stands on does not move.\<close>

theorem settlement_moves_frontier:
  assumes "list_all plannedKind (sa_facts a)" "filter isNodeCompleted (sa_facts a) = [F_node_completed p]" "nc_nodeId p = sa_nodeId a"
    "getFrontier (rn_routing s) = Some active" "sa_nodeId a \<in> set active"
  shows "getFrontier (rn_routing (foldFacts s (bs_branchFacts (planBranchSettlement a)) now)) =
      Some (let rest = filter (\<lambda>n. n \<noteq> sa_nodeId a) active in
            case bs_successor (planBranchSettlement a) of
              None \<Rightarrow> rest | Some n \<Rightarrow> if n \<in> set rest then rest else rest @ [n])
    \<and> rn_currentNode (foldFacts s (bs_branchFacts (planBranchSettlement a)) now) = rn_currentNode s"
proof -
  let ?b = "planBranchSettlement a"
  have n: "regionStep (regionOf s) (F_node_completed p) = (Some (filter (\<lambda>n. n \<noteq> sa_nodeId a) active), rn_currentNode s)"
    using assms(3-5) by (auto simp: regionStep_def frontierStep_def pointerStep_def regionOf_def)
  have "foldl regionStep r (planDispatchStarted n k ps ro)
      = (map_option (\<lambda>a. if n \<in> set a then a else a @ [n]) (fst r), snd r)" for r n k ps ro
    by (cases "fst r") (simp_all add: planDispatchStarted_def regionStep_def frontierStep_def pointerStep_def)
  then have "regionOf (foldFacts s (bs_branchFacts ?b) now) =
      (Some (let rest = filter (\<lambda>n. n \<noteq> sa_nodeId a) active in
            case bs_successor ?b of None \<Rightarrow> rest | Some n \<Rightarrow> if n \<in> set rest then rest else rest @ [n]), rn_currentNode s)"
    by (simp add: fold_region settlement_parts settled_all_region [OF assms(1,2)] n split: option.split)
  then show ?thesis by (simp add: regionOf_def)
qed

section \<open>The early bail\<close>





section \<open>A concrete branch\<close>

definition sampleCompleted :: NodeCompletedPayload where
  "sampleCompleted = \<lparr>nc_nodeId = U ''a'', nc_iteration = 0, nc_pass = None, nc_tokens = 30, nc_costUsd = 0, nc_split = emptySplit,
     nc_modelName = None, nc_nextNode = U ''b'', nc_outcomeStatus = Some OS_success, nc_route = None, nc_outputs = None\<rparr>"

definition sampleSettlement :: SettlementArgs where
  \<comment> \<open>branch a spends 30 tokens and goes on to b\<close>
  "sampleSettlement = \<lparr>sa_nodeId = U ''a'', sa_facts = [F_node_completed sampleCompleted, F_node_started (U ''b'') 0 None], sa_nextNode = Some (U ''b''),
     sa_join = Some (U ''j''), sa_graphNodes = Some [(U ''b'', \<lparr>nd_id = U ''b'', nd_type = NT_llm, nd_attrs = noAttrs\<rparr>)],
     sa_pass = 0, sa_liveRouting = [], sa_routingPatch = None, sa_disposition = None\<rparr>"

lemma sample_branch:
  "list_all sensibleFact (sa_facts sampleSettlement)" "list_all plannedKind (sa_facts sampleSettlement)"
  "batchUsage UF_billedTokens (sa_facts sampleSettlement) = 30" "sa_disposition sampleSettlement = None"
  "filter isNodeCompleted (sa_facts sampleSettlement) = [F_node_completed sampleCompleted]"
  "sa_nodeId sampleSettlement = U ''a''" "nc_nodeId sampleCompleted = U ''a''"
  by (simp_all add: sampleSettlement_def sampleCompleted_def sensibleFact_def partialSpendOf_def sensible_def splitFields_def spends_def
      emptySplit_def factUsage_def isNodeCompleted_def)

lemma sample_successor: "bs_successor (planBranchSettlement sampleSettlement) = Some (U ''b'')"
  by (simp add: settlement_parts sampleSettlement_def settleStep_parts isCompleted_def inGraph_def ustr)

theorem settlement_conserves_spend_witness:
  "batchUsage UF_billedTokens (bs_branchFacts (planBranchSettlement sampleSettlement)) = 30
   \<and> slotCharge UF_billedTokens (bs_disposition (planBranchSettlement sampleSettlement)) = 0"
proof -
  have "slotCharge UF_billedTokens (sa_disposition sampleSettlement) = 0" by (simp add: sample_branch slotCharge_def)
  from settlement_conserves_spend [OF sample_branch(1) this] show ?thesis by (simp add: sample_branch)
qed

theorem settlement_moves_frontier_witness:
  "getFrontier (rn_routing (foldFacts (setFrontier [U ''a'', U ''c''] (ti_state sampleTurn))
       (bs_branchFacts (planBranchSettlement sampleSettlement)) 100)) = Some [U ''c'', U ''b'']"
proof -
  have n: "nc_nodeId sampleCompleted = sa_nodeId sampleSettlement" "sa_nodeId sampleSettlement \<in> set [U ''a'', U ''c'']"
    by (simp_all add: sample_branch)
  have f: "getFrontier (rn_routing (setFrontier [U ''a'', U ''c''] (ti_state sampleTurn))) = Some [U ''a'', U ''c'']" by simp
  from settlement_moves_frontier [OF sample_branch(2,5) n(1) f n(2), of 100] show ?thesis
    by (simp add: sample_branch sample_successor ustr)
qed


end
