(* ===== verification/Semaphore_Gate.thy ===== *)
theory Semaphore_Gate
  imports Fragua_Prelude
begin

text \<open>
  The gate on concurrent branches, class \<open>Semaphore\<close> of \<open>packages/daemon/src/fanout-support.ts\<close>: a
  count of taken slots and a queue of waiting resolvers, each a ticket here. A branch that calls
  \<open>acquire\<close> holds a slot from the moment the promise resolves to its call of \<open>release\<close>; the pool
  of branches around the gate is a step relation, one step per call.
\<close>

section \<open>The class\<close>

record Sem =
  se_active :: int
  se_waiters :: "nat list"

definition acquire :: "number \<Rightarrow> nat \<Rightarrow> Sem \<Rightarrow> Sem \<times> bool" where
  \<comment> \<open>the flag says whether the promise resolves at once\<close>
  "acquire limit t s =
     (if of_int (se_active s) < limit then (s\<lparr>se_active := se_active s + 1\<rparr>, True)
      else (s\<lparr>se_waiters := se_waiters s @ [t]\<rparr>, False))"

definition release :: "Sem \<Rightarrow> Sem \<times> nat option" where
  \<comment> \<open>the waiter whose promise it resolves\<close>
  "release s =
     (case se_waiters s of
        n # ws \<Rightarrow> (s\<lparr>se_waiters := ws\<rparr>, Some n)
      | [] \<Rightarrow> (s\<lparr>se_active := se_active s - 1\<rparr>, None))"

section \<open>A pool of branches around it\<close>

record Pool =
  po_sem :: Sem
  po_holders :: "nat list" \<comment> \<open>the branches between acquire and release\<close>
  po_arrived :: "nat list" \<comment> \<open>every branch that called acquire, in order\<close>
  po_served :: "nat list" \<comment> \<open>every branch that got a slot, in order\<close>

datatype PoolCall = Enter nat | Leave nat

definition emptyPool :: Pool where
  "emptyPool = \<lparr>po_sem = \<lparr>se_active = 0, se_waiters = []\<rparr>, po_holders = [], po_arrived = [], po_served = []\<rparr>"

inductive pool_step :: "number \<Rightarrow> Pool \<Rightarrow> PoolCall \<Rightarrow> Pool \<Rightarrow> bool" for limit where
  enter_now: "t \<notin> set (po_arrived p) \<Longrightarrow> acquire limit t (po_sem p) = (s, True) \<Longrightarrow>
     pool_step limit p (Enter t)
       (p\<lparr>po_sem := s, po_holders := po_holders p @ [t], po_arrived := po_arrived p @ [t], po_served := po_served p @ [t]\<rparr>)"
| enter_later: "t \<notin> set (po_arrived p) \<Longrightarrow> acquire limit t (po_sem p) = (s, False) \<Longrightarrow>
     pool_step limit p (Enter t) (p\<lparr>po_sem := s, po_arrived := po_arrived p @ [t]\<rparr>)"
| leave_pass: "t \<in> set (po_holders p) \<Longrightarrow> release (po_sem p) = (s, Some n) \<Longrightarrow>
     pool_step limit p (Leave t) (p\<lparr>po_sem := s, po_holders := remove1 t (po_holders p) @ [n], po_served := po_served p @ [n]\<rparr>)"
| leave_free: "t \<in> set (po_holders p) \<Longrightarrow> release (po_sem p) = (s, None) \<Longrightarrow>
     pool_step limit p (Leave t) (p\<lparr>po_sem := s, po_holders := remove1 t (po_holders p)\<rparr>)"

inductive_cases enterE: "pool_step limit p (Enter t) q"
inductive_cases leaveE: "pool_step limit p (Leave t) q"

inductive pool_run :: "number \<Rightarrow> Pool \<Rightarrow> PoolCall list \<Rightarrow> Pool \<Rightarrow> bool" for limit where
  run_nil: "pool_run limit p [] p"
| run_cons: "pool_step limit p c q \<Longrightarrow> pool_run limit q cs r \<Longrightarrow> pool_run limit p (c # cs) r"

inductive_cases run_consE: "pool_run limit p (c # cs) r"
inductive_cases run_nilE: "pool_run limit p [] r"







section \<open>Every waiter is served\<close>

definition leaves :: "PoolCall list \<Rightarrow> nat" where
  "leaves calls = length (filter (\<lambda>c. case c of Leave _ \<Rightarrow> True | _ \<Rightarrow> False) calls)"

lemma served_grows: "pool_step limit p c q \<Longrightarrow> set (po_served p) \<subseteq> set (po_served q)"
  by (induction rule: pool_step.induct) auto

lemma run_served: "pool_run limit p cs q \<Longrightarrow> set (po_served p) \<subseteq> set (po_served q)"
  by (induction rule: pool_run.induct) (auto dest: served_grows)

lemma step_waiters:
  assumes "pool_step limit p c q" "se_waiters (po_sem p) = pre @ t # post"
  shows "t \<in> set (po_served q) \<or>
     (\<exists>pre' post'. se_waiters (po_sem q) = pre' @ t # post' \<and>
        length pre = length pre' + (case c of Leave _ \<Rightarrow> 1 | _ \<Rightarrow> 0))"
  using assms
proof cases
  case (enter_now x s)
  then have "se_waiters s = pre @ t # post" using assms(2) by (auto simp: acquire_def split: if_splits)
  then show ?thesis using enter_now by auto
next
  case (enter_later x s)
  then have "se_waiters s = pre @ t # (post @ [x])" using assms(2) by (auto simp: acquire_def split: if_splits)
  then show ?thesis using enter_later by auto
next
  case (leave_pass x s n)
  then have w: "se_waiters (po_sem p) = n # se_waiters s" by (auto simp: release_def split: list.splits)
  show ?thesis
  proof (cases pre)
    case (Cons m ms)
    then have "se_waiters s = ms @ t # post" using w assms(2) by simp
    then show ?thesis using leave_pass Cons by auto
  qed (use leave_pass w assms(2) in simp)
next
  case (leave_free x s)
  then show ?thesis using assms(2) by (auto simp: release_def split: list.splits)
qed

lemma waiter_served:
  "pool_run limit p cs q \<Longrightarrow> se_waiters (po_sem p) = pre @ t # post \<Longrightarrow> length pre < leaves cs \<Longrightarrow> t \<in> set (po_served q)"
proof (induction arbitrary: pre post rule: pool_run.induct)
  case (run_nil p)
  then show ?case by (simp add: leaves_def)
next
  case (run_cons p c q cs r)
  from step_waiters [OF run_cons.hyps(1) run_cons.prems(1)] show ?case
  proof (elim disjE exE conjE)
    assume "t \<in> set (po_served q)"
    then show ?thesis using run_served [OF run_cons.hyps(2)] by blast
  next
    fix pre' post'
    assume w: "se_waiters (po_sem q) = pre' @ t # post'" "length pre = length pre' + (case c of Leave _ \<Rightarrow> 1 | _ \<Rightarrow> 0)"
    have "length pre' < leaves cs" using run_cons.prems(2) w(2) by (cases c) (simp_all add: leaves_def)
    then show ?thesis using run_cons.IH w(1) by blast
  qed
qed

text \<open>C25: no branch starves. A branch that waits behind \<open>k\<close> others gets its slot by the time \<open>k + 1\<close>
  branches have left, whoever enters in between.\<close>

theorem semaphore_live:
  assumes "pool_run limit emptyPool before p" "se_waiters (po_sem p) = ahead @ t # behind"
    "pool_run limit p after q" "length ahead < leaves after"
  shows "t \<in> set (po_served q)"
  using waiter_served [OF assms(3,2,4)] .

lemmas pool_eval = acquire_def release_def emptyPool_def

lemma sample_waiting: "pool_run 1 emptyPool [Enter 7, Enter 8]
    \<lparr>po_sem = \<lparr>se_active = 1, se_waiters = [8]\<rparr>, po_holders = [7], po_arrived = [7, 8], po_served = [7]\<rparr>"
proof -
  have "pool_step 1 emptyPool (Enter 7)
      \<lparr>po_sem = \<lparr>se_active = 1, se_waiters = []\<rparr>, po_holders = [7], po_arrived = [7], po_served = [7]\<rparr>"
    using pool_step.enter_now [of 7 emptyPool 1 "\<lparr>se_active = 1, se_waiters = []\<rparr>"] by (simp add: pool_eval)
  moreover have "pool_step 1 \<lparr>po_sem = \<lparr>se_active = 1, se_waiters = []\<rparr>, po_holders = [7], po_arrived = [7], po_served = [7]\<rparr> (Enter 8)
      \<lparr>po_sem = \<lparr>se_active = 1, se_waiters = [8]\<rparr>, po_holders = [7], po_arrived = [7, 8], po_served = [7]\<rparr>"
    using pool_step.enter_later [of 8 "\<lparr>po_sem = \<lparr>se_active = 1, se_waiters = []\<rparr>, po_holders = [7], po_arrived = [7], po_served = [7]\<rparr>"
        1 "\<lparr>se_active = 1, se_waiters = [8]\<rparr>"] by (simp add: pool_eval)
  ultimately show ?thesis by (blast intro: pool_run.intros)
qed

lemma sample_served: "pool_run 1 \<lparr>po_sem = \<lparr>se_active = 1, se_waiters = [8]\<rparr>, po_holders = [7], po_arrived = [7, 8], po_served = [7]\<rparr>
    [Leave 7] \<lparr>po_sem = \<lparr>se_active = 1, se_waiters = []\<rparr>, po_holders = [8], po_arrived = [7, 8], po_served = [7, 8]\<rparr>"
  using pool_step.leave_pass [of 7 "\<lparr>po_sem = \<lparr>se_active = 1, se_waiters = [8]\<rparr>, po_holders = [7], po_arrived = [7, 8], po_served = [7]\<rparr>"
      "\<lparr>se_active = 1, se_waiters = []\<rparr>" 8 1] by (auto simp: pool_eval intro: pool_run.intros)


theorem semaphore_live_witness:
  "8 \<in> set (po_served \<lparr>po_sem = \<lparr>se_active = 1, se_waiters = []\<rparr>, po_holders = [8], po_arrived = [7, 8], po_served = [7, 8::nat]\<rparr>)"
  by (rule semaphore_live [OF sample_waiting _ sample_served, of "[]" 8 "[]"]) (simp_all add: leaves_def)

end
