(* ===== verification/Store_Rows.thy ===== *)
theory Store_Rows
  imports Transition_Planner "HOL-Library.Product_Lexorder"
begin

text \<open>
  The store's tables as the writer sees them, \<open>packages/store/src/run-state-queries.ts\<close> and
  \<open>event-queries.ts\<close>: the rows of \<open>run_state\<close>, the event log, the outputs index, the blob rows, the
  imported-run marks and the daemon lock, with one definition per SQL statement. A column holds the
  value its JSON text stands for; \<open>rowToRunState\<close> and the serialization are the identity on them.
\<close>

section \<open>Tables\<close>

record RunRow =
  rr_state :: RunState
  rr_claimEpoch :: int

datatype (plugins only: code size) EventBody =
    EB_genesis RunEnqueuedPayload
  | EB_intent IntentType jsobj
  | EB_fact FactEvent
  | EB_obs ustring jsobj

record EventRow =
  er_runId :: ustring
  er_seq :: int
  er_body :: EventBody
  er_ts :: number

record Db =
  db_rows :: "(ustring \<times> RunRow) list"
  db_events :: "EventRow list"
  db_outputs :: "((ustring \<times> ustring \<times> number) \<times> ustring) list" \<comment> \<open>(run, node, iteration) to struct JSON\<close>
  db_blobs :: "(ustring \<times> nat) list" \<comment> \<open>sha to size\<close>
  db_imported :: "ustring list"
  db_workflows :: "ustring list" \<comment> \<open>shas\<close>
  db_lockPid :: "number option"

definition writtenByClient :: "EventBody \<Rightarrow> bool" where
  \<comment> \<open>\<open>writer = 'client'\<close>\<close>
  "writtenByClient b = (case b of EB_genesis _ \<Rightarrow> True | EB_intent _ _ \<Rightarrow> True | _ \<Rightarrow> False)"

definition isImported :: "Db \<Rightarrow> ustring \<Rightarrow> bool" where
  "isImported db runId = (runId \<in> set (db_imported db))"

definition selectRunStateRow :: "Db \<Rightarrow> ustring \<Rightarrow> RunRow option" where
  "selectRunStateRow db runId = obj_get (db_rows db) runId"

definition runEvents :: "Db \<Rightarrow> ustring \<Rightarrow> EventRow list" where
  "runEvents db runId = filter (\<lambda>e. er_runId e = runId) (db_events db)"

definition setRow :: "ustring \<Rightarrow> RunRow \<Rightarrow> Db \<Rightarrow> Db" where
  "setRow runId row db = db\<lparr>db_rows := obj_set runId row (db_rows db)\<rparr>"

section \<open>Reads\<close>

definition countDispatchableRunningRuns :: "Db \<Rightarrow> nat" where
  "countDispatchableRunningRuns db =
     length (filter (\<lambda>(r, row). rn_status (rr_state row) = St_running \<and> \<not> isImported db r) (db_rows db))"

definition claimBefore :: "ustring \<times> RunRow \<Rightarrow> ustring \<times> RunRow \<Rightarrow> bool" where
  \<comment> \<open>\<open>ORDER BY priority DESC, ready_at ASC, run_id ASC\<close>\<close>
  "claimBefore a b =
     (let s = rr_state (snd a); t = rr_state (snd b) in
      rn_priority s > rn_priority t
      \<or> (rn_priority s = rn_priority t \<and> (rn_readyAt s < rn_readyAt t \<or> (rn_readyAt s = rn_readyAt t \<and> fst a < fst b))))"

definition isQueuedHere :: "Db \<Rightarrow> ustring \<times> RunRow \<Rightarrow> bool" where
  "isQueuedHere db a = (rn_status (rr_state (snd a)) = St_queued \<and> \<not> isImported db (fst a))"

definition firstInOrder :: "('a \<Rightarrow> 'a \<Rightarrow> bool) \<Rightarrow> 'a list \<Rightarrow> 'a option" where
  \<comment> \<open>\<open>ORDER BY \<dots> LIMIT 1\<close>\<close>
  "firstInOrder before xs =
     foldl (\<lambda>best x. case best of None \<Rightarrow> Some x | Some b \<Rightarrow> if before x b then Some x else best) None xs"

definition selectNextQueuedRun :: "Db \<Rightarrow> (ustring \<times> int) option" where
  "selectNextQueuedRun db =
     map_option (\<lambda>a. (fst a, rn_version (rr_state (snd a)))) (firstInOrder claimBefore (filter (isQueuedHere db) (db_rows db)))"

definition holdsCheckout :: "Db \<Rightarrow> ustring \<Rightarrow> ustring \<times> RunRow \<Rightarrow> bool" where
  "holdsCheckout db key a =
     (rn_checkoutPath (rr_state (snd a)) = Some key \<and> \<not> rn_checkoutReleased (rr_state (snd a)) \<and> \<not> isImported db (fst a))"

definition heldBefore :: "ustring \<times> RunRow \<Rightarrow> ustring \<times> RunRow \<Rightarrow> bool" where
  \<comment> \<open>\<open>ORDER BY enqueued_at ASC, run_id ASC\<close>\<close>
  "heldBefore a b =
     (rn_enqueuedAt (rr_state (snd a)) < rn_enqueuedAt (rr_state (snd b))
      \<or> (rn_enqueuedAt (rr_state (snd a)) = rn_enqueuedAt (rr_state (snd b)) \<and> fst a < fst b))"

definition selectCheckoutHolder :: "Db \<Rightarrow> ustring \<Rightarrow> (ustring \<times> RunStatus) option" where
  "selectCheckoutHolder db key =
     map_option (\<lambda>a. (fst a, rn_status (rr_state (snd a)))) (firstInOrder heldBefore (filter (holdsCheckout db key) (db_rows db)))"

definition workflowExists :: "Db \<Rightarrow> ustring \<Rightarrow> bool" where
  "workflowExists db sha = (sha \<in> set (db_workflows db))"

record WakeCandidate =
  wc_runId :: ustring
  wc_version :: int
  wc_lastAppliedSeq :: int
  wc_status :: RunStatus

definition autoResumeDue :: "jsobj \<Rightarrow> number \<Rightarrow> bool" where
  \<comment> \<open>\<open>CAST(json_extract(routing, '$."internal.auto_resume_at"') AS INTEGER)\<close> is not NULL and at most the cutoff:
    the cast truncates; the key's gate admits a number only, and a number that is not finite is stored as null\<close>
  "autoResumeDue routing cutoff =
     (case obj_get routing AUTO_RESUME_AT_KEY of
        Some (JNum (Fin n)) \<Rightarrow> (if 0 \<le> n then of_int \<lfloor>n\<rfloor> else of_int \<lceil>n\<rceil>) \<le> cutoff
      | _ \<Rightarrow> False)"

definition selectWakeCandidates :: "Db \<Rightarrow> RunStatus list \<Rightarrow> number option \<Rightarrow> WakeCandidate list" where
  "selectWakeCandidates db statuses autoResumeBefore =
     (if statuses = [] then []
      else map (\<lambda>(r, row). \<lparr>wc_runId = r, wc_version = rn_version (rr_state row),
                  wc_lastAppliedSeq = rn_lastAppliedSeq (rr_state row), wc_status = rn_status (rr_state row)\<rparr>)
             (filter (\<lambda>(r, row). rn_status (rr_state row) \<in> set statuses \<and> \<not> isImported db r
                  \<and> (case autoResumeBefore of None \<Rightarrow> True | Some t \<Rightarrow> autoResumeDue (rn_routing (rr_state row)) t))
                (db_rows db)))"

definition selectUnappliedIntents :: "Db \<Rightarrow> ustring \<Rightarrow> int \<Rightarrow> EventRow list" where
  "selectUnappliedIntents db runId sinceSeq =
     sort_key er_seq (filter (\<lambda>e. er_seq e > sinceSeq \<and> writtenByClient (er_body e)) (runEvents db runId))"

definition selectHasPendingIntentBetween :: "Db \<Rightarrow> ustring \<Rightarrow> int \<Rightarrow> int \<Rightarrow> bool" where
  "selectHasPendingIntentBetween db runId afterSeq beforeSeq =
     list_ex (\<lambda>e. er_seq e > afterSeq \<and> er_seq e < beforeSeq \<and> (case er_body e of EB_intent _ _ \<Rightarrow> True | _ \<Rightarrow> False))
       (runEvents db runId)"

definition selectNextPendingIntent :: "Db \<Rightarrow> ustring \<Rightarrow> IntentType \<Rightarrow> int \<Rightarrow> (int \<times> jsobj) option" where
  "selectNextPendingIntent db runId ty sinceSeq =
     map_option (\<lambda>e. (er_seq e, case er_body e of EB_intent _ p \<Rightarrow> p | _ \<Rightarrow> []))
       (firstInOrder (\<lambda>a b. er_seq a < er_seq b)
          (filter (\<lambda>e. er_seq e > sinceSeq \<and> (case er_body e of EB_intent t _ \<Rightarrow> t = ty | _ \<Rightarrow> False)) (runEvents db runId)))"

section \<open>Side effects without a receipt\<close>

definition intentKey :: "EventRow \<Rightarrow> ustring option" where
  "intentKey e = (case er_body e of EB_fact (F_side_effect_intent _ _ _ _ _ k) \<Rightarrow> Some k | _ \<Rightarrow> None)"

definition receiptKey :: "EventRow \<Rightarrow> ustring option" where
  "receiptKey e =
     (case er_body e of
        EB_fact (F_side_effect_done k _ _ _) \<Rightarrow> Some k | EB_fact (F_side_effect_failed k _ _) \<Rightarrow> Some k | _ \<Rightarrow> None)"

definition isOrphan :: "Db \<Rightarrow> EventRow \<Rightarrow> bool" where
  "isOrphan db e =
     (case intentKey e of
        None \<Rightarrow> False
      | Some k \<Rightarrow> \<not> list_ex (\<lambda>d. er_runId d = er_runId e \<and> receiptKey d = Some k) (db_events db))"

definition selectOrphanSideEffects :: "Db \<Rightarrow> ustring \<Rightarrow> EventRow list" where
  "selectOrphanSideEffects db runId = sort_key er_seq (filter (isOrphan db) (runEvents db runId))"

definition sweepable :: "Db \<Rightarrow> ustring \<Rightarrow> bool" where
  "sweepable db runId =
     (\<not> isImported db runId \<and>
      (case selectRunStateRow db runId of
         None \<Rightarrow> False
       | Some row \<Rightarrow> rn_status (rr_state row) \<in> set [St_queued, St_running, St_paused, St_paused_human, St_paused_auto]))"

definition selectAllOrphanSideEffects :: "Db \<Rightarrow> (ustring \<times> int) list" where
  "selectAllOrphanSideEffects db =
     sort (map (\<lambda>e. (er_runId e, er_seq e)) (filter (\<lambda>e. isOrphan db e \<and> sweepable db (er_runId e)) (db_events db)))"

definition selectRunningNonImportedRuns :: "Db \<Rightarrow> (ustring \<times> ustring option) list" where
  "selectRunningNonImportedRuns db =
     map (\<lambda>(r, row). (r, rn_currentNode (rr_state row)))
       (filter (\<lambda>(r, row). rn_status (rr_state row) = St_running \<and> \<not> isImported db r) (db_rows db))"

section \<open>Writes\<close>

definition insertEvent :: "ustring \<Rightarrow> int \<Rightarrow> EventBody \<Rightarrow> number \<Rightarrow> Db \<Rightarrow> Db" where
  "insertEvent runId s body ts db =
     db\<lparr>db_events := db_events db @ [\<lparr>er_runId = runId, er_seq = s, er_body = body, er_ts = ts\<rparr>]\<rparr>"

definition bumpRunSeq :: "ustring \<Rightarrow> Db \<Rightarrow> (int \<times> Db) option" where
  "bumpRunSeq runId db =
     map_option (\<lambda>row. (rn_nextSeq (rr_state row),
         setRow runId (row\<lparr>rr_state := (rr_state row)\<lparr>rn_nextSeq := rn_nextSeq (rr_state row) + 1\<rparr>\<rparr>) db))
       (selectRunStateRow db runId)"

definition insertOutput :: "ustring \<Rightarrow> ustring \<Rightarrow> number \<Rightarrow> ustring \<Rightarrow> Db \<Rightarrow> Db" where
  "insertOutput runId nodeId iteration structJson db =
     db\<lparr>db_outputs := obj_set (runId, nodeId, iteration) structJson (db_outputs db)\<rparr>"

definition insertBlobIfAbsent :: "ustring \<Rightarrow> nat \<Rightarrow> Db \<Rightarrow> Db" where
  "insertBlobIfAbsent sha bytes db =
     (if obj_get (db_blobs db) sha = None then db\<lparr>db_blobs := db_blobs db @ [(sha, bytes)]\<rparr> else db)"

definition projectOnto :: "RunState \<Rightarrow> RunState \<Rightarrow> RunState" where
  \<comment> \<open>the columns \<open>WRITE_PROJECTION_SQL\<close> sets; the others keep the row's value\<close>
  "projectOnto old new =
     old\<lparr>rn_version := rn_version new, rn_status := rn_status new, rn_currentNode := rn_currentNode new,
       rn_routing := rn_routing new, rn_metrics := rn_metrics new, rn_lastAppliedSeq := rn_lastAppliedSeq new,
       rn_priority := rn_priority new, rn_readyAt := rn_readyAt new, rn_nodeStartedAt := rn_nodeStartedAt new,
       rn_dispatchStartedAt := rn_dispatchStartedAt new, rn_updatedAt := rn_updatedAt new,
       rn_baseGitSha := rn_baseGitSha new, rn_baseGitRef := rn_baseGitRef new, rn_baseHeadSha := rn_baseHeadSha new,
       rn_checkoutReleased := rn_checkoutReleased new, rn_finalGitSha := rn_finalGitSha new,
       rn_finalHeadRef := rn_finalHeadRef new, rn_diffBaseSha := rn_diffBaseSha new, rn_changeStat := rn_changeStat new,
       rn_inboxStatus := rn_inboxStatus new, rn_acceptedSha := rn_acceptedSha new\<rparr>"

definition writeRunStateProjection :: "RunState \<Rightarrow> int \<Rightarrow> int \<Rightarrow> Db \<Rightarrow> Db option" where
  \<comment> \<open>None when no row changed\<close>
  "writeRunStateProjection state expectedVersion epochBump db =
     (case selectRunStateRow db (rn_runId state) of
        None \<Rightarrow> None
      | Some row \<Rightarrow>
          if rn_version (rr_state row) = expectedVersion
          then Some (setRow (rn_runId state)
                 \<lparr>rr_state = projectOnto (rr_state row) state, rr_claimEpoch = rr_claimEpoch row + epochBump\<rparr> db)
          else None)"

definition updateRunStateTitle :: "ustring \<Rightarrow> ustring \<Rightarrow> number \<Rightarrow> Db \<Rightarrow> Db" where
  "updateRunStateTitle runId title now db =
     (case selectRunStateRow db runId of
        None \<Rightarrow> db
      | Some row \<Rightarrow> setRow runId (row\<lparr>rr_state := (rr_state row)\<lparr>rn_title := Some title, rn_updatedAt := now\<rparr>\<rparr>) db)"

definition claimQueuedRun :: "ustring \<Rightarrow> int \<Rightarrow> number \<Rightarrow> number option \<Rightarrow> Db \<Rightarrow> (int \<times> Db) option" where
  \<comment> \<open>the new epoch\<close>
  "claimQueuedRun runId expectedVersion now claimerPid db =
     (case selectRunStateRow db runId of
        None \<Rightarrow> None
      | Some row \<Rightarrow>
          if rn_version (rr_state row) = expectedVersion \<and> rn_status (rr_state row) = St_queued
             \<and> (claimerPid = None \<or> db_lockPid db = claimerPid)
          then Some (rr_claimEpoch row + 1,
                 setRow runId \<lparr>rr_state = (rr_state row)\<lparr>rn_status := St_running, rn_nodeStartedAt := Some now,
                     rn_version := rn_version (rr_state row) + 1, rn_updatedAt := now\<rparr>,
                   rr_claimEpoch = rr_claimEpoch row + 1\<rparr> db)
          else None)"

definition creditActive :: "number \<Rightarrow> RunState \<Rightarrow> RunState" where
  \<comment> \<open>\<open>json_set(metrics, '$.activeMs', COALESCE(json_extract(metrics, '$.activeMs'), 0) + ?)\<close>\<close>
  "creditActive ms s = s\<lparr>rn_metrics := (rn_metrics s)\<lparr>rm_activeMs := rm_activeMs (rn_metrics s) + ms\<rparr>\<rparr>"

definition requeuedRow :: "number \<Rightarrow> number \<Rightarrow> number \<Rightarrow> RunRow \<Rightarrow> RunRow" where
  \<comment> \<open>the SET list of the two requeue statements\<close>
  "requeuedRow readyAt now activeMsDelta row =
     \<lparr>rr_state = (creditActive activeMsDelta (rr_state row))
        \<lparr>rn_status := St_queued, rn_nodeStartedAt := None, rn_dispatchStartedAt := None, rn_readyAt := readyAt,
         rn_version := rn_version (rr_state row) + 1, rn_updatedAt := now\<rparr>,
      rr_claimEpoch = rr_claimEpoch row + 1\<rparr>"

definition updateRunStateRequeuedAfterCrash :: "ustring \<Rightarrow> number \<Rightarrow> number \<Rightarrow> number \<Rightarrow> Db \<Rightarrow> Db" where
  "updateRunStateRequeuedAfterCrash runId readyAt now activeMsDelta db =
     (case selectRunStateRow db runId of None \<Rightarrow> db | Some row \<Rightarrow> setRow runId (requeuedRow readyAt now activeMsDelta row) db)"

definition updateRunStateReleasedClaim :: "ustring \<Rightarrow> int \<Rightarrow> number \<Rightarrow> number \<Rightarrow> number \<Rightarrow> Db \<Rightarrow> Db option" where
  "updateRunStateReleasedClaim runId claimEpoch readyAt now activeMsDelta db =
     (case selectRunStateRow db runId of
        None \<Rightarrow> None
      | Some row \<Rightarrow>
          if rn_status (rr_state row) = St_running \<and> rr_claimEpoch row = claimEpoch
          then Some (setRow runId (requeuedRow readyAt now activeMsDelta row) db) else None)"

definition quarantinedRow :: "number \<Rightarrow> number \<Rightarrow> RunRow \<Rightarrow> RunRow" where
  "quarantinedRow now activeMsDelta row =
     \<lparr>rr_state = (creditActive activeMsDelta (rr_state row))
        \<lparr>rn_status := St_quarantined, rn_currentNode := None, rn_nodeStartedAt := None, rn_dispatchStartedAt := None,
         rn_version := rn_version (rr_state row) + 1, rn_updatedAt := now\<rparr>,
      rr_claimEpoch = rr_claimEpoch row + 1\<rparr>"

definition updateRunStateQuarantinedBySweep :: "ustring \<Rightarrow> number \<Rightarrow> number \<Rightarrow> Db \<Rightarrow> Db" where
  "updateRunStateQuarantinedBySweep runId now activeMsDelta db =
     (case selectRunStateRow db runId of None \<Rightarrow> db | Some row \<Rightarrow> setRow runId (quarantinedRow now activeMsDelta row) db)"

section \<open>Reads after writes\<close>

lemma select_setRow [obj_simps]: "selectRunStateRow (setRow r row db) r' = (if r' = r then Some row else selectRunStateRow db r')"
  by (simp add: selectRunStateRow_def setRow_def obj_simps)

lemma setRow_others [simp]: "db_events (setRow r row db) = db_events db" "db_imported (setRow r row db) = db_imported db"
  "db_lockPid (setRow r row db) = db_lockPid db" "runEvents (setRow r row db) r' = runEvents db r'"
  "isImported (setRow r row db) r' = isImported db r'"
  by (simp_all add: setRow_def runEvents_def isImported_def)

lemma insertEvent_others [simp]: "selectRunStateRow (insertEvent r s b ts db) r' = selectRunStateRow db r'"
  "db_rows (insertEvent r s b ts db) = db_rows db" "isImported (insertEvent r s b ts db) r' = isImported db r'"
  "runEvents (insertEvent r s b ts db) r' =
     runEvents db r' @ (if r' = r then [\<lparr>er_runId = r, er_seq = s, er_body = b, er_ts = ts\<rparr>] else [])"
  by (simp_all add: insertEvent_def selectRunStateRow_def runEvents_def isImported_def)

lemma insertOutput_others [simp]: "selectRunStateRow (insertOutput r n k j db) r' = selectRunStateRow db r'"
  "runEvents (insertOutput r n k j db) r' = runEvents db r'" "isImported (insertOutput r n k j db) r' = isImported db r'"
  by (simp_all add: insertOutput_def selectRunStateRow_def runEvents_def isImported_def)

lemma insertBlob_others [simp]: "selectRunStateRow (insertBlobIfAbsent s b db) r' = selectRunStateRow db r'"
  "runEvents (insertBlobIfAbsent s b db) r' = runEvents db r'" "isImported (insertBlobIfAbsent s b db) r' = isImported db r'"
  by (simp_all add: insertBlobIfAbsent_def selectRunStateRow_def runEvents_def isImported_def)

end
