(* ===== verification/Routing_Blobs.thy ===== *)
theory Routing_Blobs
  imports Routing
begin

text \<open>
  Spilling large inputs to the blob store and resolving them back,
  \<open>packages/store/src/routing-blobs.ts\<close>: UTF-8 as \<open>TextEncoder\<close> and a fatal \<open>TextDecoder\<close> compute it, the
  blob references, the spill of \<open>routing.inputs\<close> and of a whole outputs struct, and the deep walks that
  find and resolve references. The digest of a byte string and the locale order of two keys are
  arguments; a blob store is an association list from digests to bytes.
\<close>

section \<open>UTF-8\<close>

type_synonym bytes = "nat list"

definition isSurrogate :: "nat \<Rightarrow> bool" where
  "isSurrogate cp = (0xD800 \<le> cp \<and> cp \<le> 0xDFFF)"

definition utf8Encode :: "nat \<Rightarrow> bytes" where
  "utf8Encode cp =
     (if cp < 0x80 then [cp]
      else if cp < 0x800 then [0xC0 + cp div 64, 0x80 + cp mod 64]
      else if cp < 0x10000 then [0xE0 + cp div 4096, 0x80 + cp div 64 mod 64, 0x80 + cp mod 64]
      else [0xF0 + cp div 262144, 0x80 + cp div 4096 mod 64, 0x80 + cp div 64 mod 64, 0x80 + cp mod 64])"

definition TextEncoder_encode :: "ustring \<Rightarrow> bytes" where
  \<comment> \<open>a lone surrogate is encoded as U+FFFD\<close>
  "TextEncoder_encode s = concat (map (\<lambda>cp. utf8Encode (if isSurrogate cp then 0xFFFD else cp)) (codePoints s))"

definition isCont :: "nat \<Rightarrow> bool" where
  "isCont b = (0x80 \<le> b \<and> b \<le> 0xBF)"

fun utf8Decode :: "bytes \<Rightarrow> nat list option" where
  \<comment> \<open>None where the fatal decoder throws: an overlong form, a surrogate, a stray or missing continuation\<close>
  "utf8Decode [] = Some []"
| "utf8Decode (a # r) =
     (if a < 0x80 then map_option (Cons a) (utf8Decode r)
      else if 0xC2 \<le> a \<and> a \<le> 0xDF then
        (case r of
           b # r1 \<Rightarrow> if isCont b then map_option (Cons ((a - 0xC0) * 64 + (b - 0x80))) (utf8Decode r1) else None
         | _ \<Rightarrow> None)
      else if 0xE0 \<le> a \<and> a \<le> 0xEF then
        (case r of
           b # c # r1 \<Rightarrow>
             if isCont b \<and> isCont c \<and> (a = 0xE0 \<longrightarrow> 0xA0 \<le> b) \<and> (a = 0xED \<longrightarrow> b \<le> 0x9F)
             then map_option (Cons ((a - 0xE0) * 4096 + (b - 0x80) * 64 + (c - 0x80))) (utf8Decode r1) else None
         | _ \<Rightarrow> None)
      else if 0xF0 \<le> a \<and> a \<le> 0xF4 then
        (case r of
           b # c # d # r1 \<Rightarrow>
             if isCont b \<and> isCont c \<and> isCont d \<and> (a = 0xF0 \<longrightarrow> 0x90 \<le> b) \<and> (a = 0xF4 \<longrightarrow> b \<le> 0x8F)
             then map_option (Cons ((a - 0xF0) * 262144 + (b - 0x80) * 4096 + (c - 0x80) * 64 + (d - 0x80))) (utf8Decode r1)
             else None
         | _ \<Rightarrow> None)
      else None)"

definition stripBom :: "nat list \<Rightarrow> nat list" where
  "stripBom cps = (case cps of [] \<Rightarrow> [] | cp # r \<Rightarrow> if cp = 0xFEFF then r else cp # r)"

definition TextDecoder_decode :: "bytes \<Rightarrow> ustring option" where
  \<comment> \<open>\<open>new TextDecoder("utf-8", { fatal: true })\<close>; the default \<open>ignoreBOM\<close> drops a leading byte order mark\<close>
  "TextDecoder_decode bs = map_option (\<lambda>cps. concat (map utf16Encode (stripBom cps))) (utf8Decode bs)"

section \<open>UTF-8 round trip\<close>

lemma length_utf8Encode: "cp < 0x110000 \<Longrightarrow> length (utf8Encode cp) = utf8Bytes cp"
  by (simp add: utf8Encode_def utf8Bytes_def)

lemma mod_64 [simp]: "n mod 64 \<le> (63 :: nat)"
  using mod_less_divisor [of 64 n] by linarith

lemma digits_64:
  "cp div 4096 * 4096 + cp div 64 mod 64 * 64 + cp mod 64 = (cp :: nat)"
  "cp div 262144 * 262144 + cp div 4096 mod 64 * 4096 + cp div 64 mod 64 * 64 + cp mod 64 = (cp :: nat)"
proof -
  have "cp div (64 * 64) = cp div 64 div 64" "cp div (64 * 64 * 64) = cp div (64 * 64) div 64" by (rule div_mult2_eq)+
  then have "cp div 4096 = cp div 64 div 64" "cp div 262144 = cp div 4096 div 64" by simp_all
  moreover have "cp div 64 * 64 + cp mod 64 = cp" "cp div 64 div 64 * 64 + cp div 64 mod 64 = cp div 64"
    "cp div 4096 div 64 * 64 + cp div 4096 mod 64 = cp div 4096" by (rule div_mult_mod_eq)+
  ultimately show "cp div 4096 * 4096 + cp div 64 mod 64 * 64 + cp mod 64 = cp"
    "cp div 262144 * 262144 + cp div 4096 mod 64 * 4096 + cp div 64 mod 64 * 64 + cp mod 64 = cp" by linarith+
qed

lemma utf8Decode_step:
  assumes "cp < 0x110000" and "\<not> isSurrogate cp"
  shows "utf8Decode (utf8Encode cp @ r) = map_option (Cons cp) (utf8Decode r)"
proof -
  consider "cp < 0x80" | "0x80 \<le> cp" "cp < 0x800" | "0x800 \<le> cp" "cp < 0x10000" | "0x10000 \<le> cp" by linarith
  then show ?thesis
  proof cases
    case 1
    then show ?thesis by (simp add: utf8Encode_def)
  next
    case 2
    have "cp div 64 * 64 + cp mod 64 = cp" by simp
    moreover have "2 \<le> cp div 64" "cp div 64 < 32" "cp mod 64 < 64" using 2 by (auto simp: div_less_iff_less_mult)
    ultimately show ?thesis using 2 by (simp add: utf8Encode_def isCont_def)
  next
    case 3
    have "cp div 4096 * 4096 + cp div 64 mod 64 * 64 + cp mod 64 = cp" by (rule digits_64(1))
    moreover have "cp div 4096 < 16" "cp mod 64 < 64" "cp div 64 mod 64 < 64" using 3 by (auto simp: div_less_iff_less_mult)
    moreover have "cp div 4096 = 0 \<Longrightarrow> 0x20 \<le> cp div 64 mod 64" using 3 by simp
    moreover have "cp div 4096 = 0xD \<Longrightarrow> cp div 64 mod 64 \<le> 0x1F" 
      using assms(2) digits_64(1) [of cp] mod_64 [of cp] mod_64 [of "cp div 64"] by (simp add: isSurrogate_def)
    ultimately show ?thesis using 3 by (simp add: utf8Encode_def isCont_def)
  next
    case 4
    have "cp div 262144 * 262144 + cp div 4096 mod 64 * 4096 + cp div 64 mod 64 * 64 + cp mod 64 = cp" by (rule digits_64(2))
    moreover have "cp div 262144 < 5" "cp mod 64 < 64" "cp div 64 mod 64 < 64" "cp div 4096 mod 64 < 64"
      using 4 assms(1) by (auto simp: div_less_iff_less_mult)
    moreover have "cp div 262144 = 0 \<Longrightarrow> 0x10 \<le> cp div 4096 mod 64" using 4 by simp
    moreover have "cp div 262144 = 4 \<Longrightarrow> cp div 4096 mod 64 \<le> 0xF"
      using assms(1) digits_64(2) [of cp] by linarith
    ultimately show ?thesis using 4 by (simp add: utf8Encode_def isCont_def)
  qed
qed

lemma split_pair: "q < 0x400 \<Longrightarrow> (p * 0x400 + q) div 0x400 = p \<and> (p * 0x400 + q) mod 0x400 = (q :: nat)"
  by simp

lemma codePoints_utf16: "concat (map utf16Encode (codePoints s)) = s"
proof (induction s rule: codePoints.induct)
  case (3 a b r)
  have "utf16Encode (pairPoint a b) = [a, b]" if "isHigh a" "isLow b"
  proof -
    have u: "unat a - 0xD800 < 0x400" "unat b - 0xDC00 < 0x400" "0xD800 \<le> unat a" "0xDC00 \<le> unat b"
      using that by (auto simp: isHigh_def isLow_def)
    then have "(unat a - 0xD800) * 0x400 + (unat b - 0xDC00) = pairPoint a b - 0x10000" "pairPoint a b > 0xFFFF"
      by (simp_all add: pairPoint_def)
    then show ?thesis using u(3,4) split_pair [OF u(2), of "unat a - 0xD800"] by (simp add: utf16Encode_def)
  qed
  then show ?case using 3 unat16_less [of a] by (simp add: utf16Encode_def)
next
  case (2 a)
  then show ?case using unat16_less [of a] by (simp add: utf16Encode_def)
qed simp

definition wellFormedText :: "ustring \<Rightarrow> bool" where
  \<comment> \<open>no lone surrogate\<close>
  "wellFormedText s = list_all (\<lambda>cp. \<not> isSurrogate cp) (codePoints s)"

definition bomFree :: "ustring \<Rightarrow> bool" where
  "bomFree s = (case s of [] \<Rightarrow> True | u # _ \<Rightarrow> u \<noteq> 0xFEFF)"

lemma utf8Decode_encode: "list_all (\<lambda>cp. cp < 0x110000 \<and> \<not> isSurrogate cp) cps \<Longrightarrow> utf8Decode (concat (map utf8Encode cps)) = Some cps"
  by (induction cps) (simp_all add: utf8Decode_step)

lemma stripBom_codePoints: "bomFree s \<Longrightarrow> stripBom (codePoints s) = codePoints s"
proof (induction s rule: codePoints.induct)
  case (2 a)
  then show ?case by (auto simp: stripBom_def bomFree_def word_unat_eq_iff)
next
  case (3 a b r)
  have "pairPoint a b \<noteq> 0xFEFF" by (simp add: pairPoint_def)
  with 3 show ?case by (auto simp: stripBom_def bomFree_def word_unat_eq_iff)
qed (simp add: stripBom_def)

lemma decode_encode:
  assumes "wellFormedText s" and "bomFree s"
  shows "TextDecoder_decode (TextEncoder_encode s) = Some s"
proof -
  have scalars: "list_all (\<lambda>cp. cp < 0x110000 \<and> \<not> isSurrogate cp) (codePoints s)"
    using assms(1) codePoints_range [of _ s] by (auto simp: wellFormedText_def list_all_iff)
  then have "TextEncoder_encode s = concat (map utf8Encode (codePoints s))"
    by (auto simp: TextEncoder_encode_def list_all_iff intro!: arg_cong [where f = concat])
  then show ?thesis
    by (simp add: TextDecoder_decode_def utf8Decode_encode [OF scalars] stripBom_codePoints [OF assms(2)] codePoints_utf16)
qed

text \<open>The size the caps measure is the number of bytes the encoder yields.\<close>

lemma length_encode: "length (TextEncoder_encode s) = byteLength s"
proof -
  have "length (utf8Encode (if isSurrogate cp then 0xFFFD else cp)) = utf8Bytes cp" if "cp \<in> set (codePoints s)" for cp
    using codePoints_range [OF that] by (auto simp: isSurrogate_def utf8Encode_def utf8Bytes_def)
  then show ?thesis
    by (auto simp: TextEncoder_encode_def byteLength_def length_concat comp_def intro!: arg_cong [where f = sum_list])
qed

text \<open>Outside these two hypotheses a text does not survive.\<close>

lemma bom_is_dropped: "TextDecoder_decode (TextEncoder_encode [0xFEFF, 97]) = Some [97]"
  by (simp add: TextDecoder_decode_def TextEncoder_encode_def isHigh_def isSurrogate_def utf8Encode_def isCont_def stripBom_def
      utf16Encode_def)

lemma surrogate_is_replaced: "TextDecoder_decode (TextEncoder_encode [0xD800]) = Some [0xFFFD]"
  by (simp add: TextDecoder_decode_def TextEncoder_encode_def isHigh_def isSurrogate_def utf8Encode_def isCont_def stripBom_def
      utf16Encode_def)

section \<open>Blob references\<close>

definition PER_VALUE_SPILL_BYTES :: nat where "PER_VALUE_SPILL_BYTES = 1024"
definition ROUTING_SPILL_MARGIN_BYTES :: int where "ROUTING_SPILL_MARGIN_BYTES = 3072"
definition STRUCT_INLINE_MAX_BYTES :: nat where "STRUCT_INLINE_MAX_BYTES = 3072"
definition BLOB_REF_SENTINEL :: ustring where "BLOB_REF_SENTINEL = U ''$fragua_blob''"

definition makeBlobRef :: "ustring \<Rightarrow> nat \<Rightarrow> jsobj" where
  "makeBlobRef sha bytes = [(BLOB_REF_SENTINEL, JStr sha), (U ''bytes'', JFin (of_nat bytes))]"

definition isSha256Hex :: "ustring \<Rightarrow> bool" where
  \<comment> \<open>\<open>/^[0-9a-f]{64}$/\<close>\<close>
  "isSha256Hex s = (length s = 64 \<and> list_all (\<lambda>u. (48 \<le> unat u \<and> unat u \<le> 57) \<or> (97 \<le> unat u \<and> unat u \<le> 102)) s)"

definition refSha :: "jsval \<Rightarrow> ustring option" where
  \<comment> \<open>\<open>isBlobRef(v)\<close>, with \<open>v[BLOB_REF_SENTINEL]\<close>\<close>
  "refSha v =
     (case v of
        JObj ob \<Rightarrow>
          (case (obj_get ob BLOB_REF_SENTINEL, obj_get ob (U ''bytes'')) of
             (Some (JStr sha), Some (JNum (Fin n))) \<Rightarrow>
               if isSha256Hex sha \<and> n = of_int \<lfloor>n\<rfloor> \<and> 0 \<le> n then Some sha else None
           | _ \<Rightarrow> None)
      | _ \<Rightarrow> None)"

definition blobPut :: "ustring \<Rightarrow> bytes \<Rightarrow> (ustring \<times> bytes) list \<Rightarrow> (ustring \<times> bytes) list" where
  \<comment> \<open>\<open>BlobFS.put\<close>: a no-op on an existing file\<close>
  "blobPut sha content cas = (if obj_get cas sha \<noteq> None then cas else (sha, content) # cas)"

section \<open>Spilling inputs\<close>

record Candidate =
  ca_key :: ustring
  ca_value :: ustring
  ca_encoded :: bytes

definition candidatesOf :: "jsobj \<Rightarrow> Candidate list" where
  "candidatesOf inputs =
     concat (map (\<lambda>(k, v). case v of
                     JStr s \<Rightarrow> [\<lparr>ca_key = k, ca_value = s, ca_encoded = TextEncoder_encode s\<rparr>]
                   | _ \<Rightarrow> []) inputs)"

definition candBefore :: "(ustring \<Rightarrow> ustring \<Rightarrow> bool) \<Rightarrow> Candidate \<Rightarrow> Candidate \<Rightarrow> bool" where
  \<comment> \<open>the comparator is negative; \<open>localeBefore a b\<close> is \<open>a.localeCompare(b) < 0\<close>\<close>
  "candBefore localeBefore a b =
     (length (ca_encoded a) > length (ca_encoded b)
      \<or> (length (ca_encoded a) = length (ca_encoded b) \<and> localeBefore (ca_key a) (ca_key b)))"

fun insertStable :: "('a \<Rightarrow> 'a \<Rightarrow> bool) \<Rightarrow> 'a \<Rightarrow> 'a list \<Rightarrow> 'a list" where
  "insertStable before x [] = [x]"
| "insertStable before x (y # ys) = (if before x y then x # y # ys else y # insertStable before x ys)"

definition stableSort :: "('a \<Rightarrow> 'a \<Rightarrow> bool) \<Rightarrow> 'a list \<Rightarrow> 'a list" where
  \<comment> \<open>\<open>Array.prototype.sort\<close> is stable\<close>
  "stableSort before xs = foldl (\<lambda>acc x. insertStable before x acc) [] xs"

record SpillState =
  sx_inputs :: jsobj
  sx_spilled :: "(ustring \<times> ustring \<times> nat) list" \<comment> \<open>key sha bytes\<close>
  sx_puts :: "(ustring \<times> bytes) list"
  sx_jsonBytes :: int

definition jsonBytes :: "jsval \<Rightarrow> int" where
  "jsonBytes v = int (byteLength (JSON_stringify v))"

definition BLOB_REF_JSON_BYTES :: int where
  "BLOB_REF_JSON_BYTES = jsonBytes (JObj (makeBlobRef (replicate 64 48) 0))"

definition spillOne :: "(bytes \<Rightarrow> ustring) \<Rightarrow> Candidate \<Rightarrow> SpillState \<Rightarrow> SpillState" where
  "spillOne sha256Hex c st =
     (let sha = sha256Hex (ca_encoded c) in
      \<lparr>sx_inputs = obj_set (ca_key c) (JObj (makeBlobRef sha (length (ca_encoded c)))) (sx_inputs st),
       sx_spilled = sx_spilled st @ [(ca_key c, sha, length (ca_encoded c))],
       sx_puts = sx_puts st @ [(sha, ca_encoded c)],
       sx_jsonBytes = sx_jsonBytes st - jsonBytes (JStr (ca_value c)) + BLOB_REF_JSON_BYTES\<rparr>)"

fun spill_loop :: "(bytes \<Rightarrow> ustring) \<Rightarrow> Candidate list \<Rightarrow> SpillState \<Rightarrow> SpillState" where
  "spill_loop sha256Hex [] st = st"
| "spill_loop sha256Hex (c # cs) st =
     (if length (ca_encoded c) \<le> PER_VALUE_SPILL_BYTES \<and> sx_jsonBytes st < ROUTING_SPILL_MARGIN_BYTES then st
      else spill_loop sha256Hex cs (spillOne sha256Hex c st))"

record SpillResult =
  sr_routing :: jsobj
  sr_spilled :: "(ustring \<times> ustring \<times> nat) list"
  sr_puts :: "(ustring \<times> bytes) list" \<comment> \<open>the calls of \<open>putBlob\<close>\<close>

definition spillRoutingInputs :: "(bytes \<Rightarrow> ustring) \<Rightarrow> (ustring \<Rightarrow> ustring \<Rightarrow> bool) \<Rightarrow> jsobj \<Rightarrow> SpillResult" where
  "spillRoutingInputs sha256Hex localeBefore routing =
     (case readRawInputs routing of
        None \<Rightarrow> \<lparr>sr_routing = routing, sr_spilled = [], sr_puts = []\<rparr>
      | Some inputs \<Rightarrow>
          let candidates = stableSort (candBefore localeBefore) (candidatesOf inputs);
              st = spill_loop sha256Hex candidates
                     \<lparr>sx_inputs = inputs, sx_spilled = [], sx_puts = [],
                      sx_jsonBytes = jsonBytes (JObj (setInputs routing inputs))\<rparr>
          in if sx_spilled st = [] then \<lparr>sr_routing = routing, sr_spilled = [], sr_puts = []\<rparr>
             else \<lparr>sr_routing = setInputs routing (sx_inputs st), sr_spilled = sx_spilled st, sr_puts = sx_puts st\<rparr>)"

definition maybeSpillStruct :: "(bytes \<Rightarrow> ustring) \<Rightarrow> ustring \<Rightarrow> (jsobj \<times> ustring \<times> bytes) option" where
  \<comment> \<open>the reference, with the call of \<open>putBlob\<close>\<close>
  "maybeSpillStruct sha256Hex structJson =
     (let encoded = TextEncoder_encode structJson; sha = sha256Hex encoded in
      if length encoded \<le> STRUCT_INLINE_MAX_BYTES then None
      else Some (makeBlobRef sha (length encoded), sha, encoded))"

section \<open>Resolving references\<close>

fun collectInto :: "jsval \<Rightarrow> ustring list" and collectItems :: "jsval list \<Rightarrow> ustring list"
  and collectEntries :: "jsobj \<Rightarrow> ustring list" where
  "collectInto (JObj ob) = (case refSha (JObj ob) of Some sha \<Rightarrow> [sha] | None \<Rightarrow> collectEntries ob)"
| "collectInto (JArr vs) = collectItems vs"
| "collectInto _ = []"
| "collectItems [] = []"
| "collectItems (v # vs) = collectInto v @ collectItems vs"
| "collectEntries [] = []"
| "collectEntries ((k, v) # ms) = collectInto v @ collectEntries ms"

definition collectRoutingBlobShas :: "jsobj \<Rightarrow> ustring list" where
  "collectRoutingBlobShas routing = collectInto (JObj routing)"

fun deepResolve :: "(ustring \<Rightarrow> bytes option) \<Rightarrow> jsval \<Rightarrow> jsval option"
  and deepResolveItems :: "(ustring \<Rightarrow> bytes option) \<Rightarrow> jsval list \<Rightarrow> jsval list option"
  and deepResolveEntries :: "(ustring \<Rightarrow> bytes option) \<Rightarrow> jsobj \<Rightarrow> jsobj option" where
  \<comment> \<open>None when a blob is missing or is not UTF-8; an own key \<open>__proto__\<close> is assigned to the prototype\<close>
  "deepResolve getBlob (JObj ob) =
     (case refSha (JObj ob) of
        Some sha \<Rightarrow>
          (case getBlob sha of None \<Rightarrow> None | Some content \<Rightarrow> map_option JStr (TextDecoder_decode content))
      | None \<Rightarrow> map_option JObj (deepResolveEntries getBlob ob))"
| "deepResolve getBlob (JArr vs) = map_option JArr (deepResolveItems getBlob vs)"
| "deepResolve getBlob v = Some v"
| "deepResolveItems getBlob [] = Some []"
| "deepResolveItems getBlob (v # vs) =
     (case deepResolve getBlob v of None \<Rightarrow> None | Some w \<Rightarrow> map_option (Cons w) (deepResolveItems getBlob vs))"
| "deepResolveEntries getBlob [] = Some []"
| "deepResolveEntries getBlob ((k, v) # ms) =
     (case deepResolve getBlob v of
        None \<Rightarrow> None
      | Some w \<Rightarrow> map_option (\<lambda>out. if k = U ''__proto__'' then out else (k, w) # out) (deepResolveEntries getBlob ms))"

definition materializeRouting :: "(ustring \<Rightarrow> bytes option) \<Rightarrow> jsobj \<Rightarrow> jsval option" where
  "materializeRouting getBlob routing =
     (if collectRoutingBlobShas routing = [] then Some (JObj routing) else deepResolve getBlob (JObj routing))"

section \<open>Plain values resolve to themselves\<close>

fun plain :: "jsval \<Rightarrow> bool" and plainItems :: "jsval list \<Rightarrow> bool" and plainEntries :: "jsobj \<Rightarrow> bool" where
  \<comment> \<open>no own key \<open>__proto__\<close> anywhere\<close>
  "plain (JObj ob) = plainEntries ob"
| "plain (JArr vs) = plainItems vs"
| "plain _ = True"
| "plainItems [] = True"
| "plainItems (v # vs) = (plain v \<and> plainItems vs)"
| "plainEntries [] = True"
| "plainEntries ((k, v) # ms) = (k \<noteq> U ''__proto__'' \<and> plain v \<and> plainEntries ms)"

lemma resolve_id:
  "plain v \<Longrightarrow> collectInto v = [] \<Longrightarrow> deepResolve gb v = Some v"
  "plainItems vs \<Longrightarrow> collectItems vs = [] \<Longrightarrow> deepResolveItems gb vs = Some vs"
  "plainEntries ob \<Longrightarrow> collectEntries ob = [] \<Longrightarrow> deepResolveEntries gb ob = Some ob"
  by (induction v and vs and ob rule: plain_plainItems_plainEntries.induct) (simp_all split: option.splits)

lemma materialize_resolves: "plainEntries r \<Longrightarrow> materializeRouting gb r = deepResolve gb (JObj r)"
  using resolve_id(1) [of "JObj r" gb] by (simp add: materializeRouting_def collectRoutingBlobShas_def del: deepResolve.simps)

lemma plainEntries_set: "plainEntries ob \<Longrightarrow> k \<noteq> U ''__proto__'' \<Longrightarrow> plain v \<Longrightarrow> plainEntries (obj_set k v ob)"
  by (induction ob) auto

lemma plainEntries_get: "plainEntries ob \<Longrightarrow> obj_get ob k = Some v \<Longrightarrow> k \<noteq> U ''__proto__'' \<and> plain v"
  by (induction ob) (auto split: if_splits)

lemma resolve_set:
  assumes "deepResolveEntries gb ob = Some out" and "obj_get out k = Some w" and "deepResolve gb v = Some w" and "plainEntries ob"
  shows "deepResolveEntries gb (obj_set k v ob) = Some out"
  using assms by (induction ob arbitrary: out) (auto split: option.splits if_splits)

lemma sentinel_keys [simp]: "BLOB_REF_SENTINEL \<noteq> U ''bytes''" "BLOB_REF_SENTINEL \<noteq> INPUTS_KEY" "U ''bytes'' \<noteq> INPUTS_KEY"
  "BLOB_REF_SENTINEL \<noteq> U ''__proto__''" "INPUTS_KEY \<noteq> U ''__proto__''"
  by (simp_all add: BLOB_REF_SENTINEL_def INPUTS_KEY_def)

lemma refSha_make: "isSha256Hex sha \<Longrightarrow> refSha (JObj (makeBlobRef sha n)) = Some sha"
  by (simp add: refSha_def makeBlobRef_def BLOB_REF_SENTINEL_def)

lemma refSha_set: "refSha (JObj ob) = None \<Longrightarrow> refSha (JObj (obj_set k (JObj x) ob)) = None"
  by (auto simp: refSha_def obj_simps split: option.splits jsval.splits jsnum.splits if_splits)

lemma plain_ref [simp]: "plainEntries (makeBlobRef sha n)"
  by (simp add: makeBlobRef_def BLOB_REF_SENTINEL_def)

section \<open>The spill\<close>

definition descending :: "Candidate list \<Rightarrow> bool" where
  "descending = sorted_wrt (\<lambda>a b. length (ca_encoded b) \<le> length (ca_encoded a))"

lemma spill_loop_small:
  "descending cs \<Longrightarrow> \<exists>n. spill_loop sha cs st = foldl (\<lambda>s c. spillOne sha c s) st (take n cs)
     \<and> (\<forall>c \<in> set (drop n cs). length (ca_encoded c) \<le> PER_VALUE_SPILL_BYTES)"
proof (induction cs arbitrary: st)
  case (Cons c cs)
  obtain n where n: "spill_loop sha cs (spillOne sha c st) = foldl (\<lambda>s c. spillOne sha c s) (spillOne sha c st) (take n cs)"
    "\<forall>c \<in> set (drop n cs). length (ca_encoded c) \<le> PER_VALUE_SPILL_BYTES"
    using Cons.IH [of "spillOne sha c st"] Cons.prems unfolding descending_def sorted_wrt.simps by blast
  show ?case
  proof (cases "length (ca_encoded c) \<le> PER_VALUE_SPILL_BYTES \<and> sx_jsonBytes st < ROUTING_SPILL_MARGIN_BYTES")
    case True
    then show ?thesis using Cons.prems by (intro exI [of _ 0]) (auto simp: descending_def)
  next
    case False
    then show ?thesis using n by (intro exI [of _ "Suc n"]) auto
  qed
qed simp

lemma spill_loop_take: "\<exists>n. spill_loop sha cs st = foldl (\<lambda>s c. spillOne sha c s) st (take n cs)"
proof (induction cs arbitrary: st)
  case (Cons c cs)
  obtain n where "spill_loop sha cs (spillOne sha c st) = foldl (\<lambda>s c. spillOne sha c s) (spillOne sha c st) (take n cs)"
    using Cons.IH by blast
  then have "spill_loop sha (c # cs) st = foldl (\<lambda>s c. spillOne sha c s) st (take 0 (c # cs))
     \<or> spill_loop sha (c # cs) st = foldl (\<lambda>s c. spillOne sha c s) st (take (Suc n) (c # cs))"
    by simp
  then show ?case by blast
qed simp

lemma spillOne_puts:
  "sx_puts (foldl (\<lambda>s c. spillOne sha c s) st cs) = sx_puts st @ map (\<lambda>c. (sha (ca_encoded c), ca_encoded c)) cs"
  "sx_spilled (foldl (\<lambda>s c. spillOne sha c s) st cs)
     = sx_spilled st @ map (\<lambda>c. (ca_key c, sha (ca_encoded c), length (ca_encoded c))) cs"
  by (induction cs arbitrary: st) (simp_all add: spillOne_def Let_def)

lemma set_insertStable [simp]: "set (insertStable before x ys) = insert x (set ys)"
  by (induction ys) auto

lemma set_stableSort [simp]: "set (stableSort before xs) = set xs"
proof -
  have "set (foldl (\<lambda>acc x. insertStable before x acc) acc xs) = set acc \<union> set xs" for acc
    by (induction xs arbitrary: acc) auto
  then show ?thesis by (simp add: stableSort_def)
qed

lemma candidatesOf_set:
  "c \<in> set (candidatesOf inputs) \<longleftrightarrow>
     (\<exists>k s. (k, JStr s) \<in> set inputs \<and> c = \<lparr>ca_key = k, ca_value = s, ca_encoded = TextEncoder_encode s\<rparr>)"
  by (auto simp: candidatesOf_def split: jsval.splits prod.splits)

definition contentAddressed :: "(bytes \<Rightarrow> ustring) \<Rightarrow> (ustring \<times> bytes) list \<Rightarrow> bool" where
  "contentAddressed sha cas = list_all (\<lambda>(h, c). h = sha c) cas"

lemma put_keeps: "obj_get cas h = Some c \<Longrightarrow> obj_get (blobPut k b cas) h = Some c"
  by (auto simp: blobPut_def)

lemma put_all:
  assumes "contentAddressed sha cas" and "inj_on sha (snd ` set cas \<union> set es)"
  defines "cas' \<equiv> foldl (\<lambda>d p. blobPut (fst p) (snd p) d) cas (map (\<lambda>e. (sha e, e)) es)"
  shows "\<forall>e \<in> set es. obj_get cas' (sha e) = Some e"
proof -
  have grows: "obj_get cas h = Some c \<Longrightarrow> obj_get (foldl (\<lambda>d p. blobPut (fst p) (snd p) d) cas ps) h = Some c" for cas h c ps
    by (induction ps arbitrary: cas) (simp_all add: put_keeps)
  show ?thesis unfolding cas'_def using assms(1,2)
  proof (induction es arbitrary: cas)
    case (Cons e es)
    let ?cas = "blobPut (sha e) e cas"
    have "obj_get ?cas (sha e) = Some e"
    proof (cases "obj_get cas (sha e)")
      case (Some c)
      then have c: "(sha e, c) \<in> set cas" by (rule map_of_SomeD)
      then have "sha c = sha e" using Cons.prems(1) by (auto simp: contentAddressed_def list_all_iff)
      moreover have "c \<in> snd ` set cas" using c by force
      ultimately have "c = e" using inj_onD [OF Cons.prems(2), of c e] by simp
      with Some show ?thesis by (simp add: blobPut_def)
    qed (simp add: blobPut_def)
    moreover have "contentAddressed sha ?cas" using Cons.prems(1) by (simp add: contentAddressed_def blobPut_def)
    moreover have "inj_on sha (snd ` set ?cas \<union> set es)"
      by (rule inj_on_subset [OF Cons.prems(2)]) (auto simp: blobPut_def split: if_splits)
    ultimately show ?case using Cons.IH [of ?cas] grows by simp
  qed simp
qed

abbreviation putCalls :: "(ustring \<times> bytes) list \<Rightarrow> (ustring \<times> bytes) list \<Rightarrow> (ustring \<times> bytes) list" where
  "putCalls cas ps \<equiv> foldl (\<lambda>d p. blobPut (fst p) (snd p) d) cas ps"

definition inputTexts :: "jsobj \<Rightarrow> ustring list" where
  \<comment> \<open>the string values of \<open>routing.inputs\<close>\<close>
  "inputTexts routing = concat (map (\<lambda>(k, v). case v of JStr s \<Rightarrow> [s] | _ \<Rightarrow> []) (orElse (readRawInputs routing) []))"

lemma inputTexts_set: "readRawInputs routing = Some inputs \<Longrightarrow> (k, JStr s) \<in> set inputs \<Longrightarrow> s \<in> set (inputTexts routing)"
  by (force simp: inputTexts_def)

lemma spilled_inputs_resolve:
  assumes "deepResolveEntries gb (sx_inputs st) = Some inputs" and "plainEntries (sx_inputs st)"
    and "refSha (JObj (sx_inputs st)) = None" and "plainEntries inputs"
    and "\<And>c. c \<in> set cs \<Longrightarrow> obj_get inputs (ca_key c) = Some (JStr (ca_value c))
           \<and> isSha256Hex (sha (ca_encoded c)) \<and> gb (sha (ca_encoded c)) = Some (ca_encoded c)
           \<and> TextDecoder_decode (ca_encoded c) = Some (ca_value c)"
  defines "st' \<equiv> foldl (\<lambda>s c. spillOne sha c s) st cs"
  shows "deepResolveEntries gb (sx_inputs st') = Some inputs \<and> plainEntries (sx_inputs st') \<and> refSha (JObj (sx_inputs st')) = None"
  unfolding st'_def using assms(1-3,5)
proof (induction cs arbitrary: st)
  case (Cons c cs)
  let ?ref = "JObj (makeBlobRef (sha (ca_encoded c)) (length (ca_encoded c)))"
  have c: "obj_get inputs (ca_key c) = Some (JStr (ca_value c))" "deepResolve gb ?ref = Some (JStr (ca_value c))"
    using Cons.prems(4) [of c] by (simp_all add: refSha_make)
  have st: "sx_inputs (spillOne sha c st) = obj_set (ca_key c) ?ref (sx_inputs st)" by (simp add: spillOne_def Let_def)
  have "deepResolveEntries gb (sx_inputs (spillOne sha c st)) = Some inputs"
    unfolding st by (rule resolve_set [OF Cons.prems(1) c Cons.prems(2)])
  moreover have "plainEntries (sx_inputs (spillOne sha c st))"
    unfolding st using plainEntries_set [OF Cons.prems(2)] plainEntries_get [OF assms(4) c(1)] by simp
  moreover have "refSha (JObj (sx_inputs (spillOne sha c st))) = None"
    unfolding st by (rule refSha_set [OF Cons.prems(3)])
  ultimately show ?case using Cons.IH [of "spillOne sha c st"] Cons.prems(4) by simp
qed simp

text \<open>C26: Spilling and resolving are inverse: for a routing object with no reference of its own, whose
  input texts are well-formed and do not start with a byte order mark, the blobs the spill puts into any
  content-addressed store make \<open>materializeRouting\<close> of the spilled routing give back exactly the
  routing that came in, provided the digest is 64 hex digits and does not collide on the contents at
  hand.\<close>

theorem spill_roundtrip:
  assumes "plainEntries routing" and "distinct (map fst (orElse (readRawInputs routing) []))"
    and "collectRoutingBlobShas routing = []"
    and "\<forall>t \<in> set (inputTexts routing). wellFormedText t \<and> bomFree t"
    and "\<forall>content. isSha256Hex (sha256Hex content)" and "contentAddressed sha256Hex cas"
    and "inj_on sha256Hex (snd ` set cas \<union> TextEncoder_encode ` set (inputTexts routing))"
  shows "materializeRouting (obj_get (putCalls cas (sr_puts (spillRoutingInputs sha256Hex localeBefore routing))))
           (sr_routing (spillRoutingInputs sha256Hex localeBefore routing)) = Some (JObj routing)"
proof (cases "readRawInputs routing")
  case None
  then show ?thesis using assms(3) by (simp add: spillRoutingInputs_def materializeRouting_def)
next
  case (Some inputs)
  let ?cs = "stableSort (candBefore localeBefore) (candidatesOf inputs)"
  let ?st = "\<lparr>sx_inputs = inputs, sx_spilled = [], sx_puts = [], sx_jsonBytes = jsonBytes (JObj (setInputs routing inputs))\<rparr>"
  obtain n where n: "spill_loop sha256Hex ?cs ?st = foldl (\<lambda>s c. spillOne sha256Hex c s) ?st (take n ?cs)"
    using spill_loop_take by blast
  define st where "st = foldl (\<lambda>s c. spillOne sha256Hex c s) ?st (take n ?cs)"
  have puts: "sx_puts st = map (\<lambda>e. (sha256Hex e, e)) (map ca_encoded (take n ?cs))"
    by (simp add: st_def spillOne_puts comp_def)
  let ?gb = "obj_get (putCalls cas (sx_puts st))"
  have inputs: "obj_get routing INPUTS_KEY = Some (JObj inputs)"
    using Some by (auto simp: readRawInputs_def split: option.splits jsval.splits)
  then have pin: "plainEntries inputs" using plainEntries_get [OF assms(1)] by force
  have norefs: "collectEntries routing = []" "refSha (JObj routing) = None"
    using assms(3) by (auto simp: collectRoutingBlobShas_def split: option.splits)
  have "collectInto v = []" if "obj_get ob k = Some v" "collectEntries ob = []" for ob k v
    using that by (induction ob) (auto split: if_splits)
  then have "collectInto (JObj inputs) = []" using inputs norefs by blast
  then have inrefs: "collectEntries inputs = []" "refSha (JObj inputs) = None" by (auto split: option.splits)
  have cand: "obj_get inputs (ca_key c) = Some (JStr (ca_value c)) \<and> ca_encoded c = TextEncoder_encode (ca_value c)
      \<and> ca_value c \<in> set (inputTexts routing)" if "c \<in> set (take n ?cs)" for c
    using in_set_takeD [OF that] assms(2) inputTexts_set [OF Some] by (auto simp: candidatesOf_set Some map_of_eq_Some_iff)
  have "\<forall>e \<in> set (map ca_encoded (take n ?cs)). ?gb (sha256Hex e) = Some e"
    unfolding puts
    by (rule put_all [OF assms(6)], rule inj_on_subset [OF assms(7)]) (use cand in auto)
  then have "deepResolveEntries ?gb (sx_inputs st) = Some inputs \<and> plainEntries (sx_inputs st) \<and> refSha (JObj (sx_inputs st)) = None"
    unfolding st_def using cand assms(4,5) decode_encode
    by (intro spilled_inputs_resolve) (auto simp: resolve_id(3) [OF pin inrefs(1)] pin inrefs(2))
  then have res: "deepResolve ?gb (JObj (sx_inputs st)) = Some (JObj inputs)" and plain: "plain (JObj (sx_inputs st))" by simp_all
  have "deepResolve ?gb (JObj (setInputs routing (sx_inputs st))) = Some (JObj routing)"
    using resolve_set [OF resolve_id(3) [OF assms(1) norefs(1)] inputs res assms(1)] refSha_set [OF norefs(2)]
    by (simp add: setInputs_def)
  moreover have "plainEntries (setInputs routing (sx_inputs st))"
    unfolding setInputs_def by (rule plainEntries_set [OF assms(1) sentinel_keys(5) plain])
  ultimately have "materializeRouting ?gb (setInputs routing (sx_inputs st)) = Some (JObj routing)"
    by (simp add: materialize_resolves del: deepResolve.simps)
  moreover have "spillRoutingInputs sha256Hex localeBefore routing
      = (if sx_spilled st = [] then \<lparr>sr_routing = routing, sr_spilled = [], sr_puts = []\<rparr>
         else \<lparr>sr_routing = setInputs routing (sx_inputs st), sr_spilled = sx_spilled st, sr_puts = sx_puts st\<rparr>)"
    by (simp add: spillRoutingInputs_def Some n st_def Let_def)
  ultimately show ?thesis using assms(3) by (cases "sx_spilled st = []") (simp_all add: materializeRouting_def)
qed

lemma descending_sort: "descending (stableSort (candBefore lb) cs)"
proof -
  have "descending (insertStable (candBefore lb) x ys)" if "descending ys" for x ys
    using that
  proof (induction ys)
    case (Cons y ys)
    have "length (ca_encoded y) \<le> length (ca_encoded x)" if "candBefore lb x y" using that by (auto simp: candBefore_def)
    moreover have "length (ca_encoded x) \<le> length (ca_encoded y)" if "\<not> candBefore lb x y" using that by (auto simp: candBefore_def)
    ultimately show ?case using Cons unfolding descending_def by (cases "candBefore lb x y") auto
  qed (simp add: descending_def)
  then have "descending acc \<Longrightarrow> descending (foldl (\<lambda>acc x. insertStable (candBefore lb) x acc) acc cs)" for acc
    by (induction cs arbitrary: acc) auto
  then show ?thesis by (simp add: stableSort_def descending_def)
qed

lemma text_after_set:
  assumes "(k, JStr s) \<in> set (obj_set k' (JObj x) ob)" and "distinct (map fst ob)"
  shows "k \<noteq> k' \<and> (k, JStr s) \<in> set ob"
proof -
  have "obj_get (obj_set k' (JObj x) ob) k = Some (JStr s)"
    by (rule map_of_is_SomeI [OF distinct_update [OF assms(2)] assms(1)])
  then show ?thesis by (auto simp: obj_simps split: if_splits dest: map_of_SomeD)
qed

lemma spilled_text:
  "(k, JStr s) \<in> set (sx_inputs (foldl (\<lambda>s c. spillOne sha c s) st cs)) \<Longrightarrow> distinct (map fst (sx_inputs st))
     \<Longrightarrow> (k, JStr s) \<in> set (sx_inputs st) \<and> k \<notin> ca_key ` set cs"
proof (induction cs arbitrary: st)
  case (Cons c cs)
  have st: "sx_inputs (spillOne sha c st) = obj_set (ca_key c) (JObj (makeBlobRef (sha (ca_encoded c)) (length (ca_encoded c)))) (sx_inputs st)"
    by (simp add: spillOne_def Let_def)
  have "(k, JStr s) \<in> set (sx_inputs (spillOne sha c st)) \<and> k \<notin> ca_key ` set cs"
    using Cons.IH [of "spillOne sha c st"] Cons.prems distinct_update [OF Cons.prems(2)] by (simp add: st)
  then show ?case using text_after_set [OF _ Cons.prems(2)] unfolding st by auto
qed simp

text \<open>No input text over \<open>PER_VALUE_SPILL_BYTES\<close> stays inline: the sort by size makes the loop's early
  exit safe, whatever the margin says.\<close>

theorem spill_leaves_small_texts:
  assumes "readRawInputs routing = Some inputs" and "distinct (map fst inputs)"
    and "readRawInputs (sr_routing (spillRoutingInputs sha256Hex localeBefore routing)) = Some left" and "(k, JStr s) \<in> set left"
  shows "byteLength s \<le> PER_VALUE_SPILL_BYTES \<and> obj_get inputs k = Some (JStr s)"
proof -
  let ?cs = "stableSort (candBefore localeBefore) (candidatesOf inputs)"
  let ?st = "\<lparr>sx_inputs = inputs, sx_spilled = [], sx_puts = [], sx_jsonBytes = jsonBytes (JObj (setInputs routing inputs))\<rparr>"
  obtain n where n: "spill_loop sha256Hex ?cs ?st = foldl (\<lambda>s c. spillOne sha256Hex c s) ?st (take n ?cs)"
    "\<forall>c \<in> set (drop n ?cs). length (ca_encoded c) \<le> PER_VALUE_SPILL_BYTES"
    using spill_loop_small [OF descending_sort] by blast
  have raw: "readRawInputs (setInputs routing x) = Some x" for x by (simp add: readRawInputs_def setInputs_def obj_simps)
  have "left = sx_inputs (foldl (\<lambda>s c. spillOne sha256Hex c s) ?st (take n ?cs))
     \<or> (left = inputs \<and> take n ?cs = [])"
    using assms(1,3) by (auto simp: spillRoutingInputs_def n(1) Let_def raw spillOne_puts split: if_splits)
  then have kept: "(k, JStr s) \<in> set inputs" "k \<notin> ca_key ` set (take n ?cs)"
    using spilled_text [of k s sha256Hex ?st "take n ?cs"] assms(2,4) by auto
  let ?c = "\<lparr>ca_key = k, ca_value = s, ca_encoded = TextEncoder_encode s\<rparr>"
  have "set ?cs = set (take n ?cs) \<union> set (drop n ?cs)" by (metis append_take_drop_id set_append)
  moreover have "?c \<in> set ?cs" using kept(1) by (auto simp: candidatesOf_set)
  moreover have "?c \<notin> set (take n ?cs)" using kept(2) by (metis Candidate.select_convs(1) imageI)
  ultimately have "?c \<in> set (drop n ?cs)" by blast
  then have "length (TextEncoder_encode s) \<le> PER_VALUE_SPILL_BYTES" using n(2) by force
  then show ?thesis using kept(1) assms(2) by (simp add: length_encode map_of_eq_Some_iff)
qed

section \<open>A spilled text\<close>

definition sampleText :: ustring where "sampleText = replicate 1100 97"
definition sampleSha :: "bytes \<Rightarrow> ustring" where "sampleSha content = replicate 63 48 @ [if length content > 9 then 57 else 48]"
definition sampleInputs :: jsobj where "sampleInputs = [(U ''doc'', JStr sampleText), (U ''n'', JFin 3)]"
definition sampleRouting :: jsobj where "sampleRouting = [(U ''k'', JBool True), (INPUTS_KEY, JObj sampleInputs)]"

lemma sample_points: "codePoints sampleText = replicate 1100 97"
  by (subst codePoints_plain) (auto simp: sampleText_def isHigh_def)

lemma sample_raw: "readRawInputs sampleRouting = Some sampleInputs" "inputTexts sampleRouting = [sampleText]"
  by (simp_all add: readRawInputs_def inputTexts_def sampleRouting_def sampleInputs_def INPUTS_KEY_def)

lemma sample_norefs: "collectRoutingBlobShas sampleRouting = []" "plainEntries sampleRouting" "plainEntries sampleInputs"
  by (simp_all add: collectRoutingBlobShas_def sampleRouting_def sampleInputs_def refSha_def INPUTS_KEY_def BLOB_REF_SENTINEL_def)

lemma bomFree_mem: "\<forall>u \<in> set s. u \<noteq> 0xFEFF \<Longrightarrow> bomFree s"
  by (cases s) (simp_all add: bomFree_def)

lemma sample_text: "wellFormedText sampleText" "bomFree sampleText" "length (TextEncoder_encode sampleText) = 1100"
proof -
  show "wellFormedText sampleText" by (simp add: wellFormedText_def sample_points isSurrogate_def list_all_iff)
  have "\<forall>u \<in> set sampleText. u \<noteq> 0xFEFF" by (simp add: sampleText_def)
  then show "bomFree sampleText" by (rule bomFree_mem)
  show "length (TextEncoder_encode sampleText) = 1100"
    by (simp add: length_encode byteLength_def sample_points utf8Bytes_def sum_list_replicate)
qed

theorem spill_roundtrip_witness:
  "materializeRouting (obj_get (putCalls [(sampleSha [1], [1])] (sr_puts (spillRoutingInputs sampleSha (<) sampleRouting))))
     (sr_routing (spillRoutingInputs sampleSha (<) sampleRouting)) = Some (JObj sampleRouting)"
proof (rule spill_roundtrip)
  show "\<forall>content. isSha256Hex (sampleSha content)" by (simp add: isSha256Hex_def sampleSha_def list_all_iff)
  show "inj_on sampleSha (snd ` set [(sampleSha [1], [1])] \<union> TextEncoder_encode ` set (inputTexts sampleRouting))"
    by (auto simp: sample_raw inj_on_def sampleSha_def sample_text)
  show "distinct (map fst (orElse (readRawInputs sampleRouting) []))" by (simp add: sample_raw sampleInputs_def)
qed (simp_all add: sample_raw sample_norefs sample_text contentAddressed_def)

lemma sample_spilled:
  "readRawInputs (sr_routing (spillRoutingInputs sampleSha (<) sampleRouting))
     = Some [(U ''doc'', JObj (makeBlobRef (sampleSha (TextEncoder_encode sampleText)) 1100)), (U ''n'', JFin 3)]"
  unfolding spillRoutingInputs_def sample_raw(1)
  by (simp add: Let_def stableSort_def candidatesOf_def sampleInputs_def PER_VALUE_SPILL_BYTES_def
      sample_text spillOne_def readRawInputs_def setInputs_def obj_simps)

definition smallRouting :: jsobj where "smallRouting = [(INPUTS_KEY, JObj [(U ''doc'', JStr (U ''hi''))])]"

lemma small_quotes:
  "JSON_quote (U ''hi'') = [34, 104, 105, 34]" "JSON_quote (U ''doc'') = [34, 100, 111, 99, 34]"
  "JSON_quote INPUTS_KEY = [34, 105, 110, 112, 117, 116, 115, 34]"
  by (simp_all add: JSON_quote_def INPUTS_KEY_def ustr isHigh_def quotePoint_def utf16Encode_def)

lemma small_bytes: "jsonBytes (JObj smallRouting) < 3072" "length (TextEncoder_encode (U ''hi'')) \<le> 1024"
proof -
  have "length (JSON_stringify (JObj smallRouting)) = 23" by (simp add: smallRouting_def small_quotes ujoin_def)
  then show "jsonBytes (JObj smallRouting) < 3072"
    using byteLength_le [of "JSON_stringify (JObj smallRouting)"] by (simp add: jsonBytes_def)
  show "length (TextEncoder_encode (U ''hi'')) \<le> 1024" using byteLength_le [of "U ''hi''"] by (simp add: length_encode)
qed

lemma small_kept: "readRawInputs (sr_routing (spillRoutingInputs sampleSha (<) smallRouting)) = Some [(U ''doc'', JStr (U ''hi''))]"
proof -
  have raw: "readRawInputs smallRouting = Some [(U ''doc'', JStr (U ''hi''))]" by (simp add: readRawInputs_def smallRouting_def)
  then have "setInputs smallRouting [(U ''doc'', JStr (U ''hi''))] = smallRouting" by (simp add: setInputs_def smallRouting_def)
  then show ?thesis
    unfolding spillRoutingInputs_def raw
    by (simp add: raw Let_def stableSort_def candidatesOf_def small_bytes PER_VALUE_SPILL_BYTES_def ROUTING_SPILL_MARGIN_BYTES_def)
qed

theorem spill_leaves_small_texts_witness:
  "byteLength (U ''hi'') \<le> PER_VALUE_SPILL_BYTES \<and> obj_get [(U ''doc'', JStr (U ''hi''))] (U ''doc'') = Some (JStr (U ''hi''))"
  by (rule spill_leaves_small_texts [of smallRouting _ sampleSha "(<)", OF _ _ small_kept])
    (simp_all add: smallRouting_def readRawInputs_def)

end
