(* ===== verification/Store_Writer.thy ===== *)
theory Store_Writer
  imports Store_Rows Routing_Blobs
begin

text \<open>
  The write path of the store, \<open>packages/store/src/store-writer.ts\<close> and \<open>sweep.ts\<close>. A write that folds
  outside the lock is two definitions: what it prepares from a snapshot, and the transaction that
  re-checks the row and commits; \<open>appendFact\<close> composes them on one database, and the properties put
  other writers in between. The clock is an argument, and so are the UTF-8 size of a serialized
  fact payload and the digest of a blob.
\<close>

section \<open>Errors and options\<close>

datatype (plugins only: code size) StoreError =
    SE_noEvents
  | SE_badRoutingPatch RoutingPatchError
  | SE_unknownRun ustring
  | SE_runNotFound ustring
  | SE_importedRun ustring
  | SE_concurrency int int \<comment> \<open>expectedVersion actualVersion\<close>
  | SE_claimLost int int int int \<comment> \<open>expectedEpoch actualEpoch expectedVersion actualVersion\<close>
  | SE_payloadTooLarge int int \<comment> \<open>sizeBytes max\<close>
  | SE_eventType
  | SE_unknownWorkflow ustring
  | SE_checkoutBusy ustring ustring RunStatus \<comment> \<open>checkoutPath, holder's run and status\<close>
  | SE_duplicateRun ustring \<comment> \<open>the primary key of \<open>run_state\<close>\<close>

definition isConcurrencyError :: "StoreError \<Rightarrow> bool" where
  "isConcurrencyError e = (case e of SE_concurrency _ _ \<Rightarrow> True | SE_claimLost _ _ _ _ \<Rightarrow> True | _ \<Rightarrow> False)"

record AppendFactOpts =
  ao_routingPatch :: "jsobj option"
  ao_advanceAppliedTo :: "int option"
  ao_claimEpoch :: "int option"

definition noOpts :: AppendFactOpts where
  "noOpts = \<lparr>ao_routingPatch = None, ao_advanceAppliedTo = None, ao_claimEpoch = None\<rparr>"

definition MAX_EVENT_PAYLOAD_BYTES :: int where "MAX_EVENT_PAYLOAD_BYTES = 4096"

definition validateSize :: "int \<Rightarrow> StoreError + unit" where
  "validateSize bytes = (if bytes \<ge> MAX_EVENT_PAYLOAD_BYTES then Inl (SE_payloadTooLarge bytes MAX_EVENT_PAYLOAD_BYTES) else Inr ())"

definition validatePayload :: "jsobj \<Rightarrow> StoreError + unit" where
  "validatePayload payload = validateSize (int (byteLength (JSON_stringify (JObj payload))))"

fun validateFacts :: "(FactEvent \<Rightarrow> int) \<Rightarrow> FactEvent list \<Rightarrow> StoreError + unit" where
  "validateFacts factBytes [] = Inr ()"
| "validateFacts factBytes (f # fs) =
     (case validateSize (factBytes f) of Inl e \<Rightarrow> Inl e | Inr _ \<Rightarrow> validateFacts factBytes fs)"

definition checkClaim :: "int option \<Rightarrow> int \<Rightarrow> RunRow \<Rightarrow> StoreError + unit" where
  \<comment> \<open>the claim and version checks, in this order\<close>
  "checkClaim claimEpoch expectedVersion row =
     (case claimEpoch of
        Some e \<Rightarrow> if rr_claimEpoch row \<noteq> e
                  then Inl (SE_claimLost e (rr_claimEpoch row) expectedVersion (rn_version (rr_state row)))
                  else if rn_version (rr_state row) \<noteq> expectedVersion
                  then Inl (SE_concurrency expectedVersion (rn_version (rr_state row))) else Inr ()
      | None \<Rightarrow> if rn_version (rr_state row) \<noteq> expectedVersion
                then Inl (SE_concurrency expectedVersion (rn_version (rr_state row))) else Inr ())"

section \<open>Spilled outputs\<close>

record Spill =
  sp_event :: FactEvent
  sp_insert :: "(ustring \<times> number \<times> ustring) option" \<comment> \<open>nodeId iteration structJson\<close>
  sp_blob :: "(ustring \<times> nat) option"

definition spillOutputs :: "(bytes \<Rightarrow> ustring) \<Rightarrow> FactEvent \<Rightarrow> Spill" where
  \<comment> \<open>one step of the map over the events\<close>
  "spillOutputs sha256Hex f =
     (case f of
        F_node_completed p \<Rightarrow>
          (case nc_outputs p of
             None \<Rightarrow> \<lparr>sp_event = f, sp_insert = None, sp_blob = None\<rparr>
           | Some outputs \<Rightarrow>
               let structJson = JSON_stringify (JObj outputs) in
               case maybeSpillStruct sha256Hex structJson of
                 None \<Rightarrow> \<lparr>sp_event = f, sp_insert = Some (nc_nodeId p, nc_iteration p, structJson), sp_blob = None\<rparr>
               | Some (ref, sha, content) \<Rightarrow>
                   \<lparr>sp_event = F_node_completed (p\<lparr>nc_outputs := Some ref\<rparr>),
                    sp_insert = Some (nc_nodeId p, nc_iteration p, JSON_stringify (JObj ref)),
                    sp_blob = Some (sha, length content)\<rparr>)
      | _ \<Rightarrow> \<lparr>sp_event = f, sp_insert = None, sp_blob = None\<rparr>)"

section \<open>appendFact\<close>

record Prepared =
  pr_state :: RunState
  pr_spills :: "Spill list"
  pr_epochBump :: int
  pr_ts :: number

definition isRequeue :: "FactEvent \<Rightarrow> bool" where
  "isRequeue f = (case f of F_run_requeued_after_crash _ _ \<Rightarrow> True | _ \<Rightarrow> False)"

definition nextProjection :: "RunState \<Rightarrow> FactEvent list \<Rightarrow> AppendFactOpts \<Rightarrow> number \<Rightarrow> RunState" where
  "nextProjection state events opts ts =
     (let s1 = foldFacts state events ts;
          s2 = (case ao_routingPatch opts of Some p \<Rightarrow> s1\<lparr>rn_routing := obj_merge (rn_routing s1) p\<rparr> | None \<Rightarrow> s1)
      in s2\<lparr>rn_version := rn_version s2 + 1, rn_lastAppliedSeq := orElse (ao_advanceAppliedTo opts) (rn_lastAppliedSeq s2)\<rparr>)"

definition routingBytes :: "jsobj \<Rightarrow> int" where
  "routingBytes routing = int (byteLength (JSON_stringify (JObj routing)))"

definition checkRouting :: "jsobj option \<Rightarrow> StoreError + unit" where
  "checkRouting patch =
     (case patch of
        None \<Rightarrow> Inr ()
      | Some p \<Rightarrow> (case validateRoutingPatch p of Inl e \<Rightarrow> Inl (SE_badRoutingPatch e) | Inr _ \<Rightarrow> Inr ()))"

definition prepareFact ::
  "(FactEvent \<Rightarrow> int) \<Rightarrow> (bytes \<Rightarrow> ustring) \<Rightarrow> Db \<Rightarrow> ustring \<Rightarrow> FactEvent list \<Rightarrow> int \<Rightarrow> AppendFactOpts \<Rightarrow> number
     \<Rightarrow> StoreError + Prepared" where
  "prepareFact factBytes sha256Hex db runId events expectedVersion opts ts =
     (if events = [] then Inl SE_noEvents
      else
        case checkRouting (ao_routingPatch opts) of
          Inl e \<Rightarrow> Inl e
        | Inr _ \<Rightarrow>
            let spills = map (spillOutputs sha256Hex) events; effective = map sp_event spills in
            case selectRunStateRow db runId of
              None \<Rightarrow> Inl (SE_unknownRun runId)
            | Some row \<Rightarrow>
                (case checkClaim (ao_claimEpoch opts) expectedVersion row of
                   Inl e \<Rightarrow> Inl e
                 | Inr _ \<Rightarrow>
                     let state = nextProjection (rr_state row) effective opts ts; bytes = routingBytes (rn_routing state) in
                     if bytes \<ge> MAX_ROUTING_BYTES then Inl (SE_payloadTooLarge bytes MAX_ROUTING_BYTES)
                     else
                       case validateFacts factBytes effective of
                         Inl e \<Rightarrow> Inl e
                       | Inr _ \<Rightarrow> Inr \<lparr>pr_state = state, pr_spills = spills,
                           pr_epochBump = (if list_ex isRequeue effective then 1 else 0), pr_ts = ts\<rparr>))"

fun insertBodies :: "ustring \<Rightarrow> number \<Rightarrow> EventBody list \<Rightarrow> Db \<Rightarrow> int list \<times> Db" where
  \<comment> \<open>\<open>bumpRunSeq\<close> and \<open>insertEvent\<close> per event, inside a transaction that has checked the row\<close>
  "insertBodies runId ts [] db = ([], db)"
| "insertBodies runId ts (b # bs) db =
     (case bumpRunSeq runId db of
        None \<Rightarrow> ([], db)
      | Some (s, db1) \<Rightarrow> (case insertBodies runId ts bs (insertEvent runId s b ts db1) of (seqs, db2) \<Rightarrow> (s # seqs, db2)))"

definition insertSpills :: "ustring \<Rightarrow> Spill list \<Rightarrow> Db \<Rightarrow> Db" where
  "insertSpills runId spills db =
     (let db1 = foldl (\<lambda>d sp. case sp_blob sp of Some (sha, bytes) \<Rightarrow> insertBlobIfAbsent sha bytes d | None \<Rightarrow> d) db spills
      in foldl (\<lambda>d sp. case sp_insert sp of Some (n, k, j) \<Rightarrow> insertOutput runId n k j d | None \<Rightarrow> d) db1 spills)"

record AppendResult =
  ar_newVersion :: int
  ar_seqs :: "int list"
  ar_state :: RunState

definition writeProjection :: "RunState \<Rightarrow> int \<Rightarrow> int \<Rightarrow> Db \<Rightarrow> StoreError + Db" where
  "writeProjection state expectedVersion epochBump db =
     (case writeRunStateProjection state expectedVersion epochBump db of
        Some d \<Rightarrow> Inr d
      | None \<Rightarrow> Inl (SE_concurrency expectedVersion
                  (case selectRunStateRow db (rn_runId state) of Some row \<Rightarrow> rn_version (rr_state row) | None \<Rightarrow> -1)))"

definition commitFact :: "Prepared \<Rightarrow> Db \<Rightarrow> ustring \<Rightarrow> int \<Rightarrow> AppendFactOpts \<Rightarrow> StoreError + (AppendResult \<times> Db)" where
  \<comment> \<open>the transaction; an error rolls it back\<close>
  "commitFact p db runId expectedVersion opts =
     (case selectRunStateRow db runId of
        None \<Rightarrow> Inl (SE_unknownRun runId)
      | Some row \<Rightarrow>
          (case checkClaim (ao_claimEpoch opts) expectedVersion row of
             Inl e \<Rightarrow> Inl e
           | Inr _ \<Rightarrow>
               (case insertBodies runId (pr_ts p) (map (\<lambda>sp. EB_fact (sp_event sp)) (pr_spills p)) db of
                  (seqs, db1) \<Rightarrow>
                    (case writeProjection (pr_state p) expectedVersion (pr_epochBump p) (insertSpills runId (pr_spills p) db1) of
                       Inl e \<Rightarrow> Inl e
                     | Inr db2 \<Rightarrow> Inr (\<lparr>ar_newVersion = rn_version (pr_state p), ar_seqs = seqs, ar_state = pr_state p\<rparr>, db2)))))"

definition appendFact ::
  "(FactEvent \<Rightarrow> int) \<Rightarrow> (bytes \<Rightarrow> ustring) \<Rightarrow> ustring \<Rightarrow> FactEvent list \<Rightarrow> int \<Rightarrow> AppendFactOpts \<Rightarrow> number \<Rightarrow> Db
     \<Rightarrow> StoreError + (AppendResult \<times> Db)" where
  "appendFact factBytes sha256Hex runId events expectedVersion opts ts db =
     (case prepareFact factBytes sha256Hex db runId events expectedVersion opts ts of
        Inl e \<Rightarrow> Inl e
      | Inr p \<Rightarrow> commitFact p db runId expectedVersion opts)"

section \<open>appendIntent\<close>

definition appendIntent :: "ustring \<Rightarrow> IntentType \<Rightarrow> jsobj \<Rightarrow> number \<Rightarrow> Db \<Rightarrow> StoreError + (int \<times> Db)" where
  "appendIntent runId ty payload ts db =
     (case validatePayload payload of
        Inl e \<Rightarrow> Inl e
      | Inr _ \<Rightarrow>
          (case selectRunStateRow db runId of
             None \<Rightarrow> Inl (SE_runNotFound runId)
           | Some row \<Rightarrow>
               if isImported db runId then Inl (SE_importedRun runId)
               else (case insertBodies runId ts [EB_intent ty payload] db of (seqs, db1) \<Rightarrow> Inr (hd seqs, db1))))"

record PreparedIntent =
  pi_state :: RunState
  pi_intentSeq :: int

definition prepareIntentWithFact ::
  "(FactEvent \<Rightarrow> int) \<Rightarrow> Db \<Rightarrow> ustring \<Rightarrow> jsobj \<Rightarrow> FactEvent list \<Rightarrow> int \<Rightarrow> number \<Rightarrow> StoreError + PreparedIntent" where
  "prepareIntentWithFact factBytes db runId payload facts expectedVersion ts =
     (if facts = [] then Inl SE_noEvents
      else
        case selectRunStateRow db runId of
          None \<Rightarrow> Inl (SE_runNotFound runId)
        | Some row \<Rightarrow>
            if isImported db runId then Inl (SE_importedRun runId)
            else if rn_version (rr_state row) \<noteq> expectedVersion then Inl (SE_concurrency expectedVersion (rn_version (rr_state row)))
            else
              let intentSeq = rn_nextSeq (rr_state row);
                  earlierPending = selectHasPendingIntentBetween db runId (rn_lastAppliedSeq (rr_state row)) intentSeq;
                  s1 = foldFacts (rr_state row) facts ts;
                  state = s1\<lparr>rn_version := rn_version s1 + 1,
                     rn_lastAppliedSeq := (if earlierPending then rn_lastAppliedSeq s1 else max (rn_lastAppliedSeq s1) intentSeq)\<rparr>
              in case validatePayload payload of
                   Inl e \<Rightarrow> Inl e
                 | Inr _ \<Rightarrow>
                     (case validateFacts factBytes facts of Inl e \<Rightarrow> Inl e | Inr _ \<Rightarrow> Inr \<lparr>pi_state = state, pi_intentSeq = intentSeq\<rparr>))"

definition commitIntentWithFact ::
  "PreparedIntent \<Rightarrow> Db \<Rightarrow> ustring \<Rightarrow> IntentType \<Rightarrow> jsobj \<Rightarrow> FactEvent list \<Rightarrow> int \<Rightarrow> number
     \<Rightarrow> StoreError + ((int \<times> int list \<times> int) \<times> Db)" where
  \<comment> \<open>intentSeq, factSeqs, newVersion\<close>
  "commitIntentWithFact p db runId ty payload facts expectedVersion ts =
     (case selectRunStateRow db runId of
        None \<Rightarrow> Inl (SE_runNotFound runId)
      | Some row \<Rightarrow>
          if isImported db runId then Inl (SE_importedRun runId)
          else if rn_version (rr_state row) \<noteq> expectedVersion \<or> rn_nextSeq (rr_state row) \<noteq> pi_intentSeq p
          then Inl (SE_concurrency expectedVersion (rn_version (rr_state row)))
          else
            (case insertBodies runId ts (EB_intent ty payload # map EB_fact facts) db of
               (seqs, db1) \<Rightarrow>
                 (case writeProjection (pi_state p) expectedVersion 0 db1 of
                    Inl e \<Rightarrow> Inl e
                  | Inr db2 \<Rightarrow> Inr ((pi_intentSeq p, tl seqs, rn_version (pi_state p)), db2))))"

definition appendIntentWithFact ::
  "(FactEvent \<Rightarrow> int) \<Rightarrow> ustring \<Rightarrow> IntentType \<Rightarrow> jsobj \<Rightarrow> FactEvent list \<Rightarrow> int \<Rightarrow> number \<Rightarrow> Db
     \<Rightarrow> StoreError + ((int \<times> int list \<times> int) \<times> Db)" where
  "appendIntentWithFact factBytes runId ty payload facts expectedVersion ts db =
     (case prepareIntentWithFact factBytes db runId payload facts expectedVersion ts of
        Inl e \<Rightarrow> Inl e
      | Inr p \<Rightarrow> commitIntentWithFact p db runId ty payload facts expectedVersion ts)"

section \<open>Observability events\<close>

definition copyIf :: "string \<Rightarrow> (jsval \<Rightarrow> bool) \<Rightarrow> jsobj \<Rightarrow> jsobj" where
  "copyIf k ok src = (case obj_get src (U k) of Some v \<Rightarrow> if ok v then [(U k, v)] else [] | None \<Rightarrow> [])"

definition isJStr :: "jsval \<Rightarrow> bool" where
  "isJStr v = (case v of JStr _ \<Rightarrow> True | _ \<Rightarrow> False)"

definition isJNum :: "jsval \<Rightarrow> bool" where
  "isJNum v = (case v of JNum _ \<Rightarrow> True | _ \<Rightarrow> False)"

definition markIteration :: "jsobj \<Rightarrow> jsobj" where
  "markIteration src =
     (case obj_get src (U ''iteration'') of
        Some (JNum n) \<Rightarrow> [(U ''iteration'', JNum n)]
      | Some (JObj it) \<Rightarrow>
          (case (obj_get it (U ''n''), obj_get it (U ''max'')) of
             (Some (JNum n), Some (JNum m)) \<Rightarrow> [(U ''iteration'', JObj [(U ''n'', JNum n), (U ''max'', JNum m)])]
           | _ \<Rightarrow> [])
      | _ \<Rightarrow> [])"

definition truncationMarker :: "jsobj \<Rightarrow> int \<Rightarrow> jsobj" where
  "truncationMarker src originalBytes =
     [(U ''_truncated'', JBool True), (U ''_original_bytes'', JFin (of_int originalBytes))]
     @ copyIf ''nodeId'' isJStr src @ markIteration src @ copyIf ''content_index'' isJNum src
     @ copyIf ''provider'' isJStr src @ copyIf ''model'' isJStr src @ copyIf ''thread_id'' isJStr src @ copyIf ''summary'' isJStr src"

fun prepareObs :: "ObservabilityEvent list \<Rightarrow> StoreError + EventBody list" where
  "prepareObs [] = Inr []"
| "prepareObs (e # es) =
     (if oe_type e = [] then Inl SE_eventType
      else
        let bytes = int (byteLength (JSON_stringify (JObj (oe_payload e))));
            payload = (if bytes \<ge> MAX_EVENT_PAYLOAD_BYTES then truncationMarker (oe_payload e) bytes else oe_payload e)
        in case validatePayload payload of
             Inl err \<Rightarrow> Inl err
           | Inr _ \<Rightarrow> (case prepareObs es of Inl err \<Rightarrow> Inl err | Inr bs \<Rightarrow> Inr (EB_obs (oe_type e) payload # bs)))"

definition appendObservabilityEvents :: "ustring \<Rightarrow> ObservabilityEvent list \<Rightarrow> int option \<Rightarrow> number \<Rightarrow> Db
     \<Rightarrow> StoreError + (int list \<times> Db)" where
  "appendObservabilityEvents runId events claimEpoch ts db =
     (if events = [] then Inr ([], db)
      else
        case prepareObs events of
          Inl e \<Rightarrow> Inl e
        | Inr bodies \<Rightarrow>
            (case selectRunStateRow db runId of
               None \<Rightarrow> Inl (SE_unknownRun runId)
             | Some row \<Rightarrow>
                 (case checkClaim claimEpoch (rn_version (rr_state row)) row of
                    Inl e \<Rightarrow> Inl e
                  | Inr _ \<Rightarrow> Inr (insertBodies runId ts bodies db))))"

section \<open>enqueueRun\<close>

record EnqueueRunParams =
  ep_runId :: ustring
  ep_workflowSha :: ustring
  ep_priority :: "number option"
  ep_initialRouting :: "jsobj option"
  ep_cwd :: "ustring option"
  ep_projectId :: "ustring option"
  ep_projectName :: "ustring option"
  ep_workflowName :: "ustring option"
  ep_workflowScope :: "WorkflowScope option"
  ep_workflowPath :: "ustring option"
  ep_scheduleId :: "ustring option"
  ep_title :: "ustring option"
  ep_baseGitSha :: "ustring option"
  ep_baseGitRef :: "ustring option"
  ep_baseHeadSha :: "ustring option"
  ep_inCheckout :: bool
  ep_checkoutPath :: "ustring option"

definition EVENT_CONTRACT_VERSION :: number where "EVENT_CONTRACT_VERSION = 7"

fun splitSlash :: "ustring \<Rightarrow> ustring list" where
  \<comment> \<open>\<open>cwd.split("/")\<close>\<close>
  "splitSlash [] = [[]]"
| "splitSlash (c # r) =
     (if c = 47 then [] # splitSlash r
      else case splitSlash r of s # ss \<Rightarrow> (c # s) # ss | [] \<Rightarrow> [[c]])"

definition cwdName :: "ustring option \<Rightarrow> ustring" where
  "cwdName cwd =
     (case cwd of
        None \<Rightarrow> U ''local''
      | Some c \<Rightarrow> (case filter (\<lambda>s. s \<noteq> []) (splitSlash c) of [] \<Rightarrow> U ''local'' | s # ss \<Rightarrow> last (s # ss)))"

definition genesisPayload :: "EnqueueRunParams \<Rightarrow> jsobj \<Rightarrow> RunEnqueuedPayload" where
  "genesisPayload p effectiveRouting =
     \<lparr>rq_workflowSha = ep_workflowSha p, rq_priority = Some (orElse (ep_priority p) 0),
      rq_projectId = orElse (orOption (ep_projectId p) (ep_cwd p)) (U ''local''),
      rq_projectName = orElse (ep_projectName p) (cwdName (ep_cwd p)),
      rq_routing = effectiveRouting, rq_contractVersion = EVENT_CONTRACT_VERSION,
      rq_workflowName = ep_workflowName p, rq_workflowScope = ep_workflowScope p, rq_workflowPath = ep_workflowPath p,
      rq_scheduleId = ep_scheduleId p,
      rq_title = (if ep_title p = Some [] then None else ep_title p),
      rq_baseGitSha = ep_baseGitSha p, rq_baseGitRef = ep_baseGitRef p, rq_baseHeadSha = ep_baseHeadSha p,
      rq_inCheckout = ep_inCheckout p\<rparr>"

definition insertRunState :: "EnqueueRunParams \<Rightarrow> jsobj \<Rightarrow> number \<Rightarrow> RunRow" where
  \<comment> \<open>the inserted row; the columns the statement does not name take the defaults of \<open>schema.sql\<close>\<close>
  "insertRunState p routing now =
     \<lparr>rr_state =
        \<lparr>rn_runId = ep_runId p, rn_version = 1, rn_status = St_queued, rn_currentNode = None,
         rn_workflowSha = ep_workflowSha p, rn_contractVersion = EVENT_CONTRACT_VERSION, rn_routing = routing,
         rn_metrics = emptyMetrics, rn_nextSeq = 1, rn_lastAppliedSeq = 0, rn_priority = orElse (ep_priority p) 0,
         rn_enqueuedAt = now, rn_readyAt = now, rn_nodeStartedAt = None, rn_dispatchStartedAt = None, rn_updatedAt = now,
         rn_title = (if ep_title p = Some [] then None else ep_title p),
         rn_baseGitSha = ep_baseGitSha p, rn_baseGitRef = ep_baseGitRef p, rn_baseHeadSha = ep_baseHeadSha p,
         rn_inCheckout = ep_inCheckout p, rn_checkoutPath = ep_checkoutPath p, rn_checkoutReleased = False,
         rn_finalGitSha = None, rn_finalHeadRef = None, rn_diffBaseSha = None, rn_changeStat = None,
         rn_inboxStatus = None, rn_acceptedSha = None, rn_cwd = ep_cwd p,
         rn_projectId = orElse (orOption (ep_projectId p) (ep_cwd p)) (U ''local''),
         rn_projectName = orElse (ep_projectName p) (cwdName (ep_cwd p)),
         rn_workflowName = ep_workflowName p, rn_workflowScope = ep_workflowScope p, rn_workflowPath = ep_workflowPath p,
         rn_scheduleId = ep_scheduleId p\<rparr>,
      rr_claimEpoch = 0\<rparr>"

definition enqueueTxn :: "EnqueueRunParams \<Rightarrow> SpillResult \<Rightarrow> number \<Rightarrow> Db \<Rightarrow> StoreError + Db" where
  "enqueueTxn p spill now db =
     (if \<not> workflowExists db (ep_workflowSha p) then Inl (SE_unknownWorkflow (ep_workflowSha p))
      else
        case (case ep_checkoutPath p of Some key \<Rightarrow> map_option (Pair key) (selectCheckoutHolder db key) | None \<Rightarrow> None) of
          Some (key, holder, status) \<Rightarrow> Inl (SE_checkoutBusy key holder status)
        | None \<Rightarrow>
            if selectRunStateRow db (ep_runId p) \<noteq> None then Inl (SE_duplicateRun (ep_runId p))
            else
              let db1 = foldl (\<lambda>d (_, sha, bytes). insertBlobIfAbsent sha bytes d) db (sr_spilled spill);
                  db2 = setRow (ep_runId p) (insertRunState p (sr_routing spill) now) db1
              in Inr (snd (insertBodies (ep_runId p) now [EB_genesis (genesisPayload p (sr_routing spill))] db2)))"

definition enqueueRun ::
  "(RunEnqueuedPayload \<Rightarrow> int) \<Rightarrow> (bytes \<Rightarrow> ustring) \<Rightarrow> (ustring \<Rightarrow> ustring \<Rightarrow> bool) \<Rightarrow> EnqueueRunParams \<Rightarrow> number \<Rightarrow> Db
     \<Rightarrow> StoreError + Db" where
  "enqueueRun payloadBytes sha256Hex localeBefore p now db =
     (let spill = spillRoutingInputs sha256Hex localeBefore (orElse (ep_initialRouting p) []);
          bytes = routingBytes (sr_routing spill)
      in if bytes \<ge> MAX_ROUTING_BYTES then Inl (SE_payloadTooLarge bytes MAX_ROUTING_BYTES)
         else
           case validateSize (payloadBytes (genesisPayload p (sr_routing spill))) of
             Inl e \<Rightarrow> Inl e
           | Inr _ \<Rightarrow> enqueueTxn p spill now db)"

section \<open>Claims\<close>

definition claimNextRun :: "int \<Rightarrow> number option \<Rightarrow> number \<Rightarrow> Db \<Rightarrow> (ustring \<times> int) option \<times> Db" where
  "claimNextRun maxInFlight claimerPid now db =
     (if int (countDispatchableRunningRuns db) \<ge> maxInFlight then (None, db)
      else
        case selectNextQueuedRun db of
          None \<Rightarrow> (None, db)
        | Some (runId, version) \<Rightarrow>
            (case claimQueuedRun runId version now claimerPid db of
               None \<Rightarrow> (None, db)
             | Some (epoch, db1) \<Rightarrow> (Some (runId, epoch), db1)))"

definition appendCrashRequeue :: "ustring \<Rightarrow> ustring option \<Rightarrow> number option \<Rightarrow> number \<Rightarrow> number \<Rightarrow> int option \<Rightarrow> Db \<Rightarrow> bool \<times> Db" where
  \<comment> \<open>\<open>prevNode\<close> and \<open>lastAliveAt\<close> are the payload\<close>
  "appendCrashRequeue runId prevNode lastAliveAt ts activeMsDelta claimEpoch db =
     (case claimEpoch of
        Some e \<Rightarrow>
          (case updateRunStateReleasedClaim runId e ts ts activeMsDelta db of
             None \<Rightarrow> (False, db)
           | Some db1 \<Rightarrow> (True, snd (insertBodies runId ts [EB_fact (F_run_requeued_after_crash prevNode lastAliveAt)] db1)))
      | None \<Rightarrow>
          (True, snd (insertBodies runId ts [EB_fact (F_run_requeued_after_crash prevNode lastAliveAt)]
                        (updateRunStateRequeuedAfterCrash runId ts ts activeMsDelta db))))"

definition releaseClaim :: "ustring \<Rightarrow> int \<Rightarrow> ustring option \<Rightarrow> number option \<Rightarrow> number \<Rightarrow> Db \<Rightarrow> Db \<Rightarrow> bool \<times> Db" where
  \<comment> \<open>\<open>snapshot\<close> is the database the first read sees, \<open>db\<close> the one the transaction sees; the payload
    (a node id and a timestamp) is below the cap\<close>
  "releaseClaim runId claimEpoch prevNode lastAliveAt ts snapshot db =
     (case selectRunStateRow snapshot runId of
        None \<Rightarrow> (False, db)
      | Some row \<Rightarrow>
          if rn_status (rr_state row) \<noteq> St_running \<or> rr_claimEpoch row \<noteq> claimEpoch then (False, db)
          else appendCrashRequeue runId (orOption prevNode (rn_currentNode (rr_state row))) lastAliveAt ts
                 (crashRequeueActiveMsDelta (rn_dispatchStartedAt (rr_state row)) lastAliveAt) (Some claimEpoch) db)"

definition setRunTitle :: "ustring \<Rightarrow> ustring \<Rightarrow> number \<Rightarrow> Db \<Rightarrow> Db" where
  "setRunTitle runId title now db =
     updateRunStateTitle runId (if length title > 200 then take 200 title else title) now db"

section \<open>The startup sweep\<close>

definition quarantineRun :: "number \<Rightarrow> (ustring \<times> int list) \<Rightarrow> Db \<Rightarrow> bool \<times> Db" where
  \<comment> \<open>one run's heal, a transaction of its own\<close>
  "quarantineRun ts orphans db =
     (case selectRunStateRow db (fst orphans) of
        None \<Rightarrow> (False, db)
      | Some row \<Rightarrow>
          if rn_status (rr_state row) \<in> set [St_completed, St_cancelled, St_halted, St_quarantined] \<or> isImported db (fst orphans)
          then (False, db)
          else (True, updateRunStateQuarantinedBySweep (fst orphans) ts
                  (dispatchIntervalActiveMsDelta (rn_dispatchStartedAt (rr_state row)) ts)
                  (snd (insertBodies (fst orphans) ts [EB_fact (F_run_quarantined QR_orphan_side_effect (Some (snd orphans)))] db))))"

definition requeueRun :: "number \<Rightarrow> number option \<Rightarrow> (ustring \<times> ustring option) \<Rightarrow> Db \<Rightarrow> bool \<times> Db" where
  "requeueRun ts priorHeartbeatAt r db =
     (case selectRunStateRow db (fst r) of
        None \<Rightarrow> (False, db)
      | Some current \<Rightarrow>
          if rn_status (rr_state current) \<noteq> St_running then (False, db)
          else (True, snd (appendCrashRequeue (fst r) (snd r) priorHeartbeatAt ts
                  (crashRequeueActiveMsDelta (rn_dispatchStartedAt (rr_state current)) priorHeartbeatAt) None db)))"

definition healAll :: "('a \<Rightarrow> Db \<Rightarrow> bool \<times> Db) \<Rightarrow> ('a \<Rightarrow> ustring) \<Rightarrow> 'a list \<Rightarrow> Db \<Rightarrow> ustring list \<times> Db" where
  "healAll heal idOf xs db =
     foldl (\<lambda>(healed, d) x. case heal x d of (did, d1) \<Rightarrow> (if did then healed @ [idOf x] else healed, d1)) ([], db) xs"

definition groupOrphans :: "(ustring \<times> int) list \<Rightarrow> (ustring \<times> int list) list" where
  "groupOrphans orphans =
     foldl (\<lambda>m (r, s). obj_set r (orElse (obj_get m r) [] @ [s]) m) [] orphans"

definition startupSweep :: "number \<Rightarrow> number option \<Rightarrow> Db \<Rightarrow> (ustring list \<times> ustring list) \<times> Db" where
  \<comment> \<open>the runs requeued and quarantined; every heal succeeds at the first attempt\<close>
  "startupSweep ts priorHeartbeatAt db =
     (let orphans = groupOrphans (selectAllOrphanSideEffects db);
          running = selectRunningNonImportedRuns db
      in case healAll (quarantineRun ts) fst orphans db of
           (quarantined, db1) \<Rightarrow>
             (case healAll (requeueRun ts priorHeartbeatAt) fst running db1 of
                (requeued, db2) \<Rightarrow> ((requeued, quarantined), db2)))"

end
