(* ===== verification/Store_Columns.thy ===== *)
theory Store_Columns
  imports Store_Writer
begin

text \<open>
  The columns of a run row: which ones the fold of facts never touches, so that the projection that
  writes the others back is complete, and which ones it never reads, so that a fold computed on an
  older row is still the fold of the current one.
\<close>

section \<open>The projection writes every column the fold changes\<close>

definition fixedColumns where
  "fixedColumns s = (rn_runId s, rn_workflowSha s, rn_contractVersion s, rn_nextSeq s, rn_enqueuedAt s, rn_title s,
     (rn_inCheckout s, rn_checkoutPath s, rn_cwd s, rn_projectId s, rn_projectName s, rn_workflowName s,
      rn_workflowScope s, rn_workflowPath s, rn_scheduleId s))"

lemma projectOnto_fixed: "fixedColumns old = fixedColumns new \<Longrightarrow> projectOnto old new = new"
  by (cases old; cases new) (simp add: fixedColumns_def projectOnto_def)

definition keptColumns where
  \<comment> \<open>what no fold of a fact touches\<close>
  "keptColumns s = (fixedColumns s, rn_version s, rn_lastAppliedSeq s)"

lemma kept_writes [simp]:
  "keptColumns (s\<lparr>rn_status := x1\<rparr>) = keptColumns s" "keptColumns (s\<lparr>rn_currentNode := x2\<rparr>) = keptColumns s"
  "keptColumns (s\<lparr>rn_routing := x3\<rparr>) = keptColumns s" "keptColumns (s\<lparr>rn_metrics := x4\<rparr>) = keptColumns s"
  "keptColumns (s\<lparr>rn_readyAt := x5\<rparr>) = keptColumns s" "keptColumns (s\<lparr>rn_nodeStartedAt := x6\<rparr>) = keptColumns s"
  "keptColumns (s\<lparr>rn_dispatchStartedAt := x6\<rparr>) = keptColumns s" "keptColumns (s\<lparr>rn_updatedAt := x5\<rparr>) = keptColumns s"
  "keptColumns (s\<lparr>rn_baseGitSha := x2\<rparr>) = keptColumns s" "keptColumns (s\<lparr>rn_baseGitRef := x2\<rparr>) = keptColumns s"
  "keptColumns (s\<lparr>rn_baseHeadSha := x2\<rparr>) = keptColumns s" "keptColumns (s\<lparr>rn_checkoutReleased := x7\<rparr>) = keptColumns s"
  "keptColumns (s\<lparr>rn_finalGitSha := x2\<rparr>) = keptColumns s" "keptColumns (s\<lparr>rn_finalHeadRef := x2\<rparr>) = keptColumns s"
  "keptColumns (s\<lparr>rn_diffBaseSha := x2\<rparr>) = keptColumns s" "keptColumns (s\<lparr>rn_changeStat := x8\<rparr>) = keptColumns s"
  "keptColumns (s\<lparr>rn_inboxStatus := x9\<rparr>) = keptColumns s" "keptColumns (s\<lparr>rn_acceptedSha := x2\<rparr>) = keptColumns s"
  "keptColumns (s\<lparr>rn_priority := x5\<rparr>) = keptColumns s"
  by (simp_all add: keptColumns_def fixedColumns_def)

lemma kept_parts:
  "keptColumns (applyDispatchStarted s p now) = keptColumns s" "keptColumns (applyNodeCompleted s q now) = keptColumns s"
  "keptColumns (applyNodeAborted s a now) = keptColumns s" "keptColumns (applyRunTerminated s t now) = keptColumns s"
  "keptColumns (applySnapshot s r) = keptColumns s"
proof -
  show "keptColumns (applyDispatchStarted s p now) = keptColumns s"
    by (cases "getFrontier (rn_routing s)") (simp_all add: applyDispatchStarted_def helper_defs Let_def)
  show "keptColumns (applyNodeCompleted s q now) = keptColumns s"
    by (cases "getFrontier (rn_routing s)") (simp_all add: applyNodeCompleted_def helper_defs Let_def)
  show "keptColumns (applyNodeAborted s a now) = keptColumns s" by (simp add: applyNodeAborted_def helper_defs Let_def)
  show "keptColumns (applyRunTerminated s t now) = keptColumns s"
    by (cases t) (simp_all add: applyRunTerminated_release releaseUnstarted_def helper_defs Let_def)
  show "keptColumns (applySnapshot s r) = keptColumns s" by (simp add: applySnapshot_def helper_defs Let_def)
qed

lemma kept_applyFact: "keptColumns (applyFact s f now) = keptColumns s"
  by (cases f) (simp_all add: applyFact_def Let_def kept_parts helper_defs)

lemma kept_fold: "keptColumns (foldFacts s fs now) = keptColumns s"
  by (induction fs arbitrary: s) (simp_all add: foldFacts_def kept_applyFact)

lemma fixed_fold: "fixedColumns (foldFacts s fs now) = fixedColumns s"
  using kept_fold by (simp add: keptColumns_def)

lemma foldFacts_version: "rn_version (foldFacts s fs now) = rn_version s"
  using kept_fold by (simp add: keptColumns_def)

lemma foldFacts_runId: "rn_runId (foldFacts s fs now) = rn_runId s"
  using fixed_fold by (simp add: fixedColumns_def)

lemma fixed_next: "fixedColumns (nextProjection s fs opts ts) = fixedColumns s"
  using fixed_fold [of s fs ts] by (simp add: nextProjection_def Let_def fixedColumns_def split: option.split)

lemma next_version [simp]: "rn_version (nextProjection s fs opts ts) = rn_version s + 1"
  by (simp add: nextProjection_def Let_def foldFacts_version split: option.split)

lemma next_runId [simp]: "rn_runId (nextProjection s fs opts ts) = rn_runId s"
  using fixed_next by (simp add: fixedColumns_def)

section \<open>The fold does not read the columns other writers touch\<close>

definition relabel :: "int \<Rightarrow> ustring option \<Rightarrow> RunState \<Rightarrow> RunState" where
  \<comment> \<open>the columns a write may touch without bumping the version\<close>
  "relabel n t s = s\<lparr>rn_nextSeq := n, rn_title := t\<rparr>"

lemma relabel_reads [simp]:
  "rn_status (relabel n t s) = rn_status s" "rn_routing (relabel n t s) = rn_routing s"
  "rn_metrics (relabel n t s) = rn_metrics s" "rn_dispatchStartedAt (relabel n t s) = rn_dispatchStartedAt s"
  "rn_inCheckout (relabel n t s) = rn_inCheckout s" "rn_baseGitSha (relabel n t s) = rn_baseGitSha s"
  "rn_baseGitRef (relabel n t s) = rn_baseGitRef s" "rn_baseHeadSha (relabel n t s) = rn_baseHeadSha s"
  "inFrontier (relabel n t s) k = inFrontier s k" "rn_version (relabel n t s) = rn_version s"
  "rn_lastAppliedSeq (relabel n t s) = rn_lastAppliedSeq s" "rn_runId (relabel n t s) = rn_runId s"
  by (simp_all add: relabel_def inFrontier_def)

lemma relabel_writes:
  "(relabel n t s)\<lparr>rn_status := x1\<rparr> = relabel n t (s\<lparr>rn_status := x1\<rparr>)"
  "(relabel n t s)\<lparr>rn_currentNode := x2\<rparr> = relabel n t (s\<lparr>rn_currentNode := x2\<rparr>)"
  "(relabel n t s)\<lparr>rn_routing := x3\<rparr> = relabel n t (s\<lparr>rn_routing := x3\<rparr>)"
  "(relabel n t s)\<lparr>rn_metrics := x4\<rparr> = relabel n t (s\<lparr>rn_metrics := x4\<rparr>)"
  "(relabel n t s)\<lparr>rn_readyAt := x5\<rparr> = relabel n t (s\<lparr>rn_readyAt := x5\<rparr>)"
  "(relabel n t s)\<lparr>rn_nodeStartedAt := x6\<rparr> = relabel n t (s\<lparr>rn_nodeStartedAt := x6\<rparr>)"
  "(relabel n t s)\<lparr>rn_dispatchStartedAt := x6\<rparr> = relabel n t (s\<lparr>rn_dispatchStartedAt := x6\<rparr>)"
  "(relabel n t s)\<lparr>rn_updatedAt := x5\<rparr> = relabel n t (s\<lparr>rn_updatedAt := x5\<rparr>)"
  "(relabel n t s)\<lparr>rn_baseGitSha := x2\<rparr> = relabel n t (s\<lparr>rn_baseGitSha := x2\<rparr>)"
  "(relabel n t s)\<lparr>rn_baseGitRef := x2\<rparr> = relabel n t (s\<lparr>rn_baseGitRef := x2\<rparr>)"
  "(relabel n t s)\<lparr>rn_baseHeadSha := x2\<rparr> = relabel n t (s\<lparr>rn_baseHeadSha := x2\<rparr>)"
  "(relabel n t s)\<lparr>rn_checkoutReleased := x7\<rparr> = relabel n t (s\<lparr>rn_checkoutReleased := x7\<rparr>)"
  "(relabel n t s)\<lparr>rn_finalGitSha := x2\<rparr> = relabel n t (s\<lparr>rn_finalGitSha := x2\<rparr>)"
  "(relabel n t s)\<lparr>rn_finalHeadRef := x2\<rparr> = relabel n t (s\<lparr>rn_finalHeadRef := x2\<rparr>)"
  "(relabel n t s)\<lparr>rn_diffBaseSha := x2\<rparr> = relabel n t (s\<lparr>rn_diffBaseSha := x2\<rparr>)"
  "(relabel n t s)\<lparr>rn_changeStat := x8\<rparr> = relabel n t (s\<lparr>rn_changeStat := x8\<rparr>)"
  "(relabel n t s)\<lparr>rn_inboxStatus := x9\<rparr> = relabel n t (s\<lparr>rn_inboxStatus := x9\<rparr>)"
  "(relabel n t s)\<lparr>rn_acceptedSha := x2\<rparr> = relabel n t (s\<lparr>rn_acceptedSha := x2\<rparr>)"
  "(relabel n t s)\<lparr>rn_version := v\<rparr> = relabel n t (s\<lparr>rn_version := v\<rparr>)"
  "(relabel n t s)\<lparr>rn_lastAppliedSeq := v\<rparr> = relabel n t (s\<lparr>rn_lastAppliedSeq := v\<rparr>)"
  by (simp_all add: relabel_def)

lemma relabel_helpers:
  "addActiveMs d (relabel n t s) = relabel n t (addActiveMs d s)"
  "closeDispatchInterval (relabel n t s) now = relabel n t (closeDispatchInterval s now)"
  "onMetrics f (relabel n t s) = relabel n t (onMetrics f s)"
  "setFrontier a (relabel n t s) = relabel n t (setFrontier a s)"
  "foldHaltSpend p (relabel n t s) = relabel n t (foldHaltSpend p s)"
  "releaseUnstarted (relabel n t s) = relabel n t (releaseUnstarted s)"
  by (simp_all add: helper_defs releaseUnstarted_def relabel_writes)

lemmas relabel_simps = relabel_writes relabel_helpers

lemma relabel_parts:
  "applyDispatchStarted (relabel n t s) p now = relabel n t (applyDispatchStarted s p now)"
  "applyNodeCompleted (relabel n t s) q now = relabel n t (applyNodeCompleted s q now)"
  "applyNodeAborted (relabel n t s) a now = relabel n t (applyNodeAborted s a now)"
  "applyRunTerminated (relabel n t s) rt now = relabel n t (applyRunTerminated s rt now)"
  "applySnapshot (relabel n t s) r = relabel n t (applySnapshot s r)"
proof -
  show "applyDispatchStarted (relabel n t s) p now = relabel n t (applyDispatchStarted s p now)"
    by (cases "getFrontier (rn_routing s)") (simp_all add: applyDispatchStarted_def Let_def relabel_simps)
  show "applyNodeCompleted (relabel n t s) q now = relabel n t (applyNodeCompleted s q now)"
    by (cases "getFrontier (rn_routing s)") (simp_all add: applyNodeCompleted_def Let_def relabel_simps)
  show "applyNodeAborted (relabel n t s) a now = relabel n t (applyNodeAborted s a now)"
    by (simp add: applyNodeAborted_def Let_def relabel_simps)
  show "applyRunTerminated (relabel n t s) rt now = relabel n t (applyRunTerminated s rt now)"
    by (cases rt) (simp_all add: applyRunTerminated_release Let_def relabel_simps)
  show "applySnapshot (relabel n t s) r = relabel n t (applySnapshot s r)"
    by (simp add: applySnapshot_def Let_def relabel_simps)
qed

lemma relabel_applyFact: "applyFact (relabel n t s) f now = relabel n t (applyFact s f now)"
  by (cases f) (simp_all add: applyFact_def Let_def relabel_parts relabel_simps)

lemma relabel_fold: "foldFacts (relabel n t s) fs now = relabel n t (foldFacts s fs now)"
  by (induction fs arbitrary: s) (simp_all add: foldFacts_def relabel_applyFact)

lemma updatedAt_applyFact: "applyFact (s\<lparr>rn_updatedAt := u\<rparr>) f now = applyFact s f now"
  by (simp add: applyFact_def)

lemma updatedAt_fold: "fs \<noteq> [] \<Longrightarrow> foldFacts (s\<lparr>rn_updatedAt := u\<rparr>) fs now = foldFacts s fs now"
  by (cases fs) (simp_all add: foldFacts_def updatedAt_applyFact)

lemma next_relabel:
  "fs \<noteq> [] \<Longrightarrow> nextProjection (relabel n t (s\<lparr>rn_updatedAt := u\<rparr>)) fs opts ts = relabel n t (nextProjection s fs opts ts)"
  by (simp add: nextProjection_def Let_def relabel_fold updatedAt_fold relabel_writes split: option.split)

lemma project_relabel: "projectOnto old (relabel n t new) = projectOnto old new"
  by (simp add: projectOnto_def relabel_def)

end
