(* ===== verification/Store_Writes.thy ===== *)
theory Store_Writes
  imports Store_Columns "HOL-Library.Sublist"
begin

text \<open>
  The writes of the store taken apart. Every operation is a composition of five blocks: a change of
  side tables only, the insertion of events under fresh sequence numbers, the advance of a run row by
  one version, a new title, and the birth of a run. A relation between databases that the blocks
  respect is respected by every operation and by every history of operations: the locale
  \<open>store_writes\<close>, which the invariants of the store instantiate.
\<close>

section \<open>Inserting events\<close>

abbreviation seqOf :: "RunRow \<Rightarrow> int" where
  "seqOf row \<equiv> rn_nextSeq (rr_state row)"

definition bumped :: "int \<Rightarrow> RunRow \<Rightarrow> RunRow" where
  "bumped k row = row\<lparr>rr_state := (rr_state row)\<lparr>rn_nextSeq := seqOf row + k\<rparr>\<rparr>"

lemma bumped_simps [simp]:
  "rr_claimEpoch (bumped k row) = rr_claimEpoch row" "seqOf (bumped k row) = seqOf row + k"
  "rn_version (rr_state (bumped k row)) = rn_version (rr_state row)" "rn_status (rr_state (bumped k row)) = rn_status (rr_state row)"
  "bumped k (bumped j row) = bumped (j + k) row" "bumped 0 row = row"
  by (simp_all add: bumped_def)

lemma bumpRunSeq_row: "selectRunStateRow db r = Some row \<Longrightarrow> bumpRunSeq r db = Some (seqOf row, setRow r (bumped 1 row) db)"
  by (simp add: bumpRunSeq_def bumped_def)

definition eventRows :: "ustring \<Rightarrow> number \<Rightarrow> int \<Rightarrow> EventBody list \<Rightarrow> EventRow list" where
  "eventRows r ts n bs = map (\<lambda>(i, b). \<lparr>er_runId = r, er_seq = n + int i, er_body = b, er_ts = ts\<rparr>) (enumerate 0 bs)"

lemma eventRows_simps [simp]:
  "eventRows r ts n [] = []"
  "eventRows r ts n (b # bs) = \<lparr>er_runId = r, er_seq = n, er_body = b, er_ts = ts\<rparr> # eventRows r ts (n + 1) bs"
  by (simp_all add: eventRows_def enumerate_simps(2) enumerate_Suc_eq comp_def case_prod_unfold add.assoc)

lemma eventRows_seqs: "map er_seq (eventRows r ts n bs) = [n..n + int (length bs) - 1]"
  by (induction bs arbitrary: n) (simp_all add: upto_rec1 algebra_simps)

lemma insertBodies_spec:
  assumes "selectRunStateRow db r = Some row"
  shows "fst (insertBodies r ts bs db) = [seqOf row..seqOf row + int (length bs) - 1]"
    and "selectRunStateRow (snd (insertBodies r ts bs db)) r'
           = (if r' = r then Some (bumped (int (length bs)) row) else selectRunStateRow db r')"
    and "runEvents (snd (insertBodies r ts bs db)) r' = runEvents db r' @ (if r' = r then eventRows r ts (seqOf row) bs else [])"
    and "isImported (snd (insertBodies r ts bs db)) r' = isImported db r'"
  using assms
proof (induction bs arbitrary: db row)
  case Nil
  { case 1 then show ?case by simp }
  { case 2 then show ?case by simp }
  { case 3 then show ?case by simp }
  { case 4 then show ?case by simp }
next
  case (Cons b bs)
  have step: "insertBodies r ts (b # bs) db
      = (seqOf row # fst (insertBodies r ts bs (insertEvent r (seqOf row) b ts (setRow r (bumped 1 row) db))),
         snd (insertBodies r ts bs (insertEvent r (seqOf row) b ts (setRow r (bumped 1 row) db))))"
    if "selectRunStateRow db r = Some row" for db row
    using that by (simp add: bumpRunSeq_row split_beta)
  have row: "selectRunStateRow (insertEvent r (seqOf row) b ts (setRow r (bumped 1 row) db)) r = Some (bumped 1 row)" for db row
    by (simp add: select_setRow)
  { case 1 show ?case unfolding step [OF 1] by (simp add: Cons.IH(1) [OF row] upto_rec1 algebra_simps) }
  { case 2 show ?case unfolding step [OF 2] by (simp add: Cons.IH(2) [OF row] select_setRow add.commute) }
  { case 3 show ?case unfolding step [OF 3] by (simp add: Cons.IH(3) [OF row] add.commute) }
  { case 4 show ?case unfolding step [OF 4] by (simp add: Cons.IH(4) [OF row]) }
qed

lemma foldl_keeps: "(\<And>d x. g (f d x) = g d) \<Longrightarrow> g (foldl f d xs) = g d"
  by (induction xs arbitrary: d) simp_all

lemma insertSpills_keeps:
  assumes "\<And>d sha n. g (insertBlobIfAbsent sha n d) = g d" and "\<And>d n k j. g (insertOutput r n k j d) = g d"
  shows "g (insertSpills r sps db) = g db"
  unfolding insertSpills_def Let_def
  by (subst foldl_keeps, use assms(2) in \<open>simp split: option.split\<close>) (rule foldl_keeps, use assms(1) in \<open>simp split: option.split\<close>)

lemma insertSpills_others [simp]:
  "selectRunStateRow (insertSpills r sps db) r' = selectRunStateRow db r'" "runEvents (insertSpills r sps db) r' = runEvents db r'"
  "isImported (insertSpills r sps db) r' = isImported db r'"
  by (rule insertSpills_keeps; simp)+

section \<open>What a successful call did\<close>

lemma checkClaim_ok:
  "checkClaim c v row = Inr x \<longleftrightarrow> rn_version (rr_state row) = v \<and> (case c of None \<Rightarrow> True | Some e \<Rightarrow> rr_claimEpoch row = e)"
  by (cases x) (simp add: checkClaim_def split: option.split)

lemma prepareFact_ok:
  assumes "prepareFact fb sha snap r events v opts ts = Inr p"
  obtains row where "selectRunStateRow snap r = Some row" and "checkClaim (ao_claimEpoch opts) v row = Inr ()"
    and "events \<noteq> []" and "checkRouting (ao_routingPatch opts) = Inr ()"
    and "routingBytes (rn_routing (nextProjection (rr_state row) (map (sp_event \<circ> spillOutputs sha) events) opts ts)) < MAX_ROUTING_BYTES"
    and "validateFacts fb (map (sp_event \<circ> spillOutputs sha) events) = Inr ()"
    and "p = \<lparr>pr_state = nextProjection (rr_state row) (map (sp_event \<circ> spillOutputs sha) events) opts ts,
              pr_spills = map (spillOutputs sha) events,
              pr_epochBump = (if list_ex isRequeue (map (sp_event \<circ> spillOutputs sha) events) then 1 else 0), pr_ts = ts\<rparr>"
proof -
  have "events \<noteq> []" using assms by (auto simp: prepareFact_def)
  moreover obtain row where "selectRunStateRow snap r = Some row"
    using assms by (auto simp: prepareFact_def Let_def split: if_splits sum.splits option.splits)
  ultimately show ?thesis
    using assms by (intro that [of row]) (auto simp: prepareFact_def Let_def split: if_splits sum.splits)
qed

lemma commitFact_ok:
  assumes "commitFact p db r v opts = Inr (res, d)"
  obtains row where "selectRunStateRow db r = Some row" and "checkClaim (ao_claimEpoch opts) v row = Inr ()"
    and "writeProjection (pr_state p) v (pr_epochBump p)
           (insertSpills r (pr_spills p) (snd (insertBodies r (pr_ts p) (map (\<lambda>sp. EB_fact (sp_event sp)) (pr_spills p)) db))) = Inr d"
  using assms by (auto simp: commitFact_def split_beta split: option.splits sum.splits intro: that)

definition keysOk :: "Db \<Rightarrow> bool" where
  \<comment> \<open>a row is stored under its own \<open>run_id\<close>\<close>
  "keysOk d = (\<forall>r row. selectRunStateRow d r = Some row \<longrightarrow> rn_runId (rr_state row) = r)"

lemma writeProjection_ok:
  "writeProjection s v bump db = Inr d \<longleftrightarrow>
     (\<exists>row. selectRunStateRow db (rn_runId s) = Some row \<and> rn_version (rr_state row) = v
        \<and> d = setRow (rn_runId s) \<lparr>rr_state = projectOnto (rr_state row) s, rr_claimEpoch = rr_claimEpoch row + bump\<rparr> db)"
  by (auto simp: writeProjection_def writeRunStateProjection_def split: option.splits)

abbreviation effectiveFacts :: "(bytes \<Rightarrow> ustring) \<Rightarrow> FactEvent list \<Rightarrow> FactEvent list" where
  "effectiveFacts sha events \<equiv> map (sp_event \<circ> spillOutputs sha) events"

definition factsWritten :: "(bytes \<Rightarrow> ustring) \<Rightarrow> ustring \<Rightarrow> FactEvent list \<Rightarrow> number \<Rightarrow> Db \<Rightarrow> Db" where
  "factsWritten sha r events ts db =
     insertSpills r (map (spillOutputs sha) events) (snd (insertBodies r ts (map EB_fact (effectiveFacts sha events)) db))"

lemma appendFact_ok:
  assumes "appendFact fb sha r events v opts ts db = Inr (res, d)" and "keysOk db"
  obtains row where "selectRunStateRow db r = Some row" and "checkClaim (ao_claimEpoch opts) v row = Inr ()" and "events \<noteq> []"
    and "ar_state res = nextProjection (rr_state row) (effectiveFacts sha events) opts ts"
    and "ar_seqs res = [seqOf row..seqOf row + int (length events) - 1]" and "ar_newVersion res = v + 1"
    and "d = setRow r \<lparr>rr_state = projectOnto (rr_state (bumped (int (length events)) row)) (ar_state res),
              rr_claimEpoch = rr_claimEpoch row + (if list_ex isRequeue (effectiveFacts sha events) then 1 else 0)\<rparr>
              (factsWritten sha r events ts db)"
proof -
  obtain p where p: "prepareFact fb sha db r events v opts ts = Inr p" and c: "commitFact p db r v opts = Inr (res, d)"
    using assms(1) by (auto simp: appendFact_def split: sum.splits)
  from p show ?thesis
  proof (rule prepareFact_ok)
    fix row
    assume row: "selectRunStateRow db r = Some row" and ck: "checkClaim (ao_claimEpoch opts) v row = Inr ()" and ne: "events \<noteq> []"
      and peq: "p = \<lparr>pr_state = nextProjection (rr_state row) (effectiveFacts sha events) opts ts,
              pr_spills = map (spillOutputs sha) events,
              pr_epochBump = (if list_ex isRequeue (effectiveFacts sha events) then 1 else 0), pr_ts = ts\<rparr>"
    have id: "rn_runId (rr_state row) = r" using assms(2) row by (simp add: keysOk_def)
    have bodies: "(\<lambda>sp. EB_fact (sp_event sp)) \<circ> spillOutputs sha = EB_fact \<circ> (sp_event \<circ> spillOutputs sha)"
      by (simp add: comp_def)
    then show ?thesis
      using c row ck ne id
      by (intro that [of row])
        (auto simp: commitFact_def split_beta writeProjection_ok factsWritten_def peq bodies insertBodies_spec [OF row] checkClaim_ok
          simp del: insertBodies.simps split: sum.splits)
  qed
qed

lemma intentWithFact_ok:
  assumes "appendIntentWithFact fb r ty payload facts v ts db = Inr ((n, seqs, v'), d)" and "keysOk db"
  obtains row where "selectRunStateRow db r = Some row" and "rn_version (rr_state row) = v" and "\<not> isImported db r" and "facts \<noteq> []"
    and "n = seqOf row" and "seqs = [seqOf row + 1..seqOf row + int (length facts)]" and "v' = v + 1"
    and "d = setRow r \<lparr>rr_state = projectOnto (rr_state (bumped (int (length facts) + 1) row))
                ((foldFacts (rr_state row) facts ts)\<lparr>rn_version := v + 1,
                   rn_lastAppliedSeq := (if selectHasPendingIntentBetween db r (rn_lastAppliedSeq (rr_state row)) (seqOf row)
                      then rn_lastAppliedSeq (rr_state row) else max (rn_lastAppliedSeq (rr_state row)) (seqOf row))\<rparr>),
              rr_claimEpoch = rr_claimEpoch row\<rparr>
              (snd (insertBodies r ts (EB_intent ty payload # map EB_fact facts) db))"
proof -
  obtain p where p: "prepareIntentWithFact fb db r payload facts v ts = Inr p"
    and c: "commitIntentWithFact p db r ty payload facts v ts = Inr ((n, seqs, v'), d)"
    using assms(1) by (auto simp: appendIntentWithFact_def split: sum.splits)
  obtain row where row: "selectRunStateRow db r = Some row"
    using p by (auto simp: prepareIntentWithFact_def split: if_splits option.splits)
  have id: "rn_runId (rr_state row) = r" using assms(2) row by (simp add: keysOk_def)
  have applied: "rn_lastAppliedSeq (foldFacts (rr_state row) facts ts) = rn_lastAppliedSeq (rr_state row)"
    using kept_fold by (simp add: keptColumns_def)
  have pre: "facts \<noteq> []" "\<not> isImported db r" "rn_version (rr_state row) = v"
    using p row by (auto simp: prepareIntentWithFact_def Let_def split: if_splits)
  let ?s = "(foldFacts (rr_state row) facts ts)\<lparr>rn_version := v + 1,
                   rn_lastAppliedSeq := (if selectHasPendingIntentBetween db r (rn_lastAppliedSeq (rr_state row)) (seqOf row)
                      then rn_lastAppliedSeq (rr_state row) else max (rn_lastAppliedSeq (rr_state row)) (seqOf row))\<rparr>"
  let ?bodies = "EB_intent ty payload # map EB_fact facts"
  have peq: "p = \<lparr>pi_state = ?s, pi_intentSeq = seqOf row\<rparr>"
    using p row pre by (auto simp: prepareIntentWithFact_def Let_def foldFacts_version applied split: if_splits sum.splits)
  have runId: "rn_runId ?s = r" by (simp add: foldFacts_runId id)
  obtain d2 where w: "writeProjection ?s v 0 (snd (insertBodies r ts ?bodies db)) = Inr d2"
    and eqs: "n = seqOf row" "seqs = tl (fst (insertBodies r ts ?bodies db))" "v' = v + 1" "d = d2"
    using c row pre by (auto simp: commitIntentWithFact_def peq split_beta simp del: insertBodies.simps split: sum.splits)
  have tl: "tl [m..m + int (Suc k) - 1] = [m + 1..m + int k]" for m k by (simp add: upto_rec1)
  have "seqs = [seqOf row + 1..seqOf row + int (length facts)]"
    unfolding eqs(2) insertBodies_spec(1) [OF row] using tl [of "seqOf row" "length facts"] by simp
  moreover have "d = setRow r \<lparr>rr_state = projectOnto (rr_state (bumped (int (length facts) + 1) row)) ?s, rr_claimEpoch = rr_claimEpoch row\<rparr>
              (snd (insertBodies r ts ?bodies db))"
    using w unfolding writeProjection_ok runId eqs(4) insertBodies_spec(2) [OF row] by (simp add: add.commute)
  ultimately show ?thesis using row pre eqs by (intro that [of row]) auto
qed

lemma appendIntent_ok:
  assumes "appendIntent r ty payload ts db = Inr (n, d)"
  obtains row where "selectRunStateRow db r = Some row" and "d = snd (insertBodies r ts [EB_intent ty payload] db)"
    and "n = seqOf row" and "\<not> isImported db r"
  using assms insertBodies_spec(1) [of db r _ ts "[EB_intent ty payload]"]
  by (auto simp: appendIntent_def split_beta simp del: insertBodies.simps split: option.splits sum.splits if_splits intro: that)

lemma observe_ok:
  assumes "appendObservabilityEvents r events claim ts db = Inr (seqs, d)"
  obtains "d = db"
    | row bodies where "selectRunStateRow db r = Some row" and "insertBodies r ts bodies db = (seqs, d)"
      and "\<forall>e. claim = Some e \<longrightarrow> rr_claimEpoch row = e"
  using assms by (auto simp: appendObservabilityEvents_def checkClaim_ok split: option.splits sum.splits if_splits intro: that)

lemma claim_ok:
  assumes "claimNextRun limit pid now db = (Some (r, e), d)"
  obtains row where "selectNextQueuedRun db = Some (r, rn_version (rr_state row))" and "selectRunStateRow db r = Some row"
    and "rn_status (rr_state row) = St_queued" and "int (countDispatchableRunningRuns db) < limit"
    and "pid = None \<or> db_lockPid db = pid" and "e = rr_claimEpoch row + 1"
    and "d = setRow r \<lparr>rr_state = (rr_state row)\<lparr>rn_status := St_running, rn_nodeStartedAt := Some now,
                rn_version := rn_version (rr_state row) + 1, rn_updatedAt := now\<rparr>, rr_claimEpoch = rr_claimEpoch row + 1\<rparr> db"
  using assms
  by (auto simp: claimNextRun_def claimQueuedRun_def split: option.splits if_splits prod.splits intro: that)

lemma claim_none: "claimNextRun limit pid now db = (None, d) \<Longrightarrow> d = db"
  by (auto simp: claimNextRun_def split: option.splits if_splits prod.splits)

lemma enqueueTxn_ok:
  assumes "enqueueTxn p spill now db = Inr d"
  obtains db1 where "selectRunStateRow db (ep_runId p) = None" and "workflowExists db (ep_workflowSha p)"
    and "\<And>r. selectRunStateRow db1 r = selectRunStateRow db r" and "\<And>r. runEvents db1 r = runEvents db r"
    and "\<And>r. isImported db1 r = isImported db r" and "db_rows db1 = db_rows db" and "db_events db1 = db_events db"
    and "db_imported db1 = db_imported db"
    and "\<And>key. ep_checkoutPath p = Some key \<Longrightarrow> selectCheckoutHolder db key = None"
    and "d = snd (insertBodies (ep_runId p) now [EB_genesis (genesisPayload p (sr_routing spill))]
               (setRow (ep_runId p) (insertRunState p (sr_routing spill) now) db1))"
proof -
  let ?db1 = "foldl (\<lambda>d (_, sha, bytes). insertBlobIfAbsent sha bytes d) db (sr_spilled spill)"
  have "db_rows (insertBlobIfAbsent sha n d) = db_rows d" "db_events (insertBlobIfAbsent sha n d) = db_events d"
    "db_imported (insertBlobIfAbsent sha n d) = db_imported d" for sha n d by (simp_all add: insertBlobIfAbsent_def)
  then have "selectRunStateRow ?db1 r = selectRunStateRow db r" "runEvents ?db1 r = runEvents db r"
    "isImported ?db1 r = isImported db r" "db_rows ?db1 = db_rows db" "db_events ?db1 = db_events db"
    "db_imported ?db1 = db_imported db" for r
    by (simp_all add: split_beta foldl_keeps [where g = "\<lambda>d. selectRunStateRow d r"] foldl_keeps [where g = "\<lambda>d. runEvents d r"]
        foldl_keeps [where g = "\<lambda>d. isImported d r"] foldl_keeps [where g = db_rows]
        foldl_keeps [where g = db_events] foldl_keeps [where g = db_imported])
  then show ?thesis
    using assms
    by (intro that [of ?db1]) (auto simp: enqueueTxn_def simp del: insertBodies.simps split: if_splits option.splits)
qed

lemma enqueue_ok:
  assumes "enqueueRun pb sha lb p now db = Inr d"
  shows "enqueueTxn p (spillRoutingInputs sha lb (orElse (ep_initialRouting p) [])) now db = Inr d"
  using assms by (auto simp: enqueueRun_def Let_def split: if_splits sum.splits)

lemma release_ok: "releaseClaim r e prev alive ts snap db \<noteq> (False, db) \<Longrightarrow>
   \<exists>prev' ms. releaseClaim r e prev alive ts snap db = appendCrashRequeue r prev' alive ts ms (Some e) db"
  by (auto simp: releaseClaim_def split: option.splits if_splits)

lemma crashRequeue_ok:
  assumes "appendCrashRequeue r prev alive ts ms claim db = (True, d)" and "selectRunStateRow db r = Some row"
  shows "d = snd (insertBodies r ts [EB_fact (F_run_requeued_after_crash prev alive)] (setRow r (requeuedRow ts ts ms row) db))
     \<and> (\<forall>e. claim = Some e \<longrightarrow> rn_status (rr_state row) = St_running \<and> rr_claimEpoch row = e)"
  using assms
  by (auto simp: appendCrashRequeue_def updateRunStateReleasedClaim_def updateRunStateRequeuedAfterCrash_def
      simp del: insertBodies.simps split: option.splits if_splits)

lemma crashRequeue_false: "appendCrashRequeue r prev alive ts ms claim db = (False, d) \<Longrightarrow> d = db"
  by (auto simp: appendCrashRequeue_def split: option.splits)

section \<open>The operations of the store\<close>

record StoreEnv =
  env_factBytes :: "FactEvent \<Rightarrow> int"
  env_payloadBytes :: "RunEnqueuedPayload \<Rightarrow> int"
  env_sha256Hex :: "bytes \<Rightarrow> ustring"
  env_localeBefore :: "ustring \<Rightarrow> ustring \<Rightarrow> bool"

datatype (plugins only: code) StoreOp =
    Op_enqueue EnqueueRunParams number
  | Op_fact ustring "FactEvent list" int AppendFactOpts number
  | Op_intent ustring IntentType jsobj number
  | Op_intentWithFact ustring IntentType jsobj "FactEvent list" int number
  | Op_observe ustring "ObservabilityEvent list" "int option" number
  | Op_claim int "number option" number
  | Op_release ustring int "ustring option" "number option" number Db \<comment> \<open>with the database its first read saw\<close>
  | Op_title ustring ustring number
  | Op_quarantine number "ustring \<times> int list" \<comment> \<open>one heal of the startup sweep\<close>
  | Op_requeue number "number option" "ustring \<times> ustring option" \<comment> \<open>one heal of the startup sweep\<close>

definition committed :: "Db \<Rightarrow> StoreError + 'a \<times> Db \<Rightarrow> Db" where
  "committed db out = (case out of Inl _ \<Rightarrow> db | Inr (_, d) \<Rightarrow> d)"

fun runOp :: "StoreEnv \<Rightarrow> Db \<Rightarrow> StoreOp \<Rightarrow> Db" where
  "runOp env db (Op_enqueue p now) =
     (case enqueueRun (env_payloadBytes env) (env_sha256Hex env) (env_localeBefore env) p now db of Inl _ \<Rightarrow> db | Inr d \<Rightarrow> d)"
| "runOp env db (Op_fact r events v opts ts) = committed db (appendFact (env_factBytes env) (env_sha256Hex env) r events v opts ts db)"
| "runOp env db (Op_intent r ty payload ts) = committed db (appendIntent r ty payload ts db)"
| "runOp env db (Op_intentWithFact r ty payload facts v ts) =
     committed db (appendIntentWithFact (env_factBytes env) r ty payload facts v ts db)"
| "runOp env db (Op_observe r events claim ts) = committed db (appendObservabilityEvents r events claim ts db)"
| "runOp env db (Op_claim limit pid now) = snd (claimNextRun limit pid now db)"
| "runOp env db (Op_release r e prev alive ts snap) = snd (releaseClaim r e prev alive ts snap db)"
| "runOp env db (Op_title r title now) = setRunTitle r title now db"
| "runOp env db (Op_quarantine ts orphans) = snd (quarantineRun ts orphans db)"
| "runOp env db (Op_requeue ts alive r) = snd (requeueRun ts alive r db)"

definition freshStore :: "ustring list \<Rightarrow> ustring list \<Rightarrow> number option \<Rightarrow> Db" where
  "freshStore workflows imported lockPid =
     \<lparr>db_rows = [], db_events = [], db_outputs = [], db_blobs = [], db_imported = imported, db_workflows = workflows,
      db_lockPid = lockPid\<rparr>"

section \<open>What every history of operations respects\<close>

definition rowAdvance :: "RunRow \<Rightarrow> RunRow \<Rightarrow> bool" where
  "rowAdvance a b =
     (rn_version (rr_state b) = rn_version (rr_state a) + 1 \<and> rr_claimEpoch a \<le> rr_claimEpoch b
      \<and> fixedColumns (rr_state b) = fixedColumns (rr_state a)
      \<and> (rn_checkoutReleased (rr_state a) \<longrightarrow> rn_checkoutReleased (rr_state b)))"

definition titledRow :: "ustring \<Rightarrow> number \<Rightarrow> RunRow \<Rightarrow> RunRow" where
  "titledRow t now row = row\<lparr>rr_state := (rr_state row)\<lparr>rn_title := Some t, rn_updatedAt := now\<rparr>\<rparr>"

locale store_writes =
  fixes related :: "Db \<Rightarrow> Db \<Rightarrow> bool"
  assumes refl: "related d d"
    and trans: "related d d' \<Longrightarrow> related d' d'' \<Longrightarrow> related d d''"
    and silent: "db_rows d' = db_rows d \<Longrightarrow> db_events d' = db_events d \<Longrightarrow> db_imported d' = db_imported d \<Longrightarrow> related d d'"
    and inserted: "selectRunStateRow d r = Some row \<Longrightarrow> related d (snd (insertBodies r ts bs d))"
    and advanced: "keysOk d \<Longrightarrow> selectRunStateRow d r = Some a \<Longrightarrow> rowAdvance a b \<Longrightarrow> related d (setRow r b d)"
    and titled: "selectRunStateRow d r = Some a \<Longrightarrow> related d (setRow r (titledRow t now a) d)"
    and born: "selectRunStateRow d (ep_runId p) = None
       \<Longrightarrow> (\<And>key. ep_checkoutPath p = Some key \<Longrightarrow> selectCheckoutHolder d key = None)
       \<Longrightarrow> related d (setRow (ep_runId p) (insertRunState p routing now) d)"

lemma released_parts:
  assumes "rn_checkoutReleased s"
  shows "rn_checkoutReleased (applyDispatchStarted s p now)" "rn_checkoutReleased (applyNodeCompleted s q now)"
    "rn_checkoutReleased (applyNodeAborted s a now)" "rn_checkoutReleased (applyRunTerminated s t now)"
    "rn_checkoutReleased (applySnapshot s r)"
proof -
  show "rn_checkoutReleased (applyDispatchStarted s p now)"
    using assms by (cases "getFrontier (rn_routing s)") (simp_all add: applyDispatchStarted_def helper_defs Let_def)
  show "rn_checkoutReleased (applyNodeCompleted s q now)"
    using assms by (cases "getFrontier (rn_routing s)") (simp_all add: applyNodeCompleted_def helper_defs Let_def)
  show "rn_checkoutReleased (applyNodeAborted s a now)" using assms by (simp add: applyNodeAborted_def helper_defs Let_def)
  show "rn_checkoutReleased (applyRunTerminated s t now)"
    using assms by (cases t) (simp_all add: applyRunTerminated_release releaseUnstarted_def helper_defs Let_def)
  show "rn_checkoutReleased (applySnapshot s r)" using assms by (simp add: applySnapshot_def helper_defs Let_def)
qed

lemma released_applyFact: "rn_checkoutReleased s \<Longrightarrow> rn_checkoutReleased (applyFact s f now)"
  by (cases f) (simp_all add: applyFact_def Let_def released_parts helper_defs)

lemma released_fold: "rn_checkoutReleased s \<Longrightarrow> rn_checkoutReleased (foldFacts s fs now)"
  by (induction fs arbitrary: s) (simp_all add: foldFacts_def released_applyFact)

lemma released_next: "rn_checkoutReleased s \<Longrightarrow> rn_checkoutReleased (nextProjection s fs opts ts)"
  by (simp add: nextProjection_def Let_def released_fold split: option.split)

lemma fixed_projectOnto [simp]: "fixedColumns (projectOnto a b) = fixedColumns a"
  by (simp add: fixedColumns_def projectOnto_def)

lemma advance_project:
  "rn_version s = rn_version (rr_state a) + 1 \<Longrightarrow> 0 \<le> k \<Longrightarrow> (rn_checkoutReleased (rr_state a) \<Longrightarrow> rn_checkoutReleased s)
     \<Longrightarrow> rowAdvance a \<lparr>rr_state = projectOnto (rr_state a) s, rr_claimEpoch = rr_claimEpoch a + k\<rparr>"
  by (simp add: rowAdvance_def) (simp add: projectOnto_def)

lemma advance_rows:
  "rowAdvance a (requeuedRow ready now ms a)" "rowAdvance a (quarantinedRow now ms a)"
  "rowAdvance a \<lparr>rr_state = (rr_state a)\<lparr>rn_status := St_running, rn_nodeStartedAt := Some now,
      rn_version := rn_version (rr_state a) + 1, rn_updatedAt := now\<rparr>, rr_claimEpoch = rr_claimEpoch a + 1\<rparr>"
  by (simp_all add: rowAdvance_def requeuedRow_def quarantinedRow_def creditActive_def fixedColumns_def)

lemma keysOk_get: "keysOk d \<Longrightarrow> selectRunStateRow d r = Some row \<Longrightarrow> rn_runId (rr_state row) = r"
  by (simp add: keysOk_def)

lemma keysOk_bodies: "keysOk d \<Longrightarrow> selectRunStateRow d r = Some row \<Longrightarrow> keysOk (snd (insertBodies r ts bs d))"
  by (auto simp: keysOk_def insertBodies_spec(2) bumped_def)

lemma keysOk_set: "keysOk d \<Longrightarrow> rn_runId (rr_state b) = r \<Longrightarrow> keysOk (setRow r b d)"
  by (auto simp: keysOk_def select_setRow)

lemma keysOk_rows: "db_rows d' = db_rows d \<Longrightarrow> keysOk d \<Longrightarrow> keysOk d'"
  by (simp add: keysOk_def selectRunStateRow_def)

lemma rowAdvance_runId: "rowAdvance a b \<Longrightarrow> rn_runId (rr_state b) = rn_runId (rr_state a)"
  by (simp add: rowAdvance_def fixedColumns_def)

lemma insertSpills_tables:
  "db_rows (insertSpills r sps d) = db_rows d" "db_events (insertSpills r sps d) = db_events d"
  "db_imported (insertSpills r sps d) = db_imported d"
  by (rule insertSpills_keeps; simp add: insertBlobIfAbsent_def insertOutput_def)+

context store_writes
begin

lemma bodies: "related d (snd (insertBodies r ts bs d))"
proof (cases "selectRunStateRow d r")
  case None
  then show ?thesis by (cases bs) (simp_all add: bumpRunSeq_def refl)
qed (rule inserted)

lemma advance_then_bodies:
  "keysOk d \<Longrightarrow> selectRunStateRow d r = Some a \<Longrightarrow> rowAdvance a b \<Longrightarrow> related d (snd (insertBodies r ts bs (setRow r b d)))"
  by (rule trans [OF advanced bodies])

lemma bodies_then_advance:
  assumes "keysOk d" and "selectRunStateRow d r = Some a" and "rowAdvance (bumped (int (length bs)) a) b"
  shows "related d (setRow r b (snd (insertBodies r ts bs d)))"
proof (rule trans [OF bodies])
  show "related (snd (insertBodies r ts bs d)) (setRow r b (snd (insertBodies r ts bs d)))"
    by (rule advanced [OF keysOk_bodies [OF assms(1,2)] _ assms(3)]) (simp add: insertBodies_spec(2) [OF assms(2)])
qed

lemma fact_related:
  assumes "keysOk d" and "appendFact fb sha r events v opts ts d = Inr (res, d')"
  shows "related d d'"
  using assms(2,1)
proof (rule appendFact_ok)
  fix row
  let ?k = "int (length events)"
  assume row: "selectRunStateRow d r = Some row" and ck: "checkClaim (ao_claimEpoch opts) v row = Inr ()"
    and s: "ar_state res = nextProjection (rr_state row) (effectiveFacts sha events) opts ts"
    and d': "d' = setRow r \<lparr>rr_state = projectOnto (rr_state (bumped ?k row)) (ar_state res),
              rr_claimEpoch = rr_claimEpoch row + (if list_ex isRequeue (effectiveFacts sha events) then 1 else 0)\<rparr>
              (factsWritten sha r events ts d)"
  let ?d1 = "snd (insertBodies r ts (map EB_fact (effectiveFacts sha events)) d)"
  have k1: "keysOk (factsWritten sha r events ts d)" and r1: "selectRunStateRow (factsWritten sha r events ts d) r = Some (bumped ?k row)"
    using keysOk_rows [OF insertSpills_tables(1) keysOk_bodies [OF assms(1) row]]
    by (simp_all add: factsWritten_def insertBodies_spec(2) [OF row])
  have "related d ?d1" by (rule inserted [OF row])
  moreover have "related ?d1 (factsWritten sha r events ts d)"
    unfolding factsWritten_def by (rule silent) (simp_all add: insertSpills_tables)
  moreover have "rn_checkoutReleased (rr_state (bumped ?k row)) \<Longrightarrow> rn_checkoutReleased (ar_state res)"
    unfolding s by (rule released_next) (simp add: bumped_def)
  then have "related (factsWritten sha r events ts d) d'"
    unfolding d' using advance_project [of "ar_state res" "bumped ?k row" "if list_ex isRequeue (effectiveFacts sha events) then 1 else 0"]
    by (intro advanced [OF k1 r1]) (simp_all add: s)
  ultimately show ?thesis using trans by blast
qed

lemma intentWithFact_related:
  assumes "keysOk d" and "appendIntentWithFact fb r ty payload facts v ts d = Inr (res, d')"
  shows "related d d'"
proof -
  obtain n seqs v' where "appendIntentWithFact fb r ty payload facts v ts d = Inr ((n, seqs, v'), d')"
    using assms(2) by (metis prod_cases3)
  then show ?thesis using assms(1)
  proof (rule intentWithFact_ok)
    fix row
    let ?s = "(foldFacts (rr_state row) facts ts)\<lparr>rn_version := v + 1,
                   rn_lastAppliedSeq := (if selectHasPendingIntentBetween d r (rn_lastAppliedSeq (rr_state row)) (seqOf row)
                      then rn_lastAppliedSeq (rr_state row) else max (rn_lastAppliedSeq (rr_state row)) (seqOf row))\<rparr>"
    let ?a = "bumped (int (length (EB_intent ty payload # map EB_fact facts))) row"
    assume row: "selectRunStateRow d r = Some row" and v: "rn_version (rr_state row) = v"
      and d': "d' = setRow r \<lparr>rr_state = projectOnto (rr_state (bumped (int (length facts) + 1) row)) ?s, rr_claimEpoch = rr_claimEpoch row\<rparr>
              (snd (insertBodies r ts (EB_intent ty payload # map EB_fact facts) d))"
    have "rn_checkoutReleased (rr_state ?a) \<Longrightarrow> rn_checkoutReleased ?s" using released_fold [of "rr_state row"] by (simp add: bumped_def)
    then have "rowAdvance ?a \<lparr>rr_state = projectOnto (rr_state ?a) ?s, rr_claimEpoch = rr_claimEpoch ?a + 0\<rparr>"
      by (intro advance_project) (simp_all add: v)
    then show ?thesis unfolding d'
      by (intro bodies_then_advance [OF assms(1) row]) (simp add: add.commute)
  qed
qed

lemma claim_related:
  assumes "keysOk d"
  shows "related d (snd (claimNextRun limit pid now d))"
proof (cases "fst (claimNextRun limit pid now d)")
  case None
  then have "snd (claimNextRun limit pid now d) = d" using claim_none [of limit pid now d] by (metis prod.collapse)
  then show ?thesis by (simp add: refl)
next
  case (Some re)
  then have "claimNextRun limit pid now d = (Some (fst re, snd re), snd (claimNextRun limit pid now d))" by (metis prod.collapse)
  then show ?thesis
    by (rule claim_ok) (metis advanced [OF assms _ advance_rows(3)])
qed

lemma crashRequeue_related:
  assumes "keysOk d"
  shows "related d (snd (appendCrashRequeue r prev alive ts ms claim d))"
proof (cases "selectRunStateRow d r")
  case None
  then have "snd (appendCrashRequeue r prev alive ts ms claim d) = d"
    by (auto simp: appendCrashRequeue_def updateRunStateReleasedClaim_def updateRunStateRequeuedAfterCrash_def bumpRunSeq_def
        split: option.splits)
  then show ?thesis by (simp add: refl)
next
  case (Some row)
  show ?thesis
  proof (cases "fst (appendCrashRequeue r prev alive ts ms claim d)")
    case True
    then have "appendCrashRequeue r prev alive ts ms claim d = (True, snd (appendCrashRequeue r prev alive ts ms claim d))"
      by (metis prod.collapse)
    from crashRequeue_ok [OF this Some] show ?thesis
      by (metis advance_then_bodies [OF assms Some advance_rows(1)])
  next
    case False
    then have "snd (appendCrashRequeue r prev alive ts ms claim d) = d"
      using crashRequeue_false [of r prev alive ts ms claim d] by (metis prod.collapse)
    then show ?thesis by (simp add: refl)
  qed
qed

lemma release_related: "keysOk d \<Longrightarrow> related d (snd (releaseClaim r e prev alive ts snap d))"
  using release_ok [of r e prev alive ts snap d] crashRequeue_related [of d r _ alive ts _ "Some e"] refl [of d]
  by (metis snd_conv)

lemma requeueRun_related: "keysOk d \<Longrightarrow> related d (snd (requeueRun ts alive r d))"
  using crashRequeue_related refl by (simp add: requeueRun_def split: option.split)

lemma quarantine_related:
  assumes "keysOk d"
  shows "related d (snd (quarantineRun ts orphans d))"
proof (cases "fst (quarantineRun ts orphans d)")
  case True
  let ?bodies = "[EB_fact (F_run_quarantined QR_orphan_side_effect (Some (snd orphans)))]"
  let ?d = "snd (insertBodies (fst orphans) ts ?bodies d)"
  obtain row where row: "selectRunStateRow d (fst orphans) = Some row"
    and q: "snd (quarantineRun ts orphans d) = updateRunStateQuarantinedBySweep (fst orphans) ts
      (dispatchIntervalActiveMsDelta (rn_dispatchStartedAt (rr_state row)) ts) ?d"
    using True by (auto simp: quarantineRun_def simp del: insertBodies.simps split: option.splits if_splits)
  have "selectRunStateRow ?d (fst orphans) = Some (bumped (int (length ?bodies)) row)"
    by (subst insertBodies_spec(2) [OF row]) simp
  then show ?thesis
    unfolding q updateRunStateQuarantinedBySweep_def
    by (simp only: option.case) (rule bodies_then_advance [OF assms row advance_rows(2)])
next
  case False
  then have "snd (quarantineRun ts orphans d) = d"
    by (auto simp: quarantineRun_def simp del: insertBodies.simps split: option.splits if_splits)
  then show ?thesis by (simp add: refl)
qed

lemma title_related: "related d (setRunTitle r title now d)"
  using titled [unfolded titledRow_def] refl by (simp add: setRunTitle_def updateRunStateTitle_def split: option.split)

lemma intent_related: "appendIntent r ty payload ts d = Inr (n, d') \<Longrightarrow> related d d'"
  by (erule appendIntent_ok) (simp only: bodies)

lemma observe_related: "appendObservabilityEvents r events claim ts d = Inr (seqs, d') \<Longrightarrow> related d d'"
  by (erule observe_ok) (metis refl, metis bodies snd_conv)

lemma enqueue_related:
  assumes "enqueueRun pb sha lb p now d = Inr d'"
  shows "related d d'"
  using enqueue_ok [OF assms]
proof (rule enqueueTxn_ok)
  let ?spill = "spillRoutingInputs sha lb (orElse (ep_initialRouting p) [])"
  fix db1
  assume new: "selectRunStateRow d (ep_runId p) = None" and same: "\<And>r. selectRunStateRow db1 r = selectRunStateRow d r"
    and tables: "db_rows db1 = db_rows d" "db_events db1 = db_events d" "db_imported db1 = db_imported d"
    and free: "\<And>key. ep_checkoutPath p = Some key \<Longrightarrow> selectCheckoutHolder d key = None"
    and d': "d' = snd (insertBodies (ep_runId p) now [EB_genesis (genesisPayload p (sr_routing ?spill))]
              (setRow (ep_runId p) (insertRunState p (sr_routing ?spill) now) db1))"
  have "holdsCheckout db1 = holdsCheckout d" by (intro ext) (simp add: holdsCheckout_def isImported_def tables)
  then have "selectCheckoutHolder db1 = selectCheckoutHolder d" by (intro ext) (simp add: selectCheckoutHolder_def tables)
  then have "related db1 (setRow (ep_runId p) (insertRunState p (sr_routing ?spill) now) db1)"
    using new free by (intro born) (simp_all add: same)
  moreover have "related d db1" by (rule silent) (simp_all add: tables)
  ultimately show ?thesis unfolding d' using trans bodies by blast
qed

lemma runOp_related:
  assumes "keysOk d"
  shows "related d (runOp env d op)"
proof (cases op)
  case (Op_enqueue p now)
  then show ?thesis using enqueue_related refl by (simp split: sum.split)
next
  case (Op_fact r events v opts ts)
  then show ?thesis using fact_related [OF assms] refl by (simp add: committed_def split: sum.split)
next
  case (Op_intent r ty payload ts)
  then show ?thesis using intent_related refl by (simp add: committed_def split: sum.split)
next
  case (Op_intentWithFact r ty payload facts v ts)
  then show ?thesis using intentWithFact_related [OF assms] refl by (simp add: committed_def split: sum.split)
next
  case (Op_observe r events claim ts)
  then show ?thesis using observe_related refl by (simp add: committed_def split: sum.split)
qed (simp_all add: claim_related release_related title_related quarantine_related requeueRun_related assms)

end

section \<open>Keys\<close>

interpretation keyed: store_writes "\<lambda>d d'. keysOk d \<longrightarrow> keysOk d'"
proof unfold_locales
  fix d d' :: Db
  assume "db_rows d' = db_rows d"
  then show "keysOk d \<longrightarrow> keysOk d'" using keysOk_rows by blast
next
  fix d r a b
  assume "selectRunStateRow d r = Some a" and "rowAdvance a b"
  then show "keysOk d \<longrightarrow> keysOk (setRow r b d)" using keysOk_set keysOk_get rowAdvance_runId by metis
next
  fix d r t now and a :: RunRow
  assume "selectRunStateRow d r = Some a"
  then show "keysOk d \<longrightarrow> keysOk (setRow r (titledRow t now a) d)"
    using keysOk_get by (auto simp: titledRow_def intro!: keysOk_set)
next
  fix d p routing now
  show "keysOk d \<longrightarrow> keysOk (setRow (ep_runId p) (insertRunState p routing now) d)"
    by (auto simp: insertRunState_def intro!: keysOk_set)
qed (auto intro: keysOk_bodies)

lemma runOp_keys: "keysOk d \<Longrightarrow> keysOk (runOp env d op)"
  using keyed.runOp_related by blast

lemma history_keys: "keysOk d \<Longrightarrow> keysOk (foldl (runOp env) d ops)"
  by (induction ops arbitrary: d) (simp_all add: runOp_keys)

context store_writes
begin

lemma history_related: "keysOk d \<Longrightarrow> related d (foldl (runOp env) d ops)"
proof (induction ops arbitrary: d)
  case (Cons op ops)
  then show ?case using trans [OF runOp_related [OF Cons.prems] Cons.IH [OF runOp_keys [OF Cons.prems]]] by simp
qed (simp add: refl)

end

end
