(* ===== verification/Store_Example.thy ===== *)
theory Store_Example
  imports Store_Writes
begin

text \<open>
  A small store and its first operations, evaluated: one workflow, one run bound to a checkout, enqueued,
  claimed, requeued by the startup sweep and claimed again. The witnesses of the store's properties use it.
\<close>

definition exEnv :: StoreEnv where
  "exEnv = \<lparr>env_factBytes = (\<lambda>_. 100), env_payloadBytes = (\<lambda>_. 100), env_sha256Hex = (\<lambda>_. []), env_localeBefore = (\<lambda>_ _. False)\<rparr>"

definition exParams :: EnqueueRunParams where
  "exParams =
     \<lparr>ep_runId = [1], ep_workflowSha = [2], ep_priority = None, ep_initialRouting = None, ep_cwd = None,
      ep_projectId = Some [4], ep_projectName = Some [5], ep_workflowName = None, ep_workflowScope = None,
      ep_workflowPath = None, ep_scheduleId = None, ep_title = None, ep_baseGitSha = None, ep_baseGitRef = None,
      ep_baseHeadSha = None, ep_inCheckout = True, ep_checkoutPath = Some [3]\<rparr>"

definition exStore :: Db where "exStore = freshStore [[2]] [] None"

definition exQueued :: RunRow where "exQueued = bumped 1 (insertRunState exParams [] 10)"

definition exRunning :: "number \<Rightarrow> RunRow \<Rightarrow> RunRow" where
  "exRunning now row =
     \<lparr>rr_state = (rr_state row)\<lparr>rn_status := St_running, rn_nodeStartedAt := Some now, rn_version := rn_version (rr_state row) + 1,
        rn_updatedAt := now\<rparr>, rr_claimEpoch = rr_claimEpoch row + 1\<rparr>"

definition exEnqueued :: Db where
  "exEnqueued = insertEvent [1] 1 (EB_genesis (genesisPayload exParams [])) 10 (setRow [1] exQueued exStore)"

definition exClaimed :: Db where "exClaimed = setRow [1] (exRunning 20 exQueued) exEnqueued"

lemma small_routing: "routingBytes [] < MAX_ROUTING_BYTES"
proof -
  have "byteLength (JSON_stringify (JObj [])) \<le> 3 * length (JSON_stringify (JObj []))" by (rule byteLength_le)
  then show ?thesis by (simp add: routingBytes_def MAX_ROUTING_BYTES_def ustr ujoin_def)
qed

lemmas ex_eval = exStore_def freshStore_def exQueued_def exParams_def bumped_def insertRunState_def emptyMetrics_def
  selectRunStateRow_def setRow_def insertEvent_def isImported_def exRunning_def exEnqueued_def exClaimed_def

lemma ex_enqueue: "enqueueRun (\<lambda>_. 100) (\<lambda>_. []) (\<lambda>_ _. False) exParams 10 exStore = Inr exEnqueued"
proof -
  have "spillRoutingInputs (\<lambda>_. []) (\<lambda>_ _. False) [] = \<lparr>sr_routing = [], sr_spilled = [], sr_puts = []\<rparr>"
    by (simp add: spillRoutingInputs_def readRawInputs_def)
  moreover have "selectCheckoutHolder exStore [3] = None"
    by (simp add: selectCheckoutHolder_def firstInOrder_def exStore_def freshStore_def)
  ultimately show ?thesis
    using small_routing
    by (simp add: enqueueRun_def enqueueTxn_def Let_def orElse_def validateSize_def MAX_EVENT_PAYLOAD_BYTES_def ex_eval
        workflowExists_def bumpRunSeq_def)
qed

lemma ex_claim: "claimNextRun 5 None 20 exEnqueued = (Some ([1], 1), exClaimed)"
  by (simp add: claimNextRun_def claimQueuedRun_def countDispatchableRunningRuns_def selectNextQueuedRun_def firstInOrder_def
      isQueuedHere_def ex_eval)

lemma ex_requeue: "\<exists>d. claimNextRun 5 None 40 (runOp exEnv exClaimed (Op_requeue 30 None ([1], None))) = (Some ([1], 3), d)"
  by (simp add: claimNextRun_def claimQueuedRun_def countDispatchableRunningRuns_def selectNextQueuedRun_def firstInOrder_def
      requeueRun_def appendCrashRequeue_def updateRunStateRequeuedAfterCrash_def requeuedRow_def creditActive_def
      bumpRunSeq_def isQueuedHere_def ex_eval)

lemma ex_prepare:
  "\<exists>p. prepareFact (\<lambda>_. 100) (\<lambda>_. []) exClaimed [1] [F_run_requeued_after_crash None None] 2 noOpts 30 = Inr p"
  using small_routing
  by (simp add: prepareFact_def Let_def checkRouting_def noOpts_def checkClaim_def validateSize_def MAX_EVENT_PAYLOAD_BYTES_def
      spillOutputs_def nextProjection_def foldFacts_def applyFact_def helper_defs ex_eval)

end
