(* ===== verification/Store_Spend.thy ===== *)
theory Store_Spend
  imports Store_Example
begin

text \<open>
  The bill of a run. The totals of a row are kept by the projection the writer folds, by the SQL of the
  sweep and of a released claim, and by the row an enqueue inserts; this theory shows that together they never lose or add
  spend against the log.
\<close>

definition bodyUsage :: "UsageField \<Rightarrow> EventBody \<Rightarrow> number" where
  "bodyUsage u b = (case b of EB_fact f \<Rightarrow> factUsage u f | _ \<Rightarrow> 0)"

definition loggedUsage :: "UsageField \<Rightarrow> EventRow list \<Rightarrow> number" where
  "loggedUsage u es = sum_list (map (bodyUsage u \<circ> er_body) es)"

definition rowUsage :: "UsageField \<Rightarrow> RunRow \<Rightarrow> number" where
  "rowUsage u row = totalOf u (rn_metrics (rr_state row))"

lemma loggedUsage_eventRows: "loggedUsage u (es @ eventRows r ts n bs) = loggedUsage u es + sum_list (map (bodyUsage u) bs)"
proof -
  have "map (bodyUsage u \<circ> er_body) (eventRows r ts n bs) = map (bodyUsage u) bs"
    by (induction bs arbitrary: n) simp_all
  then show ?thesis by (simp add: loggedUsage_def)
qed

lemma bodyUsage_simps [simp]:
  "bodyUsage u (EB_fact f) = factUsage u f" "bodyUsage u (EB_genesis p) = 0" "bodyUsage u (EB_intent ty j) = 0" "bodyUsage u (EB_obs ty' j) = 0"
  "map (bodyUsage u) (map EB_fact fs) = map (factUsage u) fs"
  by (simp_all add: bodyUsage_def)

definition billOk :: "UsageField \<Rightarrow> Db \<Rightarrow> bool" where
  "billOk u d = (\<forall>r row. selectRunStateRow d r = Some row \<longrightarrow> rowUsage u row = loggedUsage u (runEvents d r))"

definition wroteRow :: "Db \<Rightarrow> ustring \<Rightarrow> RunRow \<Rightarrow> EventRow list \<Rightarrow> Db \<Rightarrow> bool" where
  "wroteRow d r b es d' =
     (\<forall>q. selectRunStateRow d' q = (if q = r then Some b else selectRunStateRow d q)
        \<and> runEvents d' q = runEvents d q @ (if q = r then es else []))"

lemma billOk_wrote:
  assumes "billOk u d" and "selectRunStateRow d r = Some a" and "wroteRow d r b (eventRows r ts n bs) d'"
    and "rowUsage u b = rowUsage u a + sum_list (map (bodyUsage u) bs)"
  shows "billOk u d'"
  using assms by (auto simp: billOk_def wroteRow_def loggedUsage_eventRows)

lemma wrote_bodies:
  "selectRunStateRow d r = Some a \<Longrightarrow> wroteRow d r (bumped (int (length bs)) a) (eventRows r ts (seqOf a) bs) (snd (insertBodies r ts bs d))"
  by (simp add: wroteRow_def insertBodies_spec)

lemma wrote_set: "wroteRow d r a es d' \<Longrightarrow> wroteRow d r b es (setRow r b d')"
  by (simp add: wroteRow_def select_setRow)

lemma usage_rows [simp]:
  "rowUsage u (bumped k a) = rowUsage u a" "rowUsage u (requeuedRow ready now ms a) = rowUsage u a"
  "rowUsage u (quarantinedRow now ms a) = rowUsage u a" "rowUsage u (titledRow t now a) = rowUsage u a"
  by (simp_all add: rowUsage_def bumped_def requeuedRow_def quarantinedRow_def titledRow_def creditActive_def)

lemma usage_next: "totalOf u (rn_metrics (nextProjection s fs opts ts)) = totalOf u (rn_metrics s) + sum_list (map (factUsage u) fs)"
  by (simp add: nextProjection_def Let_def foldFacts_total split: option.split)

lemma bill_bodies:
  assumes "billOk u d" and "\<And>b. b \<in> set bs \<Longrightarrow> bodyUsage u b = 0"
  shows "billOk u (snd (insertBodies r ts bs d))"
proof (cases "selectRunStateRow d r")
  case None
  then show ?thesis using assms(1) by (cases bs) (simp_all add: bumpRunSeq_def)
next
  case (Some a)
  have "sum_list (map (bodyUsage u) bs) = 0" using assms(2) by (induction bs) simp_all
  then show ?thesis by (intro billOk_wrote [OF assms(1) Some wrote_bodies [OF Some]]) simp
qed

lemma bill_fact:
  assumes "appendFact fb sha r events v opts ts d = Inr (res, d')" and "keysOk d" and "billOk u d"
  shows "billOk u d'"
  using assms(1,2)
proof (rule appendFact_ok)
  fix a
  let ?fs = "effectiveFacts sha events"
  let ?b = "\<lparr>rr_state = projectOnto (rr_state (bumped (int (length events)) a)) (ar_state res),
              rr_claimEpoch = rr_claimEpoch a + (if list_ex isRequeue ?fs then 1 else 0)\<rparr>"
  assume a: "selectRunStateRow d r = Some a" and s: "ar_state res = nextProjection (rr_state a) ?fs opts ts"
    and d': "d' = setRow r ?b (factsWritten sha r events ts d)"
  have "wroteRow d r (bumped (int (length ?fs)) a) (eventRows r ts (seqOf a) (map EB_fact ?fs)) (factsWritten sha r events ts d)"
    using wrote_bodies [OF a, of "map EB_fact ?fs" ts] by (simp add: wroteRow_def factsWritten_def)
  then have "wroteRow d r ?b (eventRows r ts (seqOf a) (map EB_fact ?fs)) d'" unfolding d' by (rule wrote_set)
  moreover have "rowUsage u ?b = rowUsage u a + sum_list (map (bodyUsage u) (map EB_fact ?fs))"
    unfolding bodyUsage_simps(5) by (simp add: rowUsage_def projectOnto_def s usage_next)
  ultimately show ?thesis by (rule billOk_wrote [OF assms(3) a])
qed

lemma bill_intentWithFact:
  assumes "appendIntentWithFact fb r ty payload facts v ts d = Inr ((n, seqs, v'), d')" and "keysOk d" and "billOk u d"
  shows "billOk u d'"
  using assms(1,2)
proof (rule intentWithFact_ok)
  fix a
  let ?bodies = "EB_intent ty payload # map EB_fact facts"
  let ?s = "(foldFacts (rr_state a) facts ts)\<lparr>rn_version := v + 1,
                   rn_lastAppliedSeq := (if selectHasPendingIntentBetween d r (rn_lastAppliedSeq (rr_state a)) (seqOf a)
                      then rn_lastAppliedSeq (rr_state a) else max (rn_lastAppliedSeq (rr_state a)) (seqOf a))\<rparr>"
  let ?b = "\<lparr>rr_state = projectOnto (rr_state (bumped (int (length facts) + 1) a)) ?s, rr_claimEpoch = rr_claimEpoch a\<rparr>"
  assume a: "selectRunStateRow d r = Some a" and d': "d' = setRow r ?b (snd (insertBodies r ts ?bodies d))"
  have "wroteRow d r ?b (eventRows r ts (seqOf a) ?bodies) d'" unfolding d' by (rule wrote_set [OF wrote_bodies [OF a]])
  moreover have "rowUsage u ?b = rowUsage u a + sum_list (map (bodyUsage u) ?bodies)"
    by (simp add: rowUsage_def projectOnto_def foldFacts_total comp_def)
  ultimately show ?thesis by (rule billOk_wrote [OF assms(3) a])
qed

lemma bill_set_then_bodies:
  assumes "billOk u d" and "selectRunStateRow d r = Some a" and "rowUsage u b = rowUsage u a" and "\<And>x. x \<in> set bs \<Longrightarrow> bodyUsage u x = 0"
  shows "billOk u (snd (insertBodies r ts bs (setRow r b d)))"
proof (rule bill_bodies [OF _ assms(4)])
  have "wroteRow d r b (eventRows r ts 0 []) (setRow r b d)" by (simp add: wroteRow_def select_setRow)
  then show "billOk u (setRow r b d)" by (rule billOk_wrote [OF assms(1,2)]) (simp add: assms(3))
qed

lemma bill_set: "billOk u d \<Longrightarrow> selectRunStateRow d r = Some a \<Longrightarrow> rowUsage u b = rowUsage u a \<Longrightarrow> billOk u (setRow r b d)"
  using bill_set_then_bodies [of u d r a b "[]"] by simp

lemma bill_crashRequeue: "billOk u d \<Longrightarrow> billOk u (snd (appendCrashRequeue r prev alive ts ms claim d))"
proof (cases "selectRunStateRow d r")
  case None
  assume "billOk u d"
  then show ?thesis using None
    by (auto simp: appendCrashRequeue_def updateRunStateReleasedClaim_def updateRunStateRequeuedAfterCrash_def bumpRunSeq_def
        split: option.splits)
next
  case (Some a)
  assume ok: "billOk u d"
  show ?thesis
  proof (cases "fst (appendCrashRequeue r prev alive ts ms claim d)")
    case True
    then have "appendCrashRequeue r prev alive ts ms claim d = (True, snd (appendCrashRequeue r prev alive ts ms claim d))"
      by (metis prod.collapse)
    from crashRequeue_ok [OF this Some] have "snd (appendCrashRequeue r prev alive ts ms claim d)
        = snd (insertBodies r ts [EB_fact (F_run_requeued_after_crash prev alive)] (setRow r (requeuedRow ts ts ms a) d))" by blast
    moreover have "billOk u \<dots>" by (rule bill_set_then_bodies [OF ok Some]) (simp_all add: factUsage_def)
    ultimately show ?thesis by simp
  next
    case False
    then show ?thesis using ok crashRequeue_false [of r prev alive ts ms claim d] by (metis prod.collapse)
  qed
qed

lemma bill_quarantine: "billOk u d \<Longrightarrow> billOk u (snd (quarantineRun ts orphans d))"
proof (cases "selectRunStateRow d (fst orphans)")
  case (Some a)
  assume ok: "billOk u d"
  let ?bodies = "[EB_fact (F_run_quarantined QR_orphan_side_effect (Some (snd orphans)))]"
  have ok1: "billOk u (snd (insertBodies (fst orphans) ts ?bodies d))" by (rule bill_bodies [OF ok]) (simp add: factUsage_def)
  have row1: "selectRunStateRow (snd (insertBodies (fst orphans) ts ?bodies d)) (fst orphans) = Some (bumped (int (length ?bodies)) a)"
    by (subst insertBodies_spec(2) [OF Some]) simp
  have "billOk u (updateRunStateQuarantinedBySweep (fst orphans) ts ms (snd (insertBodies (fst orphans) ts ?bodies d)))" for ms
    unfolding updateRunStateQuarantinedBySweep_def row1 option.case by (rule bill_set [OF ok1 row1]) simp
  then show ?thesis using ok Some by (simp add: quarantineRun_def del: insertBodies.simps)
qed (simp add: quarantineRun_def)

lemma bill_enqueue:
  assumes "enqueueRun pb sha lb p now d = Inr d'" and ok: "billOk u d" and fresh: "\<And>r. selectRunStateRow d r = None \<Longrightarrow> runEvents d r = []"
  shows "billOk u d'"
  using enqueue_ok [OF assms(1)]
proof (rule enqueueTxn_ok)
  let ?b = "insertRunState p (sr_routing (spillRoutingInputs sha lb (orElse (ep_initialRouting p) []))) now"
  fix db1
  assume new: "selectRunStateRow d (ep_runId p) = None" and same: "\<And>r. selectRunStateRow db1 r = selectRunStateRow d r"
    "\<And>r. runEvents db1 r = runEvents d r"
    and d': "d' = snd (insertBodies (ep_runId p) now
        [EB_genesis (genesisPayload p (sr_routing (spillRoutingInputs sha lb (orElse (ep_initialRouting p) []))))] (setRow (ep_runId p) ?b db1))"
  have "rowUsage u ?b = 0" by (cases u) (simp_all add: rowUsage_def insertRunState_def emptyMetrics_def)
  then have "billOk u (setRow (ep_runId p) ?b db1)"
    using ok fresh [OF new] by (auto simp: billOk_def select_setRow same loggedUsage_def)
  then show ?thesis unfolding d' by (rule bill_bodies) simp
qed

lemma prepareObs_usage: "prepareObs es = Inr bs \<Longrightarrow> b \<in> set bs \<Longrightarrow> bodyUsage u b = 0"
  by (induction es arbitrary: bs) (auto simp: Let_def split: if_splits sum.splits)

lemma runOp_bill:
  assumes "keysOk d" and "billOk u d" and "\<And>r. selectRunStateRow d r = None \<Longrightarrow> runEvents d r = []"
  shows "billOk u (runOp env d op)"
proof (cases op)
  case (Op_enqueue p now)
  then show ?thesis using bill_enqueue [OF _ assms(2,3)] assms(2) by (simp split: sum.split)
next
  case (Op_fact r events v opts ts)
  then show ?thesis using bill_fact [OF _ assms(1,2)] assms(2) by (simp add: committed_def split: sum.split)
next
  case (Op_intent r ty payload ts)
  have "billOk u (snd (insertBodies r ts [EB_intent ty payload] d))" by (rule bill_bodies [OF assms(2)]) simp
  then show ?thesis using Op_intent assms(2)
    by (auto simp: committed_def appendIntent_def split_beta simp del: insertBodies.simps split: sum.splits option.splits if_splits)
next
  case (Op_intentWithFact r ty payload facts v ts)
  then show ?thesis using bill_intentWithFact [OF _ assms(1,2)] assms(2) by (auto simp: committed_def split: sum.split)
next
  case (Op_observe r events claim ts)
  have "billOk u (snd (insertBodies r ts bs d))" if "prepareObs events = Inr bs" for bs
    by (rule bill_bodies [OF assms(2)]) (rule prepareObs_usage [OF that])
  then show ?thesis using Op_observe assms(2)
    by (auto simp: committed_def appendObservabilityEvents_def split: sum.splits option.splits if_splits)
next
  case (Op_claim limit pid now)
  show ?thesis
  proof (cases "fst (claimNextRun limit pid now d)")
    case None
    then show ?thesis using claim_none [of limit pid now d] assms(2) Op_claim by (metis prod.collapse runOp.simps(6))
  next
    case (Some re)
    then have "claimNextRun limit pid now d = (Some (fst re, snd re), snd (claimNextRun limit pid now d))" by (metis prod.collapse)
    then show ?thesis
    proof (rule claim_ok)
      fix row
      assume "selectRunStateRow d (fst re) = Some row"
        and "snd (claimNextRun limit pid now d) = setRow (fst re) \<lparr>rr_state = (rr_state row)\<lparr>rn_status := St_running, rn_nodeStartedAt := Some now,
                rn_version := rn_version (rr_state row) + 1, rn_updatedAt := now\<rparr>, rr_claimEpoch = rr_claimEpoch row + 1\<rparr> d"
      then show ?thesis using Op_claim by (auto intro!: bill_set [OF assms(2)] simp: rowUsage_def)
    qed
  qed
next
  case (Op_release r e prev alive ts snap)
  then show ?thesis using release_ok [of r e prev alive ts snap d] bill_crashRequeue [OF assms(2)] assms(2)
    by (metis runOp.simps(7) snd_conv)
next
  case (Op_title r title now)
  then show ?thesis using assms(2) bill_set [OF assms(2)] usage_rows(4)
    by (auto simp: setRunTitle_def updateRunStateTitle_def titledRow_def split: option.split)
next
  case (Op_quarantine ts orphans)
  then show ?thesis by (simp add: bill_quarantine [OF assms(2)])
next
  case (Op_requeue ts alive r)
  then show ?thesis using assms(2) by (simp add: requeueRun_def bill_crashRequeue split: option.split)
qed

end
