(* ===== verification/Store_Properties.thy ===== *)
theory Store_Properties
  imports Store_Spend
begin

text \<open>
  What the store promises. The invariants are interpretations of \<open>store_writes\<close>: rows only move
  forward, the log of a run has no gap and loses nothing, one run holds a checkout. The commits that fold
  outside the write lock are shown to be serializable against every other writer: a system in which
  prepared writes wait while others commit refines the one in which every operation is atomic.
\<close>

section \<open>Rows move forward\<close>

definition evolved :: "RunRow \<Rightarrow> RunRow \<Rightarrow> bool" where
  \<comment> \<open>a row moves its version up, or keeps everything a fold reads\<close>
  "evolved a b =
     (rr_claimEpoch a \<le> rr_claimEpoch b
      \<and> (rn_version (rr_state a) < rn_version (rr_state b)
         \<or> (rn_version (rr_state a) = rn_version (rr_state b) \<and> rr_claimEpoch a = rr_claimEpoch b
            \<and> (\<exists>n t u. rr_state b = relabel n t ((rr_state a)\<lparr>rn_updatedAt := u\<rparr>)))))"

lemma relabel_twice: "relabel n t ((relabel m k (s\<lparr>rn_updatedAt := u\<rparr>))\<lparr>rn_updatedAt := v\<rparr>) = relabel n t (s\<lparr>rn_updatedAt := v\<rparr>)"
  by (simp add: relabel_def)

lemma relabel_same: "relabel (rn_nextSeq s) (rn_title s) (s\<lparr>rn_updatedAt := rn_updatedAt s\<rparr>) = s"
  by (simp add: relabel_def)

lemma evolved_refl: "evolved a a"
  unfolding evolved_def by (metis relabel_same order_refl)

lemma evolved_trans:
  assumes "evolved a b" and "evolved b c"
  shows "evolved a c"
proof -
  let ?same = "\<lambda>x y. rn_version (rr_state x) = rn_version (rr_state y) \<and> rr_claimEpoch x = rr_claimEpoch y
    \<and> (\<exists>n t u. rr_state y = relabel n t ((rr_state x)\<lparr>rn_updatedAt := u\<rparr>))"
  have "?same a c" if ab: "?same a b" and bc: "?same b c"
  proof -
    obtain n t u where "rr_state b = relabel n t ((rr_state a)\<lparr>rn_updatedAt := u\<rparr>)" using ab by blast
    moreover obtain n' t' u' where "rr_state c = relabel n' t' ((rr_state b)\<lparr>rn_updatedAt := u'\<rparr>)" using bc by blast
    ultimately have "rr_state c = relabel n' t' ((rr_state a)\<lparr>rn_updatedAt := u'\<rparr>)" by (simp add: relabel_twice)
    then show ?thesis using ab bc by auto
  qed
  then show ?thesis using assms unfolding evolved_def by (smt (verit, best) order_trans order_less_trans)
qed

lemma evolved_bumped: "evolved a (bumped k a)"
proof -
  have "rr_state (bumped k a) = relabel (seqOf a + k) (rn_title (rr_state a)) ((rr_state a)\<lparr>rn_updatedAt := rn_updatedAt (rr_state a)\<rparr>)"
    by (simp add: bumped_def relabel_def)
  then show ?thesis unfolding evolved_def by (metis bumped_simps(1,3) order_refl)
qed

lemma evolved_titled: "evolved a (titledRow t now a)"
proof -
  have "rr_state (titledRow t now a) = relabel (rn_nextSeq (rr_state a)) (Some t) ((rr_state a)\<lparr>rn_updatedAt := now\<rparr>)"
    "rr_claimEpoch (titledRow t now a) = rr_claimEpoch a" "rn_version (rr_state (titledRow t now a)) = rn_version (rr_state a)"
    by (simp_all add: relabel_def titledRow_def)
  then show ?thesis unfolding evolved_def by (metis order_refl)
qed

definition rowGrows :: "Db \<Rightarrow> Db \<Rightarrow> ustring \<Rightarrow> RunRow \<Rightarrow> RunRow \<Rightarrow> bool" where
  "rowGrows d d' r a b = (evolved a b \<and> seqOf a \<le> seqOf b \<and> (seqOf a = seqOf b \<longrightarrow> runEvents d' r = runEvents d r))"

definition storeGrows :: "Db \<Rightarrow> Db \<Rightarrow> bool" where
  "storeGrows d d' =
     (\<forall>r a. selectRunStateRow d r = Some a \<longrightarrow> (\<exists>b. selectRunStateRow d' r = Some b \<and> rowGrows d d' r a b))"

lemma rowGrows_trans:
  assumes ab: "rowGrows d d' r a b" and bc: "rowGrows d' d'' r b c"
  shows "rowGrows d d'' r a c"
proof -
  have "evolved a b" "evolved b c" using ab bc by (simp_all add: rowGrows_def)
  then have "evolved a c" by (rule evolved_trans)
  moreover have "seqOf a \<le> seqOf b" "seqOf b \<le> seqOf c" using ab bc by (simp_all add: rowGrows_def)
  moreover have "runEvents d'' r = runEvents d r" if "seqOf a = seqOf c"
  proof -
    have "seqOf a = seqOf b" "seqOf b = seqOf c" using that calculation by simp_all
    then show ?thesis using ab bc by (simp add: rowGrows_def)
  qed
  ultimately show ?thesis by (simp add: rowGrows_def)
qed

lemma storeGrows_set:
  "selectRunStateRow d r = Some a \<Longrightarrow> evolved a b \<Longrightarrow> seqOf b = seqOf a \<Longrightarrow> storeGrows d (setRow r b d)"
  by (auto simp: storeGrows_def rowGrows_def select_setRow evolved_refl)

interpretation growing: store_writes storeGrows
proof unfold_locales
  fix d show "storeGrows d d" by (simp add: storeGrows_def rowGrows_def evolved_refl)
next
  fix d d' d'' assume "storeGrows d d'" and "storeGrows d' d''"
  then show "storeGrows d d''" unfolding storeGrows_def using rowGrows_trans by blast
next
  fix d d' :: Db assume "db_rows d' = db_rows d" and "db_events d' = db_events d"
  then show "storeGrows d d'" by (simp add: storeGrows_def rowGrows_def evolved_refl selectRunStateRow_def runEvents_def)
next
  fix d r row ts and bs :: "EventBody list" assume row: "selectRunStateRow d r = Some row"
  have "bs = [] \<or> 0 < int (length bs)" by auto
  then show "storeGrows d (snd (insertBodies r ts bs d))"
    by (auto simp: storeGrows_def rowGrows_def insertBodies_spec(2,3) [OF row] evolved_refl evolved_bumped row)
next
  fix d r a b assume a: "selectRunStateRow d r = Some a" and ab: "rowAdvance a b"
  have "evolved a b" "seqOf b = seqOf a" using ab by (auto simp: rowAdvance_def evolved_def fixedColumns_def)
  with a show "storeGrows d (setRow r b d)" by (rule storeGrows_set)
next
  fix d r t now and a :: RunRow assume "selectRunStateRow d r = Some a"
  then show "storeGrows d (setRow r (titledRow t now a) d)" by (rule storeGrows_set [OF _ evolved_titled]) (simp add: titledRow_def)
next
  fix d routing now and p :: EnqueueRunParams assume "selectRunStateRow d (ep_runId p) = None"
  then show "storeGrows d (setRow (ep_runId p) (insertRunState p routing now) d)"
    by (auto simp: storeGrows_def rowGrows_def select_setRow evolved_refl)
qed

section \<open>The log\<close>

definition logOk :: "Db \<Rightarrow> bool" where
  \<comment> \<open>the events of a run are numbered 1, 2, \<dots> up to the counter of its row, in order\<close>
  "logOk d =
     (\<forall>r. map er_seq (runEvents d r) = (case selectRunStateRow d r of Some row \<Rightarrow> [1..seqOf row - 1] | None \<Rightarrow> [])
        \<and> (\<forall>row. selectRunStateRow d r = Some row \<longrightarrow> 1 \<le> seqOf row))"

definition logGrows :: "Db \<Rightarrow> Db \<Rightarrow> bool" where
  "logGrows d d' = ((\<forall>r. prefix (runEvents d r) (runEvents d' r)) \<and> (logOk d \<longrightarrow> logOk d'))"

lemma logGrows_set:
  assumes "case selectRunStateRow d r of Some a \<Rightarrow> seqOf b = seqOf a | None \<Rightarrow> seqOf b = 1"
  shows "logGrows d (setRow r b d)"
  using assms unfolding logGrows_def logOk_def
  by (auto simp: select_setRow split: option.splits)

lemma logGrows_bodies:
  assumes row: "selectRunStateRow d r = Some row"
  shows "logGrows d (snd (insertBodies r ts bs d))"
proof -
  have "[1..n - 1] @ [n..n + int k - 1] = [1..n + int k - 1]" if "1 \<le> n" for n k
    using that upto_split2 [of 1 "n - 1" "n + int k - 1"] by (cases "n = 1") simp_all
  moreover have "1 \<le> seqOf row" if "logOk d" using that row by (simp add: logOk_def)
  ultimately have "logOk (snd (insertBodies r ts bs d))" if "logOk d"
    using that unfolding logOk_def insertBodies_spec(2,3) [OF row] by (auto simp: row eventRows_seqs split: option.splits)
  then show ?thesis unfolding logGrows_def insertBodies_spec(3) [OF row] by simp
qed

interpretation logged: store_writes logGrows
proof unfold_locales
  fix d show "logGrows d d" by (simp add: logGrows_def)
next
  fix d d' d'' assume "logGrows d d'" and "logGrows d' d''"
  then show "logGrows d d''" unfolding logGrows_def by (meson prefix_order.trans)
next
  fix d d' :: Db assume "db_rows d' = db_rows d" and "db_events d' = db_events d"
  then show "logGrows d d'" by (simp add: logGrows_def logOk_def selectRunStateRow_def runEvents_def)
next
  fix d r a b assume "selectRunStateRow d r = Some a" and "rowAdvance a b"
  then show "logGrows d (setRow r b d)" by (intro logGrows_set) (simp add: rowAdvance_def fixedColumns_def)
next
  fix d r t now and a :: RunRow assume "selectRunStateRow d r = Some a"
  then show "logGrows d (setRow r (titledRow t now a) d)" by (intro logGrows_set) (simp add: titledRow_def)
next
  fix d routing now and p :: EnqueueRunParams assume "selectRunStateRow d (ep_runId p) = None"
  then show "logGrows d (setRow (ep_runId p) (insertRunState p routing now) d)"
    by (intro logGrows_set) (simp add: insertRunState_def)
qed (rule logGrows_bodies)

section \<open>Checkouts\<close>

definition checkoutExclusive :: "Db \<Rightarrow> bool" where
  \<comment> \<open>at most one run holds a checkout\<close>
  "checkoutExclusive d =
     (\<forall>key r1 r2 a b. selectRunStateRow d r1 = Some a \<longrightarrow> selectRunStateRow d r2 = Some b
        \<longrightarrow> holdsCheckout d key (r1, a) \<longrightarrow> holdsCheckout d key (r2, b) \<longrightarrow> r1 = r2)"

lemma firstInOrder_None: "firstInOrder before xs = None \<longleftrightarrow> xs = []"
proof -
  have "foldl (\<lambda>best x. case best of None \<Rightarrow> Some x | Some b \<Rightarrow> if before x b then Some x else best) (Some y) ys \<noteq> None" for y ys
    by (induction ys arbitrary: y) (simp_all split: if_splits)
  then show ?thesis by (cases xs) (simp_all add: firstInOrder_def)
qed

lemma no_holder: "selectCheckoutHolder d key = None \<Longrightarrow> selectRunStateRow d r = Some a \<Longrightarrow> \<not> holdsCheckout d key (r, a)"
  by (auto simp: selectCheckoutHolder_def firstInOrder_None filter_empty_conv selectRunStateRow_def dest: map_of_SomeD)

definition holdsSame :: "RunRow \<Rightarrow> RunRow \<Rightarrow> bool" where
  "holdsSame a b =
     (rn_checkoutPath (rr_state b) = rn_checkoutPath (rr_state a)
      \<and> (rn_checkoutReleased (rr_state a) \<longrightarrow> rn_checkoutReleased (rr_state b)))"

lemma exclusive_mono:
  assumes "checkoutExclusive d" and "\<And>r. isImported d' r = isImported d r"
    and "\<And>r b. selectRunStateRow d' r = Some b \<Longrightarrow> \<exists>a. selectRunStateRow d r = Some a \<and> holdsSame a b"
  shows "checkoutExclusive d'"
  unfolding checkoutExclusive_def
proof (intro allI impI)
  fix key r1 r2 a b
  assume rows: "selectRunStateRow d' r1 = Some a" "selectRunStateRow d' r2 = Some b"
    and holds: "holdsCheckout d' key (r1, a)" "holdsCheckout d' key (r2, b)"
  obtain a0 b0 where "selectRunStateRow d r1 = Some a0" "holdsSame a0 a" "selectRunStateRow d r2 = Some b0" "holdsSame b0 b"
    using assms(3) rows by meson
  moreover from this have "holdsCheckout d key (r1, a0)" "holdsCheckout d key (r2, b0)"
    using holds by (auto simp: holdsCheckout_def holdsSame_def assms(2))
  ultimately show "r1 = r2" using assms(1) unfolding checkoutExclusive_def by blast
qed

lemma exclusive_set:
  assumes "selectRunStateRow d r = Some a" and "holdsSame a b" and "checkoutExclusive d"
  shows "checkoutExclusive (setRow r b d)"
  by (rule exclusive_mono [OF assms(3)]) (use assms(1,2) in \<open>auto simp: select_setRow holdsSame_def split: if_splits\<close>)

interpretation exclusive: store_writes "\<lambda>d d'. checkoutExclusive d \<longrightarrow> checkoutExclusive d'"
proof unfold_locales
  fix d d' :: Db assume "db_rows d' = db_rows d" and "db_imported d' = db_imported d"
  then show "checkoutExclusive d \<longrightarrow> checkoutExclusive d'"
    by (auto intro!: exclusive_mono [of d] simp: isImported_def selectRunStateRow_def holdsSame_def)
next
  fix d r row ts and bs :: "EventBody list" assume row: "selectRunStateRow d r = Some row"
  then show "checkoutExclusive d \<longrightarrow> checkoutExclusive (snd (insertBodies r ts bs d))"
    by (auto intro!: exclusive_mono [of d] simp: insertBodies_spec(2,4) [OF row] holdsSame_def bumped_def split: if_splits)
next
  fix d r a b assume "selectRunStateRow d r = Some a" and "rowAdvance a b"
  then show "checkoutExclusive d \<longrightarrow> checkoutExclusive (setRow r b d)"
    by (auto intro!: exclusive_set simp: rowAdvance_def fixedColumns_def holdsSame_def)
next
  fix d r t now and a :: RunRow assume "selectRunStateRow d r = Some a"
  then show "checkoutExclusive d \<longrightarrow> checkoutExclusive (setRow r (titledRow t now a) d)"
    by (auto intro!: exclusive_set simp: titledRow_def holdsSame_def)
next
  fix d routing now and p :: EnqueueRunParams
  assume "selectRunStateRow d (ep_runId p) = None" and "\<And>key. ep_checkoutPath p = Some key \<Longrightarrow> selectCheckoutHolder d key = None"
  then have "\<not> holdsCheckout d key (r, a)" if "rn_checkoutPath (rr_state (insertRunState p routing now)) = Some key"
    "selectRunStateRow d r = Some a" for key r a
    using that no_holder by (simp add: insertRunState_def)
  then show "checkoutExclusive d \<longrightarrow> checkoutExclusive (setRow (ep_runId p) (insertRunState p routing now) d)"
    unfolding checkoutExclusive_def by (auto simp: select_setRow holdsCheckout_def split: if_splits)
qed auto

section \<open>A history from an empty store\<close>

lemma fresh_ok: "keysOk (freshStore w im l)" "logOk (freshStore w im l)" "checkoutExclusive (freshStore w im l)"
  by (simp_all add: freshStore_def keysOk_def logOk_def checkoutExclusive_def selectRunStateRow_def runEvents_def)

lemmas fresh_history = history_keys [OF fresh_ok(1)]

text \<open>C3: The log of a run has no gap and loses nothing: after any history of operations on a fresh store the
  events of every run are numbered 1, 2, 3, \<dots> in the order of the log, the counter of its row is the next
  number, and every later history only appends to it.\<close>

theorem log_gapless:
  fixes env w im l ops more r
  defines "d \<equiv> foldl (runOp env) (freshStore w im l) ops"
  shows "map er_seq (runEvents d r) = [1..int (length (runEvents d r))]
     \<and> (case selectRunStateRow d r of Some row \<Rightarrow> seqOf row = int (length (runEvents d r)) + 1 | None \<Rightarrow> runEvents d r = [])
     \<and> prefix (runEvents d r) (runEvents (foldl (runOp env) d more) r)"
proof -
  have "logOk d" using logged.history_related [OF fresh_ok(1)] fresh_ok(2) unfolding d_def logGrows_def by blast
  then have ok: "map er_seq (runEvents d r) = (case selectRunStateRow d r of Some row \<Rightarrow> [1..seqOf row - 1] | None \<Rightarrow> [])"
    "\<And>row. selectRunStateRow d r = Some row \<Longrightarrow> 1 \<le> seqOf row" by (auto simp: logOk_def)
  have "int (length (runEvents d r)) = (case selectRunStateRow d r of Some row \<Rightarrow> seqOf row - 1 | None \<Rightarrow> 0)"
    using arg_cong [OF ok(1), of length] ok(2) by (auto split: option.splits)
  moreover have "prefix (runEvents d r) (runEvents (foldl (runOp env) d more) r)"
    using logged.history_related [of d env more] fresh_history unfolding d_def logGrows_def by blast
  ultimately show ?thesis using ok by (auto split: option.splits)
qed

text \<open>C6: Two enqueues never share a checkout: after any history of operations on a fresh store at most one run
  that is not imported and not released is bound to a checkout path.\<close>

theorem checkout_is_exclusive:
  assumes "selectRunStateRow (foldl (runOp env) (freshStore w im l) ops) r1 = Some a"
    and "selectRunStateRow (foldl (runOp env) (freshStore w im l) ops) r2 = Some b"
    and "holdsCheckout (foldl (runOp env) (freshStore w im l) ops) key (r1, a)"
    and "holdsCheckout (foldl (runOp env) (freshStore w im l) ops) key (r2, b)"
  shows "r1 = r2"
  using exclusive.history_related [OF fresh_ok(1)] fresh_ok(3) assms unfolding checkoutExclusive_def by metis

text \<open>The run of the example holds its checkout and no other does.\<close>

lemma ex_history: "foldl (runOp exEnv) (freshStore [[2]] [] None) [Op_enqueue exParams 10] = exEnqueued"
  using ex_enqueue by (simp add: exEnv_def exStore_def)

theorem checkout_is_exclusive_witness:
  "\<exists>a. selectRunStateRow exEnqueued [1] = Some a \<and> holdsCheckout exEnqueued [3] ([1], a)
     \<and> (\<forall>r b. selectRunStateRow exEnqueued r = Some b \<and> holdsCheckout exEnqueued [3] (r, b) \<longrightarrow> [1] = r)"
proof -
  have row: "selectRunStateRow exEnqueued [1] = Some exQueued" and holds: "holdsCheckout exEnqueued [3] ([1], exQueued)"
    by (simp_all add: ex_eval holdsCheckout_def)
  show ?thesis using row holds checkout_is_exclusive [of exEnv "[[2]]" "[]" None "[Op_enqueue exParams 10]"]
    unfolding ex_history by blast
qed

section \<open>The bill\<close>

lemma no_row_no_log: "logOk d \<Longrightarrow> selectRunStateRow d r = None \<Longrightarrow> runEvents d r = []"
  unfolding logOk_def by (metis map_is_Nil_conv option.case(1))

lemma history_bill: "keysOk d \<Longrightarrow> logOk d \<Longrightarrow> billOk u d \<Longrightarrow> billOk u (foldl (runOp env) d ops)"
proof (induction ops arbitrary: d)
  case (Cons op ops)
  have "logOk (runOp env d op)" using logged.runOp_related [OF Cons.prems(1)] Cons.prems(2) by (simp add: logGrows_def)
  moreover have "billOk u (runOp env d op)" by (rule runOp_bill [OF Cons.prems(1,3) no_row_no_log [OF Cons.prems(2)]])
  ultimately show ?case using Cons.IH [OF runOp_keys [OF Cons.prems(1)]] by simp
qed simp

text \<open>C2: The bill of a run is in its log: after any history of operations on a fresh store, each of the ten token
  and cost totals of a run's row is the sum of what the facts in its log carry for it. No commit, claim,
  release, sweep or rename charges anything the log does not show, and none loses a charge.\<close>

theorem spend_is_in_the_log:
  fixes env w im l ops r
  defines "d \<equiv> foldl (runOp env) (freshStore w im l) ops"
  shows "case selectRunStateRow d r of
       Some row \<Rightarrow> totalOf u (rn_metrics (rr_state row)) = loggedUsage u (runEvents d r)
     | None \<Rightarrow> runEvents d r = []"
proof -
  have "billOk u (freshStore w im l)" by (simp add: billOk_def freshStore_def selectRunStateRow_def)
  then have "billOk u d" unfolding d_def by (rule history_bill [OF fresh_ok(1,2)])
  moreover have "logOk d" using logged.history_related [OF fresh_ok(1)] fresh_ok(2) unfolding d_def logGrows_def by blast
  ultimately show ?thesis by (auto simp: billOk_def rowUsage_def no_row_no_log split: option.split)
qed

section \<open>Claims\<close>

lemma epoch_mono:
  assumes "keysOk d" and "selectRunStateRow d r = Some a"
  shows "\<exists>b. selectRunStateRow (foldl (runOp env) d ops) r = Some b \<and> rr_claimEpoch a \<le> rr_claimEpoch b"
  using growing.history_related [OF assms(1), of env ops] assms(2) by (auto simp: storeGrows_def rowGrows_def evolved_def)

lemma stale_noop:
  assumes "selectRunStateRow d r = Some a" and "e < rr_claimEpoch a"
  shows "ao_claimEpoch opts = Some e \<Longrightarrow> runOp env d (Op_fact r events v opts ts) = d"
    and "runOp env d (Op_observe r obs (Some e) ts) = d"
    and "runOp env d (Op_release r e prev alive ts snap) = d"
proof -
  show "runOp env d (Op_fact r events v opts ts) = d" if "ao_claimEpoch opts = Some e"
    using assms that by (auto simp: committed_def appendFact_def prepareFact_def checkClaim_def Let_def split: sum.split)
  show "runOp env d (Op_observe r obs (Some e) ts) = d"
    using assms by (auto simp: committed_def appendObservabilityEvents_def checkClaim_def split: sum.split)
  show "runOp env d (Op_release r e prev alive ts snap) = d"
    using assms by (auto simp: releaseClaim_def appendCrashRequeue_def updateRunStateReleasedClaim_def split: option.split)
qed

text \<open>C5: A stale claim never writes: once a run has been claimed a second time, under whatever history lies
  between, the first claim's epoch is smaller, and no append of facts, no append of observability events
  and no release under it changes the store, now or after any further history.\<close>

theorem stale_claim_never_writes:
  fixes d2 :: Db and later :: "StoreOp list" and env :: StoreEnv
  assumes "keysOk d" and "claimNextRun limit pid now d = (Some (r, e), d1)"
    and "claimNextRun limit' pid' now' (foldl (runOp env) d1 between) = (Some (r, e'), d2)"
    and "ao_claimEpoch opts = Some e"
  defines "d3 \<equiv> foldl (runOp env) d2 later"
  shows "e < e' \<and> runOp env d3 (Op_fact r events v opts ts) = d3 \<and> runOp env d3 (Op_observe r obs (Some e) ts) = d3
     \<and> runOp env d3 (Op_release r e prev alive ts snap) = d3"
proof -
  obtain a where a: "selectRunStateRow d1 r = Some a" "rr_claimEpoch a = e"
    using assms(2) by (rule claim_ok) (auto simp: select_setRow)
  have k1: "keysOk d1" using runOp_keys [OF assms(1), of env "Op_claim limit pid now"] assms(2) by simp
  obtain b where "selectRunStateRow (foldl (runOp env) d1 between) r = Some b" "e \<le> rr_claimEpoch b"
    using epoch_mono [OF k1 a(1)] a(2) by blast
  then obtain c where c: "selectRunStateRow d2 r = Some c" "rr_claimEpoch c = e'" "e < e'"
    using claim_ok [OF assms(3)] by (metis (no_types, lifting) RunRow.select_convs(2) add1_zle_eq option.inject select_setRow zle_add1_eq_le)
  have "keysOk d2"
    using runOp_keys [OF history_keys [OF k1, of env between], of env "Op_claim limit' pid' now'"] assms(3) by simp
  then obtain c' where stale: "selectRunStateRow d3 r = Some c'" "e < rr_claimEpoch c'"
    using epoch_mono [OF _ c(1)] c(2,3) unfolding d3_def by (meson order_less_le_trans)
  show ?thesis by (intro conjI c(3) stale_noop [OF stale] assms(4))
qed

theorem stale_claim_never_writes_witness:
  "\<exists>d2. claimNextRun 5 None 40 (foldl (runOp exEnv) exClaimed [Op_requeue 30 None ([1], None)]) = (Some ([1], 3), d2) \<and> (1 :: int) < 3
     \<and> runOp exEnv d2 (Op_fact [1] [F_run_requeued_after_crash None None] 4 (noOpts\<lparr>ao_claimEpoch := Some 1\<rparr>) 50) = d2
     \<and> runOp exEnv d2 (Op_release [1] 1 None None 50 d2) = d2"
proof -
  obtain d2 where d2: "claimNextRun 5 None 40 (foldl (runOp exEnv) exClaimed [Op_requeue 30 None ([1], None)]) = (Some ([1], 3), d2)"
    using ex_requeue by auto
  have "keysOk exEnqueued" by (simp add: keysOk_def ex_eval)
  moreover have "ao_claimEpoch (noOpts\<lparr>ao_claimEpoch := Some 1\<rparr>) = Some 1" by simp
  ultimately show ?thesis
    using stale_claim_never_writes [OF _ ex_claim d2, where later = "[]"] d2 unfolding foldl_Nil by blast
qed






section \<open>The sweep agrees with the fold\<close>

text \<open>C28: The SQL of the startup sweep and of a released claim agrees with the fold: the row the statement
  writes is the row that folding the fact it logs would project, with the version and the claim epoch one
  up, for a requeue of a running run and for a quarantine.\<close>

theorem sweep_agrees_with_fold:
  "requeuedRow ts ts (crashRequeueActiveMsDelta (rn_dispatchStartedAt (rr_state row)) alive) row
     = \<lparr>rr_state = (applyFact (rr_state row) (F_run_requeued_after_crash prev alive) ts)\<lparr>rn_version := rn_version (rr_state row) + 1\<rparr>,
        rr_claimEpoch = rr_claimEpoch row + 1\<rparr>
   \<and> quarantinedRow ts (dispatchIntervalActiveMsDelta (rn_dispatchStartedAt (rr_state row)) ts) row
     = \<lparr>rr_state = (applyFact (rr_state row) (F_run_quarantined QR_orphan_side_effect seqs) ts)\<lparr>rn_version := rn_version (rr_state row) + 1\<rparr>,
        rr_claimEpoch = rr_claimEpoch row + 1\<rparr>"
proof
  show "requeuedRow ts ts (crashRequeueActiveMsDelta (rn_dispatchStartedAt (rr_state row)) alive) row
     = \<lparr>rr_state = (applyFact (rr_state row) (F_run_requeued_after_crash prev alive) ts)\<lparr>rn_version := rn_version (rr_state row) + 1\<rparr>,
        rr_claimEpoch = rr_claimEpoch row + 1\<rparr>"
    by (simp add: requeuedRow_def creditActive_def applyFact_def Let_def helper_defs)
  obtain s where s: "rr_state row = s" by simp
  show "quarantinedRow ts (dispatchIntervalActiveMsDelta (rn_dispatchStartedAt (rr_state row)) ts) row
     = \<lparr>rr_state = (applyFact (rr_state row) (F_run_quarantined QR_orphan_side_effect seqs) ts)\<lparr>rn_version := rn_version (rr_state row) + 1\<rparr>,
        rr_claimEpoch = rr_claimEpoch row + 1\<rparr>"
    unfolding s quarantinedRow_def
    by (cases s; cases "rn_dispatchStartedAt s"; cases "rn_metrics s")
      (simp_all add: creditActive_def applyFact_def Let_def helper_defs dispatchIntervalActiveMsDelta_def)
qed

section \<open>An enqueue agrees with the replay of its log\<close>

text \<open>C29: The row an enqueue inserts is the row a replay of its log starts from: the one event it logs is a genesis
  with sequence number 1, the inserted row is what \<open>genesisToInitialState\<close> makes of its payload, with the
  version, the next sequence number and the two local columns the genesis does not carry, and no other run is touched.\<close>

theorem enqueue_agrees_with_genesis:
  assumes "enqueueRun pb sha lb p now d = Inr d'"
  shows "\<exists>g. selectRunStateRow d (ep_runId p) = None
     \<and> selectRunStateRow d' (ep_runId p) = Some \<lparr>rr_state = (genesisToInitialState (ep_runId p) g now)
          \<lparr>rn_version := 1, rn_nextSeq := 2, rn_cwd := ep_cwd p, rn_checkoutPath := ep_checkoutPath p\<rparr>, rr_claimEpoch = 0\<rparr>
     \<and> runEvents d' (ep_runId p) = runEvents d (ep_runId p)
          @ [\<lparr>er_runId = ep_runId p, er_seq = 1, er_body = EB_genesis g, er_ts = now\<rparr>]
     \<and> (\<forall>r. r \<noteq> ep_runId p \<longrightarrow> selectRunStateRow d' r = selectRunStateRow d r \<and> runEvents d' r = runEvents d r)"
  using enqueue_ok [OF assms]
proof (rule enqueueTxn_ok)
  let ?g = "genesisPayload p (sr_routing (spillRoutingInputs sha lb (orElse (ep_initialRouting p) [])))"
  let ?b = "insertRunState p (sr_routing (spillRoutingInputs sha lb (orElse (ep_initialRouting p) []))) now"
  fix db1
  assume new: "selectRunStateRow d (ep_runId p) = None" and same: "\<And>r. selectRunStateRow db1 r = selectRunStateRow d r"
    "\<And>r. runEvents db1 r = runEvents d r"
    and d': "d' = snd (insertBodies (ep_runId p) now [EB_genesis ?g] (setRow (ep_runId p) ?b db1))"
  have row: "selectRunStateRow (setRow (ep_runId p) ?b db1) (ep_runId p) = Some ?b" by (simp add: select_setRow)
  have "seqOf ?b = 1" by (simp add: insertRunState_def)
  moreover have "bumped 1 ?b = \<lparr>rr_state = (genesisToInitialState (ep_runId p) ?g now)
          \<lparr>rn_version := 1, rn_nextSeq := 2, rn_cwd := ep_cwd p, rn_checkoutPath := ep_checkoutPath p\<rparr>, rr_claimEpoch = 0\<rparr>"
    by (simp add: bumped_def insertRunState_def genesisToInitialState_def genesisPayload_def)
  ultimately show ?thesis
    unfolding d' insertBodies_spec(2,3) [OF row] by (intro exI [of _ ?g]) (simp add: new same select_setRow)
qed

theorem enqueue_agrees_with_genesis_witness:
  "selectRunStateRow exEnqueued [1] = Some \<lparr>rr_state = (genesisToInitialState [1] (genesisPayload exParams []) 10)
          \<lparr>rn_version := 1, rn_nextSeq := 2, rn_cwd := None, rn_checkoutPath := Some [3]\<rparr>, rr_claimEpoch = 0\<rparr>"
proof -
  have params: "ep_runId exParams = [1]" "ep_cwd exParams = None" "ep_checkoutPath exParams = Some [3]" by (simp_all add: exParams_def)
  have "runEvents exStore [1] = []" by (simp add: runEvents_def exStore_def freshStore_def)
  moreover have "runEvents exEnqueued [1] = runEvents exStore [1]
      @ [\<lparr>er_runId = [1], er_seq = 1, er_body = EB_genesis (genesisPayload exParams []), er_ts = 10\<rparr>]"
    by (simp add: exEnqueued_def)
  ultimately show ?thesis using enqueue_agrees_with_genesis [OF ex_enqueue] unfolding params by auto
qed

end
