(* ===== verification/Store_Concurrency.thy ===== *)
theory Store_Concurrency
  imports Store_Properties
begin

text \<open>
  Writers in parallel. A write that folds outside the lock reads the database, prepares, and commits
  later; in between any other writer may commit, and the process may die. The system \<open>sys_step\<close> has
  exactly these steps, and refines the one whose only steps are atomic operations.
\<close>

section \<open>A late commit is an append at commit time\<close>

definition withoutState :: "StoreError + AppendResult \<times> Db \<Rightarrow> StoreError + (int \<times> int list) \<times> Db" where
  \<comment> \<open>the outcome without the projection handed back to the caller, which shows the other columns as they were read\<close>
  "withoutState out = (case out of Inl e \<Rightarrow> Inl e | Inr (res, d) \<Rightarrow> Inr ((ar_newVersion res, ar_seqs res), d))"

lemma grown:
  "storeGrows snap db \<Longrightarrow> selectRunStateRow snap r = Some a \<Longrightarrow> selectRunStateRow db r = Some b \<Longrightarrow> rowGrows snap db r a b"
  unfolding storeGrows_def by (metis option.inject)

lemma grown_row:
  assumes "storeGrows snap db" and "selectRunStateRow snap r = Some a" and "selectRunStateRow db r = Some b"
    and "rn_version (rr_state b) = rn_version (rr_state a)"
  obtains n t u where "rr_state b = relabel n t ((rr_state a)\<lparr>rn_updatedAt := u\<rparr>)"
proof -
  have "rowGrows snap db r a b" using assms(1-3) by (rule grown)
  then show ?thesis using assms(4) that by (auto simp: rowGrows_def evolved_def)
qed

lemma writeProjection_relabel: "writeProjection (relabel n t s) v k db = writeProjection s v k db"
  by (simp add: writeProjection_def writeRunStateProjection_def project_relabel split: option.split)

lemma commit_relabel:
  "withoutState (commitFact (p\<lparr>pr_state := relabel n t (pr_state p)\<rparr>) db r v opts) = withoutState (commitFact p db r v opts)"
  by (simp add: commitFact_def withoutState_def split_beta writeProjection_relabel del: insertBodies.simps split: option.split sum.split)

lemma late_commit:
  assumes grows: "storeGrows snap db" and prep: "prepareFact fb sha snap r events v opts ts = Inr p"
  shows "withoutState (commitFact p db r v opts) = withoutState (appendFact fb sha r events v opts ts db)"
  using prep
proof (rule prepareFact_ok)
  fix a :: RunRow
  let ?eff = "effectiveFacts sha events"
  assume a: "selectRunStateRow snap r = Some a" and cka: "checkClaim (ao_claimEpoch opts) v a = Inr ()"
    and ne: "events \<noteq> []" and ckr: "checkRouting (ao_routingPatch opts) = Inr ()"
    and size: "routingBytes (rn_routing (nextProjection (rr_state a) ?eff opts ts)) < MAX_ROUTING_BYTES"
    and sizes: "validateFacts fb ?eff = Inr ()"
    and p: "p = \<lparr>pr_state = nextProjection (rr_state a) ?eff opts ts, pr_spills = map (spillOutputs sha) events,
              pr_epochBump = (if list_ex isRequeue ?eff then 1 else 0), pr_ts = ts\<rparr>"
  obtain b where b: "selectRunStateRow db r = Some b" using grows a by (auto simp: storeGrows_def)
  show ?thesis
  proof (cases "checkClaim (ao_claimEpoch opts) v b")
    case (Inl e)
    then show ?thesis using b ne ckr by (simp add: appendFact_def prepareFact_def commitFact_def withoutState_def Let_def)
  next
    case (Inr u)
    then have "rn_version (rr_state b) = rn_version (rr_state a)" using cka by (simp add: checkClaim_ok)
    then obtain n t w where bs: "rr_state b = relabel n t ((rr_state a)\<lparr>rn_updatedAt := w\<rparr>)"
      using grown_row [OF grows a b] by blast
    have "prepareFact fb sha db r events v opts ts = Inr (p\<lparr>pr_state := relabel n t (pr_state p)\<rparr>)"
      using b ne ckr Inr size sizes by (simp add: prepareFact_def Let_def bs next_relabel p)
    then show ?thesis by (simp add: appendFact_def commit_relabel)
  qed
qed

text \<open>C4: A commit is serializable: committing a write that was prepared on an older database has exactly the
  outcome, the version, the sequence numbers, the database and every error, of an \<open>appendFact\<close> that runs
  alone at commit time, whatever other operations have run in between.\<close>

theorem late_commit_is_append:
  assumes "keysOk snap" and "prepareFact fb sha snap r events v opts ts = Inr p"
  shows "withoutState (commitFact p (foldl (runOp env) snap ops) r v opts)
     = withoutState (appendFact fb sha r events v opts ts (foldl (runOp env) snap ops))"
  by (rule late_commit [OF growing.history_related [OF assms(1)] assms(2)])

theorem late_commit_is_append_witness:
  "\<exists>p. prepareFact (\<lambda>_. 100) (\<lambda>_. []) exClaimed [1] [F_run_requeued_after_crash None None] 2 noOpts 30 = Inr p
     \<and> withoutState (commitFact p (setRunTitle [1] [7] 25 exClaimed) [1] 2 noOpts)
       = withoutState (appendFact (\<lambda>_. 100) (\<lambda>_. []) [1] [F_run_requeued_after_crash None None] 2 noOpts 30 (setRunTitle [1] [7] 25 exClaimed))"
proof -
  obtain p where p: "prepareFact (\<lambda>_. 100) (\<lambda>_. []) exClaimed [1] [F_run_requeued_after_crash None None] 2 noOpts 30 = Inr p"
    using ex_prepare by blast
  have "keysOk exClaimed" by (simp add: keysOk_def ex_eval)
  from late_commit_is_append [OF this p, of exEnv "[Op_title [1] [7] 25]"] p show ?thesis by simp
qed

lemma pendingBetween_same:
  "runEvents db r = runEvents snap r \<Longrightarrow> selectHasPendingIntentBetween db r m n = selectHasPendingIntentBetween snap r m n"
  by (simp add: selectHasPendingIntentBetween_def)

lemma late_intent_is_append:
  assumes grows: "storeGrows snap db" and prep: "prepareIntentWithFact fb snap r payload facts v ts = Inr p"
    and commit: "commitIntentWithFact p db r ty payload facts v ts = Inr out"
  shows "appendIntentWithFact fb r ty payload facts v ts db = Inr out"
proof -
  obtain a where a: "selectRunStateRow snap r = Some a"
    using prep by (auto simp: prepareIntentWithFact_def split: if_splits option.splits)
  let ?next = "\<lambda>s m. (foldFacts s facts ts)\<lparr>rn_version := rn_version (foldFacts s facts ts) + 1, rn_lastAppliedSeq := m\<rparr>"
  let ?mark = "\<lambda>d row. if selectHasPendingIntentBetween d r (rn_lastAppliedSeq (rr_state row)) (seqOf row)
     then rn_lastAppliedSeq (foldFacts (rr_state row) facts ts) else max (rn_lastAppliedSeq (foldFacts (rr_state row) facts ts)) (seqOf row)"
  have p: "p = \<lparr>pi_state = ?next (rr_state a) (?mark snap a), pi_intentSeq = seqOf a\<rparr>" "facts \<noteq> []" "rn_version (rr_state a) = v"
    "validatePayload payload = Inr ()" "validateFacts fb facts = Inr ()"
    using prep a by (auto simp: prepareIntentWithFact_def Let_def split: if_splits sum.splits)
  obtain b where b: "selectRunStateRow db r = Some b" "\<not> isImported db r" "rn_version (rr_state b) = v" "seqOf b = seqOf a"
    using commit by (auto simp: commitIntentWithFact_def p(1) split: if_splits option.splits)
  obtain n t u where bs: "rr_state b = relabel n t ((rr_state a)\<lparr>rn_updatedAt := u\<rparr>)"
    using grown_row [OF grows a b(1)] b(3) p(3) by metis
  have same: "runEvents db r = runEvents snap r" using grown [OF grows a b(1)] b(4) by (simp add: rowGrows_def)
  have n: "rn_nextSeq (relabel n t x) = seqOf a" for x using b(4) by (simp add: bs relabel_def)
  have prep': "prepareIntentWithFact fb db r payload facts v ts = Inr (p\<lparr>pi_state := relabel n t (pi_state p)\<rparr>)"
    using b(2) p(2-)
    by (simp add: prepareIntentWithFact_def Let_def b(1) bs n p(1) relabel_fold updatedAt_fold [OF p(2)] relabel_writes
        pendingBetween_same [OF same])
  have "commitIntentWithFact (p\<lparr>pi_state := relabel n t (pi_state p)\<rparr>) db r ty payload facts v ts
      = commitIntentWithFact p db r ty payload facts v ts"
    by (simp add: commitIntentWithFact_def writeProjection_relabel split_beta b(1) del: insertBodies.simps split: sum.split)
  then show ?thesis by (simp add: appendIntentWithFact_def prep' commit)
qed

section \<open>The system of interleaved writers\<close>

datatype (plugins only: code) PendingWrite =
    PW_fact Prepared ustring int AppendFactOpts
  | PW_intent PreparedIntent ustring IntentType jsobj "FactEvent list" int number

record Sys =
  sy_db :: Db
  sy_pending :: "PendingWrite list" \<comment> \<open>prepared, not committed\<close>

fun commitPending :: "PendingWrite \<Rightarrow> Db \<Rightarrow> Db" where
  "commitPending (PW_fact p r v opts) db = committed db (commitFact p db r v opts)"
| "commitPending (PW_intent p r ty payload facts v ts) db = committed db (commitIntentWithFact p db r ty payload facts v ts)"

inductive sys_step :: "StoreEnv \<Rightarrow> Sys \<Rightarrow> Sys \<Rightarrow> bool" for env where
  atomic: "sys_step env s (s\<lparr>sy_db := runOp env (sy_db s) op\<rparr>)"
| prepare_fact: "prepareFact (env_factBytes env) (env_sha256Hex env) (sy_db s) r events v opts ts = Inr p \<Longrightarrow>
     sys_step env s (s\<lparr>sy_pending := PW_fact p r v opts # sy_pending s\<rparr>)"
| prepare_intent: "prepareIntentWithFact (env_factBytes env) (sy_db s) r payload facts v ts = Inr p \<Longrightarrow>
     sys_step env s (s\<lparr>sy_pending := PW_intent p r ty payload facts v ts # sy_pending s\<rparr>)"
| commit: "q \<in> set (sy_pending s) \<Longrightarrow>
     sys_step env s (s\<lparr>sy_db := commitPending q (sy_db s), sy_pending := remove1 q (sy_pending s)\<rparr>)"
| abandon: "q \<in> set (sy_pending s) \<Longrightarrow> sys_step env s (s\<lparr>sy_pending := remove1 q (sy_pending s)\<rparr>)"

inductive sys_reach :: "StoreEnv \<Rightarrow> Db \<Rightarrow> Sys \<Rightarrow> bool" for env d0 where
  start: "sys_reach env d0 \<lparr>sy_db = d0, sy_pending = []\<rparr>"
| step: "sys_reach env d0 s \<Longrightarrow> sys_step env s s' \<Longrightarrow> sys_reach env d0 s'"

definition preparedEarlier :: "StoreEnv \<Rightarrow> Db \<Rightarrow> PendingWrite \<Rightarrow> bool" where
  \<comment> \<open>the write was prepared on a database that has only grown since\<close>
  "preparedEarlier env db q =
     (\<exists>snap. storeGrows snap db \<and>
        (case q of
           PW_fact p r v opts \<Rightarrow>
             \<exists>events ts. prepareFact (env_factBytes env) (env_sha256Hex env) snap r events v opts ts = Inr p
         | PW_intent p r ty payload facts v ts \<Rightarrow> prepareIntentWithFact (env_factBytes env) snap r payload facts v ts = Inr p))"

lemma preparedEarlier_grows: "preparedEarlier env db q \<Longrightarrow> storeGrows db db' \<Longrightarrow> preparedEarlier env db' q"
  unfolding preparedEarlier_def using growing.trans by meson

lemma committed_same: "withoutState out = withoutState out' \<Longrightarrow> committed db out = committed db out'"
  by (auto simp: withoutState_def committed_def split: sum.splits)

lemma commit_simulated:
  assumes "preparedEarlier env db q"
  shows "commitPending q db = db \<or> (\<exists>op. commitPending q db = runOp env db op)"
proof (cases q)
  case (PW_fact p r v opts)
  obtain snap events ts where "storeGrows snap db"
    and "prepareFact (env_factBytes env) (env_sha256Hex env) snap r events v opts ts = Inr p"
    using assms by (auto simp: preparedEarlier_def PW_fact)
  from late_commit [OF this] have "commitPending q db = runOp env db (Op_fact r events v opts ts)"
    unfolding PW_fact commitPending.simps runOp.simps by (rule committed_same)
  then show ?thesis by blast
next
  case (PW_intent p r ty payload facts v ts)
  obtain snap where snap: "storeGrows snap db" "prepareIntentWithFact (env_factBytes env) snap r payload facts v ts = Inr p"
    using assms by (auto simp: preparedEarlier_def PW_intent)
  show ?thesis
  proof (cases "commitIntentWithFact p db r ty payload facts v ts")
    case (Inl e)
    then show ?thesis by (simp add: PW_intent committed_def)
  next
    case (Inr out)
    from late_intent_is_append [OF snap Inr] have "commitPending q db = runOp env db (Op_intentWithFact r ty payload facts v ts)"
      by (simp add: PW_intent Inr)
    then show ?thesis by blast
  qed
qed

definition explained :: "StoreEnv \<Rightarrow> Db \<Rightarrow> Sys \<Rightarrow> bool" where
  "explained env d0 s =
     ((\<exists>ops. sy_db s = foldl (runOp env) d0 ops) \<and> (\<forall>q \<in> set (sy_pending s). preparedEarlier env (sy_db s) q))"

lemma explained_moves:
  assumes "explained env d0 s" and "keysOk d0"
  shows "explained env d0 \<lparr>sy_db = runOp env (sy_db s) op, sy_pending = sy_pending s\<rparr>"
proof -
  obtain ops where ops: "sy_db s = foldl (runOp env) d0 ops" using assms(1) by (auto simp: explained_def)
  then have "keysOk (sy_db s)" using history_keys [OF assms(2)] by simp
  then have "storeGrows (sy_db s) (runOp env (sy_db s) op)" by (rule growing.runOp_related)
  moreover have "runOp env (sy_db s) op = foldl (runOp env) d0 (ops @ [op])" by (simp add: ops)
  ultimately show ?thesis using assms(1) preparedEarlier_grows unfolding explained_def by (metis Sys.select_convs)
qed

lemma explained_step:
  assumes "sys_step env s s'" and "explained env d0 s" and "keysOk d0"
  shows "explained env d0 s'"
  using assms(1)
proof cases
  case (atomic op)
  have "s' = \<lparr>sy_db = runOp env (sy_db s) op, sy_pending = sy_pending s\<rparr>" unfolding atomic by (cases s) simp
  then show ?thesis using explained_moves [OF assms(2,3)] by simp
next
  case (prepare_fact r events v opts ts p)
  then have "preparedEarlier env (sy_db s) (PW_fact p r v opts)"
    using growing.refl by (auto simp: preparedEarlier_def)
  then show ?thesis using assms(2) by (auto simp: explained_def prepare_fact)
next
  case (prepare_intent r payload facts v ts p ty)
  then have "preparedEarlier env (sy_db s) (PW_intent p r ty payload facts v ts)"
    using growing.refl by (auto simp: preparedEarlier_def)
  then show ?thesis using assms(2) by (auto simp: explained_def prepare_intent)
next
  case (commit q)
  have fewer: "set (remove1 q (sy_pending s)) \<subseteq> set (sy_pending s)" by (rule set_remove1_subset)
  have "preparedEarlier env (sy_db s) q" using assms(2) commit(2) by (simp add: explained_def)
  then consider "commitPending q (sy_db s) = sy_db s" | op where "commitPending q (sy_db s) = runOp env (sy_db s) op"
    using commit_simulated by blast
  then have "explained env d0 \<lparr>sy_db = commitPending q (sy_db s), sy_pending = sy_pending s\<rparr>"
    using assms(2) explained_moves [OF assms(2,3)] by cases (simp_all add: explained_def)
  then show ?thesis using fewer by (auto simp: explained_def commit)
next
  case (abandon q)
  then show ?thesis using assms(2) set_remove1_subset [of q "sy_pending s"] by (auto simp: explained_def)
qed

lemma reach_explained: "sys_reach env d0 s \<Longrightarrow> keysOk d0 \<Longrightarrow> explained env d0 s"
proof (induction rule: sys_reach.induct)
  case start
  then show ?case unfolding explained_def by (auto intro: exI [of _ "[]"])
qed (rule explained_step)

text \<open>C1: Interleaved writers refine atomic operations: whatever the order in which writers prepare, commit, fail and
  die on a store, its content is the result of some sequence of atomic operations run one after
  the other.\<close>

theorem interleaving_refines_atomic:
  assumes "sys_reach env d0 s" and "keysOk d0"
  shows "\<exists>ops. sy_db s = foldl (runOp env) d0 ops"
  using reach_explained [OF assms] by (simp add: explained_def)

theorem interleaving_refines_atomic_witness:
  "\<exists>p. sys_reach exEnv exClaimed \<lparr>sy_db = commitPending (PW_fact p [1] 2 noOpts) (setRunTitle [1] [7] 25 exClaimed), sy_pending = []\<rparr>
     \<and> (\<exists>ops. commitPending (PW_fact p [1] 2 noOpts) (setRunTitle [1] [7] 25 exClaimed) = foldl (runOp exEnv) exClaimed ops)"
proof -
  obtain p where p: "prepareFact (env_factBytes exEnv) (env_sha256Hex exEnv) exClaimed [1] [F_run_requeued_after_crash None None] 2 noOpts 30 = Inr p"
    using ex_prepare by (auto simp: exEnv_def)
  let ?q = "PW_fact p [1] 2 noOpts" and ?db = "setRunTitle [1] [7] 25 exClaimed"
  have "sys_reach exEnv exClaimed \<lparr>sy_db = exClaimed, sy_pending = [?q]\<rparr>"
    using sys_reach.step [OF sys_reach.start sys_step.prepare_fact [of exEnv "\<lparr>sy_db = exClaimed, sy_pending = []\<rparr>", simplified, OF p]] by simp
  from sys_reach.step [OF this sys_step.atomic [of exEnv _ "Op_title [1] [7] 25"]]
  have "sys_reach exEnv exClaimed \<lparr>sy_db = ?db, sy_pending = [?q]\<rparr>" by simp
  from sys_reach.step [OF this sys_step.commit [of ?q]]
  have reach: "sys_reach exEnv exClaimed \<lparr>sy_db = commitPending ?q ?db, sy_pending = []\<rparr>" by simp
  have "keysOk exClaimed" by (simp add: keysOk_def ex_eval)
  from interleaving_refines_atomic [OF reach this] reach show ?thesis by auto
qed

end
