(* ===== verification/Shell_Quote.thy ===== *)
theory Shell_Quote
  imports Fragua_Prelude
begin

text \<open>
  Shell escaping of values substituted into a \<open>run:\<close> string, \<open>packages/core/src/engine/shell-quote.ts\<close>:
  the escape of a value for a quoting context, and the scanner that finds the context of every token
  of a template or refuses it. Offsets are indices of UTF-16 units; the stack of the scanner has
  its top at the head. The table of matches is the list of the matches of the token expression,
  with their offsets.
\<close>

section \<open>Characters\<close>

abbreviation (input) SQ :: "16 word" where "SQ \<equiv> 39" \<comment> \<open>single quote\<close>
abbreviation (input) DQ :: "16 word" where "DQ \<equiv> 34" \<comment> \<open>double quote\<close>
abbreviation (input) BS :: "16 word" where "BS \<equiv> 92" \<comment> \<open>backslash\<close>
abbreviation (input) BT :: "16 word" where "BT \<equiv> 96" \<comment> \<open>backtick\<close>
abbreviation (input) DOLLAR :: "16 word" where "DOLLAR \<equiv> 36"
abbreviation (input) LPAR :: "16 word" where "LPAR \<equiv> 40"
abbreviation (input) RPAR :: "16 word" where "RPAR \<equiv> 41"
abbreviation (input) HASH :: "16 word" where "HASH \<equiv> 35"
abbreviation (input) LANGLE :: "16 word" where "LANGLE \<equiv> 60"
abbreviation (input) NL :: "16 word" where "NL \<equiv> 10"

section \<open>Contexts and escapes\<close>

datatype (plugins only: code size) ShellQuoteContext = Q_bare | Q_double | Q_single

datatype (plugins only: code size) UnsafeShellPosition =
    UP_escaped | UP_backtick | UP_comment | UP_heredoc | UP_ansi_c | UP_arithmetic | UP_dollar_prefix | UP_heredoc_delimiter | UP_unplaced

datatype (plugins only: code size) ShellTokenContext = SafeCtx ShellQuoteContext | UnsafeCtx UnsafeShellPosition

fun shellEscapeForContext :: "ustring \<Rightarrow> ShellQuoteContext \<Rightarrow> ustring" where
  "shellEscapeForContext value Q_bare = [SQ] @ concat (map (\<lambda>c. if c = SQ then [SQ, BS, SQ, SQ] else [c]) value) @ [SQ]"
| "shellEscapeForContext value Q_double =
     concat (map (\<lambda>c. if c = BS \<or> c = DOLLAR \<or> c = BT \<or> c = DQ then [BS, c] else [c]) value)"
| "shellEscapeForContext value Q_single = concat (map (\<lambda>c. if c = SQ then [SQ, BS, SQ, SQ] else [c]) value)"

definition shellContextAt :: "(nat \<times> ShellTokenContext) list \<Rightarrow> nat \<Rightarrow> ShellTokenContext" where
  "shellContextAt contexts offset = orElse (obj_get contexts offset) (UnsafeCtx UP_unplaced)"

fun unsafeWhere :: "UnsafeShellPosition \<Rightarrow> ustring" where
  \<comment> \<open>\<open>UNSAFE_SHELL_POSITIONS[position].where\<close>\<close>
  "unsafeWhere UP_escaped = U ''after a backslash''"
| "unsafeWhere UP_backtick = U ''inside backticks''"
| "unsafeWhere UP_comment = U ''inside a '' @ [BT, HASH, BT] @ U '' comment''"
| "unsafeWhere UP_heredoc = U ''inside a heredoc body''"
| "unsafeWhere UP_ansi_c = U ''inside '' @ [BT, DOLLAR, SQ, 0x2026, SQ, BT]"
| "unsafeWhere UP_arithmetic = U ''inside '' @ [BT, DOLLAR, LPAR, LPAR, 0x2026, RPAR, RPAR, BT]"
| "unsafeWhere UP_dollar_prefix = U ''directly after a literal '' @ [BT, DOLLAR, BT]"
| "unsafeWhere UP_heredoc_delimiter = U ''in a heredoc delimiter word''"
| "unsafeWhere UP_unplaced = U ''where the shell scan cannot place it''"

definition variableExample :: ustring where "variableExample = [BT] @ U ''v=${{ '' @ [0x2026] @ U '' }}'' @ [BT]"
definition variableUse :: ustring where "variableUse = [BT, DQ, DOLLAR, 118, DQ, BT]"

fun unsafeFix :: "UnsafeShellPosition \<Rightarrow> ustring" where
  \<comment> \<open>\<open>UNSAFE_SHELL_POSITIONS[position].fix\<close>\<close>
  "unsafeFix UP_escaped = U ''remove the backslash''"
| "unsafeFix UP_backtick = U ''use '' @ [BT, DOLLAR, LPAR, 0x2026, RPAR, BT] @ U '' instead of backticks''"
| "unsafeFix UP_comment = U ''drop the reference from the comment''"
| "unsafeFix UP_heredoc = U ''bind it to a variable first ('' @ variableExample @ U '') and use '' @ variableUse @ U '' in the heredoc''"
| "unsafeFix UP_ansi_c = U ''use double quotes''"
| "unsafeFix UP_arithmetic =
     U ''bind it to a variable first ('' @ variableExample @ U '') and validate it before using '' @ variableUse @ U '' in arithmetic''"
| "unsafeFix UP_dollar_prefix = U ''remove the '' @ [BT, DOLLAR, BT] @ U '' or bind the value to a variable first''"
| "unsafeFix UP_heredoc_delimiter =
     U ''use a literal delimiter word and bind the value to a variable used inside the body''"
| "unsafeFix UP_unplaced = U ''move it into a bare or double-quoted word''"

fun positionName :: "UnsafeShellPosition \<Rightarrow> ustring" where
  "positionName UP_escaped = U ''escaped''"
| "positionName UP_backtick = U ''backtick''"
| "positionName UP_comment = U ''comment''"
| "positionName UP_heredoc = U ''heredoc''"
| "positionName UP_ansi_c = U ''ansi-c''"
| "positionName UP_arithmetic = U ''arithmetic''"
| "positionName UP_dollar_prefix = U ''dollar-prefix''"
| "positionName UP_heredoc_delimiter = U ''heredoc-delimiter''"
| "positionName UP_unplaced = U ''unplaced''"

definition dedupeUnsafe :: "(ustring \<times> UnsafeShellPosition) list \<Rightarrow> (ustring \<times> UnsafeShellPosition) list" where
  \<comment> \<open>\<open>[...new Map(all.map((r) => [`${r.ref}|${r.position}`, r])).values()]\<close>\<close>
  "dedupeUnsafe all = map snd (foldl (\<lambda>seen r. obj_set (fst r @ U ''|'' @ positionName (snd r)) r seen) [] all)"

definition shellContextMessage :: "(ustring \<times> UnsafeShellPosition) list \<Rightarrow> ustring" where
  \<comment> \<open>the message of \<open>ShellContextError\<close>\<close>
  "shellContextMessage all =
     (let refs = dedupeUnsafe all
      in U ''substituted value'' @ (if length refs > 1 then U ''s'' else []) @ U '' in an unsafe shell position: ''
         @ ujoin (U '', '') (map (\<lambda>(ref, position). ref @ U '' ('' @ unsafeWhere position @ U '')'') refs)
         @ U '' '' @ [0x2014] @ U '' no escaping keeps a value inert there'')"

section \<open>The scanner\<close>

datatype (plugins only: code size) Frame =
    Fr_cmd nat bool \<comment> \<open>depth sub\<close>
  | Fr_arith nat
  | Fr_double
  | Fr_single
  | Fr_backtick
  | Fr_ansi
  | Fr_comment

definition WORD_BREAK :: "16 word \<Rightarrow> bool" where
  "WORD_BREAK c = (isSpace c \<or> c = 59 \<or> c = 38 \<or> c = 124 \<or> c = LPAR \<or> c = RPAR \<or> c = LANGLE \<or> c = 62)"

fun contextOf :: "Frame \<Rightarrow> ShellTokenContext" where
  "contextOf (Fr_cmd d b) = SafeCtx Q_bare"
| "contextOf Fr_double = SafeCtx Q_double"
| "contextOf Fr_single = SafeCtx Q_single"
| "contextOf Fr_backtick = UnsafeCtx UP_backtick"
| "contextOf Fr_ansi = UnsafeCtx UP_ansi_c"
| "contextOf Fr_comment = UnsafeCtx UP_comment"
| "contextOf (Fr_arith d) = UnsafeCtx UP_arithmetic"

type_synonym matches = "(nat \<times> ustring) list" \<comment> \<open>\<open>m.index\<close> and \<open>m[0]\<close>\<close>
type_synonym contexts = "(nat \<times> ShellTokenContext) list"

definition tokenEnd :: "matches \<Rightarrow> nat \<Rightarrow> nat option" where
  \<comment> \<open>\<open>tokens.get(k)\<close>; no match is empty\<close>
  "tokenEnd toks k = (case obj_get toks k of Some (c # w) \<Rightarrow> Some (k + Suc (length w)) | _ \<Rightarrow> None)"

definition charAt :: "ustring \<Rightarrow> nat \<Rightarrow> 16 word option" where
  "charAt t k = (if k < length t then Some (t ! k) else None)"

definition startsAt :: "ustring \<Rightarrow> nat \<Rightarrow> ustring \<Rightarrow> bool" where
  \<comment> \<open>\<open>template.startsWith(s, k)\<close>\<close>
  "startsAt t k s = startsWith (drop k t) s"

definition slice :: "ustring \<Rightarrow> nat \<Rightarrow> nat \<Rightarrow> ustring" where
  "slice t a b = take (b - a) (drop a t)"

definition lineEndFrom :: "ustring \<Rightarrow> nat \<Rightarrow> nat" where
  \<comment> \<open>\<open>template.indexOf("\n", k)\<close>, the end of the text when there is none\<close>
  "lineEndFrom t k = (if length t \<le> k then length t else k + length (takeWhile (\<lambda>c. c \<noteq> NL) (drop k t)))"

lemma tokenEnd_gt: "tokenEnd toks k = Some e \<Longrightarrow> k < e"
  by (auto simp: tokenEnd_def split: option.splits list.splits)

lemma lineEndFrom_le: "lineEndFrom t k \<le> length t"
proof (cases "length t \<le> k")
  case False
  have "length (takeWhile (\<lambda>c. c \<noteq> NL) (drop k t)) \<le> length (drop k t)" by (rule length_takeWhile_le)
  then show ?thesis using False by (simp add: lineEndFrom_def)
qed (simp add: lineEndFrom_def)

lemma lineEndFrom_ge: "k \<le> length t \<Longrightarrow> k \<le> lineEndFrom t k"
  by (simp add: lineEndFrom_def)

function markBody :: "ustring \<Rightarrow> matches \<Rightarrow> nat \<Rightarrow> nat \<Rightarrow> contexts \<Rightarrow> nat \<times> contexts" where
  \<comment> \<open>the loop over one line of a heredoc body; a token that crosses its end moves the end\<close>
  "markBody t toks k lineEnd out =
     (if k < lineEnd then
        case tokenEnd toks k of
          None \<Rightarrow> markBody t toks (k + 1) lineEnd out
        | Some e \<Rightarrow>
            markBody t toks (k + 1) (if e > lineEnd then lineEndFrom t e else lineEnd) (obj_set k (UnsafeCtx UP_heredoc) out)
      else (lineEnd, out))"
  by pat_completeness auto
termination
proof (relation "measure (\<lambda>(t, toks, k, lineEnd, out). max (length t) lineEnd - k)")
  fix t :: ustring and toks :: matches and k lineEnd :: nat and out :: contexts and e
  assume "k < lineEnd"
  moreover have "(if e > lineEnd then lineEndFrom t e else lineEnd) \<le> max (length t) lineEnd"
    using lineEndFrom_le [of t e] by (simp add: max.coboundedI1)
  ultimately show "((t, toks, k + 1, (if e > lineEnd then lineEndFrom t e else lineEnd), obj_set k (UnsafeCtx UP_heredoc) out),
      t, toks, k, lineEnd, out) \<in> measure (\<lambda>(t, toks, k, lineEnd, out). max (length t) lineEnd - k)" by simp
qed auto

declare markBody.simps [simp del]

lemma markBody_ge: "lineEnd \<le> length t \<Longrightarrow> lineEnd \<le> fst (markBody t toks k lineEnd out) \<and> fst (markBody t toks k lineEnd out) \<le> length t"
proof (induction t toks k lineEnd out rule: markBody.induct)
  case (1 t toks k lineEnd out)
  show ?case
  proof (cases "k < lineEnd")
    case True
    show ?thesis
    proof (cases "tokenEnd toks k")
      case None
      then show ?thesis using 1(1) [OF True None] 1(3) True by (simp add: markBody.simps [of t toks k])
    next
      case (Some e)
      have "lineEnd \<le> (if e > lineEnd then lineEndFrom t e else lineEnd)" "(if e > lineEnd then lineEndFrom t e else lineEnd) \<le> length t"
        using lineEndFrom_le [of t e] 1(3) by (auto simp: lineEndFrom_def)
      then show ?thesis using 1(2) [OF True Some] True Some by (simp add: markBody.simps [of t toks k])
    qed
  qed (simp add: markBody.simps [of t toks k] 1(3))
qed

definition markDelimiter :: "matches \<Rightarrow> nat \<Rightarrow> nat \<Rightarrow> contexts \<Rightarrow> contexts" where
  "markDelimiter toks pos lineEnd out =
     foldl (\<lambda>o1 k. if tokenEnd toks k \<noteq> None then obj_set k (UnsafeCtx UP_heredoc_delimiter) o1 else o1) out [pos..<lineEnd]"

definition heredocLine :: "ustring \<times> bool \<Rightarrow> ustring \<Rightarrow> ustring" where
  \<comment> \<open>\<open>stripTabs ? line.replace(/^\t+/, "") : line\<close>\<close>
  "heredocLine doc line = (if snd doc then dropWhile (\<lambda>c. c = 9) line else line)"

function consumeDoc :: "ustring \<Rightarrow> matches \<Rightarrow> ustring \<times> bool \<Rightarrow> nat \<Rightarrow> contexts \<Rightarrow> nat \<times> contexts" where
  \<comment> \<open>the body of one pending heredoc\<close>
  "consumeDoc t toks doc pos out =
     (if pos < length t then
        let lineEnd = lineEndFrom t pos; line = slice t pos lineEnd in
        if heredocLine doc line = fst doc
        then (lineEnd + 1, markDelimiter toks pos lineEnd out)
        else case markBody t toks pos lineEnd out of (le, out1) \<Rightarrow> consumeDoc t toks doc (le + 1) out1
      else (pos, out))"
  by pat_completeness auto
termination
proof (relation "measure (\<lambda>(t, toks, doc, pos, out). length t - pos)")
  fix t :: ustring and toks :: matches and doc :: "ustring \<times> bool" and pos :: nat and out out1 :: contexts and lineEnd le line
  assume "pos < length t" and "lineEnd = lineEndFrom t pos" and "(le, out1) = markBody t toks pos lineEnd out"
  moreover from this have "pos \<le> le" using lineEndFrom_ge [of pos t] markBody_ge [of lineEnd t toks pos out] lineEndFrom_le [of t pos]
    by (metis fst_conv le_trans less_imp_le)
  ultimately show "((t, toks, doc, le + 1, out1), t, toks, doc, pos, out) \<in> measure (\<lambda>(t, toks, doc, pos, out). length t - pos)" by simp
qed auto

declare consumeDoc.simps [simp del]

definition consumeHeredocs :: "ustring \<Rightarrow> matches \<Rightarrow> (ustring \<times> bool) list \<Rightarrow> nat \<Rightarrow> contexts \<Rightarrow> nat \<times> contexts" where
  "consumeHeredocs t toks pending start out = foldl (\<lambda>(pos, o1) doc. consumeDoc t toks doc pos o1) (start, out) pending"

function heredocWord :: "ustring \<Rightarrow> matches \<Rightarrow> nat \<Rightarrow> contexts \<Rightarrow> nat \<times> contexts" where
  "heredocWord t toks k out =
     (if k < length t \<and> \<not> WORD_BREAK (t ! k) then
        case tokenEnd toks k of
          Some e \<Rightarrow> heredocWord t toks e (obj_set k (UnsafeCtx UP_heredoc_delimiter) out)
        | None \<Rightarrow> heredocWord t toks (k + 1) out
      else (k, out))"
  by pat_completeness auto
termination
  by (relation "measure (\<lambda>(t, toks, k, out). length t - k)") (auto dest: tokenEnd_gt)

declare heredocWord.simps [simp del]

definition readHeredocOperator ::
  "ustring \<Rightarrow> matches \<Rightarrow> nat \<Rightarrow> contexts \<Rightarrow> nat \<times> contexts \<times> (ustring \<times> bool) list" where
  \<comment> \<open>the offset after the word, and the heredoc to push\<close>
  "readHeredocOperator t toks start out =
     (let k0 = start + 2; stripTabs = (charAt t k0 = Some 45); k1 = (if stripTabs then k0 + 1 else k0);
          wordStart = k1 + length (takeWhile (\<lambda>c. c = 32 \<or> c = 9) (drop k1 t))
      in case heredocWord t toks wordStart out of
           (k, out1) \<Rightarrow>
             let delim = filter (\<lambda>c. c \<noteq> SQ \<and> c \<noteq> DQ \<and> c \<noteq> BS) (slice t wordStart k)
             in (k, out1, if delim \<noteq> [] then [(delim, stripTabs)] else []))"

record Scan =
  sc_i :: nat
  sc_stack :: "Frame list"
  sc_pending :: "(ustring \<times> bool) list"
  sc_escapedAt :: "nat option"
  sc_out :: contexts

definition root :: Frame where "root = Fr_cmd 0 False"

definition topFrame :: "Frame list \<Rightarrow> Frame" where
  "topFrame stack = (case stack of [] \<Rightarrow> root | f # _ \<Rightarrow> f)"

definition advance :: "nat \<Rightarrow> Scan \<Rightarrow> Scan" where "advance n s = s\<lparr>sc_i := sc_i s + n\<rparr>"
definition push :: "Frame \<Rightarrow> Scan \<Rightarrow> Scan" where "push f s = s\<lparr>sc_stack := f # sc_stack s\<rparr>"
definition pop :: "Scan \<Rightarrow> Scan" where "pop s = s\<lparr>sc_stack := tl (sc_stack s)\<rparr>"
definition setTop :: "Frame \<Rightarrow> Scan \<Rightarrow> Scan" where "setTop f s = s\<lparr>sc_stack := f # tl (sc_stack s)\<rparr>"

definition inDouble :: "ustring \<Rightarrow> 16 word \<Rightarrow> Scan \<Rightarrow> Scan" where
  "inDouble t c s =
     (if c = DQ then advance 1 (pop s)
      else if c = BT then advance 1 (push Fr_backtick s)
      else if startsAt t (sc_i s) [DOLLAR, LPAR, LPAR] then advance 3 (push (Fr_arith 0) s)
      else if startsAt t (sc_i s) [DOLLAR, LPAR] then advance 2 (push (Fr_cmd 0 True) s)
      else advance 1 s)"

definition inArith :: "ustring \<Rightarrow> nat \<Rightarrow> 16 word \<Rightarrow> Scan \<Rightarrow> Scan" where
  "inArith t depth c s =
     (if startsAt t (sc_i s) [DOLLAR, LPAR, LPAR] then advance 3 (push (Fr_arith 0) s)
      else if startsAt t (sc_i s) [DOLLAR, LPAR] then advance 2 (push (Fr_cmd 0 True) s)
      else if c = LPAR then advance 1 (setTop (Fr_arith (depth + 1)) s)
      else if c = RPAR then
        if depth = 0 \<and> charAt t (sc_i s + 1) = Some RPAR then advance 2 (pop s)
        else advance 1 (setTop (Fr_arith (depth - 1)) s)
      else if c = DQ then advance 1 (push Fr_double s)
      else if c = BT then advance 1 (push Fr_backtick s)
      else advance 1 s)"

definition prevChar :: "ustring \<Rightarrow> nat \<Rightarrow> 16 word option" where
  \<comment> \<open>\<open>at(i - 1)\<close>\<close>
  "prevChar t i = (if i = 0 then None else charAt t (i - 1))"

definition inCmd :: "ustring \<Rightarrow> matches \<Rightarrow> nat \<Rightarrow> bool \<Rightarrow> 16 word \<Rightarrow> Scan \<Rightarrow> Scan" where
  "inCmd t toks depth sub c s =
     (if c = SQ then advance 1 (push Fr_single s)
      else if c = DQ then advance 1 (push Fr_double s)
      else if c = BT then advance 1 (push Fr_backtick s)
      else if startsAt t (sc_i s) [DOLLAR, SQ] then advance 2 (push Fr_ansi s)
      else if startsAt t (sc_i s) [DOLLAR, LPAR, LPAR] then advance 3 (push (Fr_arith 0) s)
      else if startsAt t (sc_i s) [DOLLAR, LPAR] then advance 2 (push (Fr_cmd 0 True) s)
      else if c = LPAR then advance 1 (setTop (Fr_cmd (depth + 1) sub) s)
      else if c = RPAR then
        advance 1 (if depth > 0 then setTop (Fr_cmd (depth - 1) sub) s else if sub then pop s else s)
      else if c = HASH \<and> (sc_i s = 0 \<or> (case prevChar t (sc_i s) of Some p \<Rightarrow> WORD_BREAK p | None \<Rightarrow> False))
      then advance 1 (push Fr_comment s)
      else if startsAt t (sc_i s) [LANGLE, LANGLE, LANGLE] then advance 3 s
      else if startsAt t (sc_i s) [LANGLE, LANGLE] then
        (case readHeredocOperator t toks (sc_i s) (sc_out s) of
           (k, out, docs) \<Rightarrow> s\<lparr>sc_i := k, sc_out := out, sc_pending := sc_pending s @ docs\<rparr>)
      else if c = NL then
        if sc_pending s \<noteq> [] then
          (case consumeHeredocs t toks (sc_pending s) (sc_i s + 1) (sc_out s) of
             (k, out) \<Rightarrow> s\<lparr>sc_i := k, sc_out := out, sc_pending := []\<rparr>)
        else advance 1 s
      else advance 1 s)"

definition inFrame :: "ustring \<Rightarrow> matches \<Rightarrow> Frame \<Rightarrow> 16 word \<Rightarrow> Scan \<Rightarrow> Scan" where
  \<comment> \<open>the switch\<close>
  "inFrame t toks fr c s =
     (case fr of
        Fr_single \<Rightarrow> advance 1 (if c = SQ then pop s else s)
      | Fr_ansi \<Rightarrow> advance 1 (if c = SQ then pop s else s)
      | Fr_backtick \<Rightarrow> advance 1 (if c = BT then pop s else s)
      | Fr_comment \<Rightarrow> if c = NL then pop s else advance 1 s
      | Fr_double \<Rightarrow> inDouble t c s
      | Fr_arith depth \<Rightarrow> inArith t depth c s
      | Fr_cmd depth sub \<Rightarrow> inCmd t toks depth sub c s)"

definition scanStep :: "ustring \<Rightarrow> matches \<Rightarrow> Scan \<Rightarrow> Scan" where
  \<comment> \<open>the body of the main loop\<close>
  "scanStep t toks s =
     (let i = sc_i s; fr = topFrame (sc_stack s) in
      case tokenEnd toks i of
        Some e \<Rightarrow>
          s\<lparr>sc_i := e,
            sc_out := obj_set i (if prevChar t i = Some DOLLAR \<and> sc_escapedAt s \<noteq> Some (i - 1) then UnsafeCtx UP_dollar_prefix
                                 else contextOf fr) (sc_out s)\<rparr>
      | None \<Rightarrow>
          let c = t ! i in
          if c = BS \<and> fr \<noteq> Fr_single \<and> fr \<noteq> Fr_comment then
            (case tokenEnd toks (i + 1) of
               Some e \<Rightarrow> s\<lparr>sc_i := e, sc_out := obj_set (i + 1) (UnsafeCtx UP_escaped) (sc_out s)\<rparr>
             | None \<Rightarrow> s\<lparr>sc_i := i + 2, sc_escapedAt := Some (i + 1)\<rparr>)
          else inFrame t toks fr c s)"

text \<open>Every step makes progress: it consumes text, or it closes a comment in front of its newline.\<close>

lemma consumeDoc_ge: "pos \<le> fst (consumeDoc t toks doc pos out)"
proof (induction t toks doc pos out rule: consumeDoc.induct)
  case (1 t toks doc pos out)
  show ?case
  proof (cases "pos < length t")
    case True
    let ?le = "lineEndFrom t pos"
    obtain le out1 where mb: "markBody t toks pos ?le out = (le, out1)" by fastforce
    have "pos \<le> ?le" "?le \<le> le" using True lineEndFrom_ge markBody_ge [OF lineEndFrom_le [of t pos], of toks pos out] mb by simp_all
    then show ?thesis
      using 1 [OF True refl refl _ mb [symmetric]] True
      by (auto simp: consumeDoc.simps [of t toks doc pos out] Let_def mb)
  qed (simp add: consumeDoc.simps)
qed

lemma consumeHeredocs_ge: "start \<le> fst (consumeHeredocs t toks pending start out)"
  unfolding consumeHeredocs_def
proof (induction pending arbitrary: start out)
  case (Cons doc pending)
  obtain k o1 where k: "consumeDoc t toks doc start out = (k, o1)" by fastforce
  then have "start \<le> k" using consumeDoc_ge [of start t toks doc out] by simp
  then show ?case using Cons.IH [of k o1] k by simp
qed simp

lemma heredocWord_ge: "k \<le> fst (heredocWord t toks k out)"
proof (induction t toks k out rule: heredocWord.induct)
  case (1 t toks k out)
  then show ?case using tokenEnd_gt [of toks k]
    by (auto simp: heredocWord.simps [of t toks k out] split: option.split)
qed

lemma readHeredocOperator_ge: "start + 2 \<le> fst (readHeredocOperator t toks start out)"
proof -
  have "k1 + n \<le> fst (heredocWord t toks (k1 + n) out)" for k1 n by (rule heredocWord_ge)
  then have "start + 2 \<le> fst (heredocWord t toks (k1 + n) out)" if "start + 2 \<le> k1" for k1 n
    using that by (meson add_leD1 le_trans)
  then show ?thesis by (simp add: readHeredocOperator_def Let_def split_beta)
qed

lemma advance_i [simp]: "sc_i (advance n s) = sc_i s + n" "sc_i (push f s) = sc_i s" "sc_i (pop s) = sc_i s" "sc_i (setTop f s) = sc_i s"
  by (simp_all add: advance_def push_def pop_def setTop_def)

lemma inCmd_forward: "sc_i s < sc_i (inCmd t toks depth sub c s)"
  using readHeredocOperator_ge [of "sc_i s" t toks "sc_out s"] consumeHeredocs_ge [of "Suc (sc_i s)" t toks "sc_pending s" "sc_out s"]
  by (auto simp: inCmd_def split_beta)

lemma scanStep_forward:
  assumes "\<not> (topFrame (sc_stack s) = Fr_comment \<and> t ! sc_i s = NL)"
  shows "sc_i s < sc_i (scanStep t toks s)"
  using assms inCmd_forward tokenEnd_gt [of toks "sc_i s"] tokenEnd_gt [of toks "Suc (sc_i s)"]
  by (auto simp: scanStep_def Let_def inFrame_def inDouble_def inArith_def split: option.split Frame.split) 

lemma scanStep_comment:
  assumes "topFrame (sc_stack s) = Fr_comment" and "t ! sc_i s = NL" and "\<not> sc_i s < sc_i (scanStep t toks s)"
  shows "sc_i (scanStep t toks s) = sc_i s" "length (sc_stack (scanStep t toks s)) < length (sc_stack s)"
  using assms tokenEnd_gt [of toks "sc_i s"]
  by (auto simp: scanStep_def Let_def inFrame_def pop_def topFrame_def root_def split: option.splits list.splits)

lemma scanStep_progress:
  "sc_i s < sc_i (scanStep t toks s)
   \<or> (sc_i (scanStep t toks s) = sc_i s \<and> length (sc_stack (scanStep t toks s)) < length (sc_stack s))"
  using scanStep_forward [of s t toks] scanStep_comment [of s t toks] by blast

function scanLoop :: "ustring \<Rightarrow> matches \<Rightarrow> Scan \<Rightarrow> Scan" where
  "scanLoop t toks s = (if sc_i s < length t then scanLoop t toks (scanStep t toks s) else s)"
  by pat_completeness auto
termination
proof (relation "measures [\<lambda>(t, toks, s). length t - sc_i s, \<lambda>(t, toks, s). length (sc_stack s)]")
  fix t :: ustring and toks and s :: Scan
  assume "sc_i s < length t"
  then show "((t, toks, scanStep t toks s), t, toks, s)
      \<in> measures [\<lambda>(t, toks, s). length t - sc_i s, \<lambda>(t, toks, s). length (sc_stack s)]"
    using scanStep_progress [of s t toks] by auto
qed simp

declare scanLoop.simps [simp del]

definition scanStart :: Scan where
  "scanStart = \<lparr>sc_i = 0, sc_stack = [root], sc_pending = [], sc_escapedAt = None, sc_out = []\<rparr>"

definition scanShellTokenContexts :: "ustring \<Rightarrow> matches \<Rightarrow> contexts" where
  "scanShellTokenContexts template toks =
     foldl (\<lambda>out k. if obj_get out k = None then obj_set k (UnsafeCtx UP_unplaced) out else out)
       (sc_out (scanLoop template toks scanStart)) (map fst toks)"

end
