(* ===== verification/Shell_Inert.thy ===== *)
theory Shell_Inert
  imports Shell_Quote
begin

text \<open>
  What the escapes and the scanner promise. A reader of POSIX quoting gives an escaped value back as it
  was and goes on in the state it was in. The scanner, run over an escaped value, ends with the stack
  it had, and so visits the text of the author exactly as it did in the template.
\<close>

section \<open>A value reads back as itself\<close>

definition activeBare :: "16 word \<Rightarrow> bool" where
  \<comment> \<open>what an unquoted word may not hold: expansions, operators, blanks, patterns, comments\<close>
  "activeBare c = (c \<in> {DOLLAR, BT, 59, 38, 124, LPAR, RPAR, LANGLE, 62, 32, 9, NL, 42, 63, 91, HASH, 126, 61, 37, 33, 123, 125})"

definition emit :: "ustring \<Rightarrow> (ShellQuoteContext \<times> ustring) option \<Rightarrow> (ShellQuoteContext \<times> ustring) option" where
  "emit w = map_option (\<lambda>(q, x). (q, w @ x))"

lemma emit_simps [simp]: "emit [] x = x" "emit v (emit w x) = emit (v @ w) x"
  by (cases x; force simp: emit_def)+

fun posixRead :: "ShellQuoteContext \<Rightarrow> ustring \<Rightarrow> (ShellQuoteContext \<times> ustring) option" where
  \<comment> \<open>the quoting state after the text and the characters it stands for; None when something in it is not literal\<close>
  "posixRead q [] = Some (q, [])"
| "posixRead Q_single (c # s) = (if c = SQ then posixRead Q_bare s else emit [c] (posixRead Q_single s))"
| "posixRead Q_bare (c # s) =
     (if c = SQ then posixRead Q_single s
      else if c = DQ then posixRead Q_double s
      else if c = BS then (case s of [] \<Rightarrow> None | d # s' \<Rightarrow> if d = NL then posixRead Q_bare s' else emit [d] (posixRead Q_bare s'))
      else if activeBare c then None
      else emit [c] (posixRead Q_bare s))"
| "posixRead Q_double (c # s) =
     (if c = DQ then posixRead Q_bare s
      else if c = BS then
        (case s of
           [] \<Rightarrow> None
         | d # s' \<Rightarrow>
             if d = NL then posixRead Q_double s'
             else emit (if d = DOLLAR \<or> d = BT \<or> d = DQ \<or> d = BS then [d] else [BS, d]) (posixRead Q_double s'))
      else if c = DOLLAR \<or> c = BT then None
      else emit [c] (posixRead Q_double s))"

lemma read_single: "posixRead Q_single (shellEscapeForContext v Q_single @ rest) = emit v (posixRead Q_single rest)"
  by (induction v) simp_all

lemma read_double: "posixRead Q_double (shellEscapeForContext v Q_double @ rest) = emit v (posixRead Q_double rest)"
  by (induction v) simp_all

lemma read_bare: "posixRead Q_bare (shellEscapeForContext v Q_bare @ rest) = emit v (posixRead Q_bare rest)"
  using read_single [of v "SQ # rest"] by simp

text \<open>C8: An escaped value is data: whatever text follows it, a reader of POSIX quoting in the context the value was
  escaped for reads exactly the value, meets no expansion and no operator in it, and goes on in the same context.\<close>

theorem escaped_value_reads_back:
  "posixRead q (shellEscapeForContext v q @ rest) = map_option (\<lambda>(q', w). (q', v @ w)) (posixRead q rest)"
  using read_single read_double read_bare by (cases q) (simp_all add: emit_def)

section \<open>The scanner passes over an escaped value\<close>

inductive scan_reach :: "ustring \<Rightarrow> matches \<Rightarrow> Scan \<Rightarrow> Scan \<Rightarrow> bool" for t toks s0 where
  here: "scan_reach t toks s0 s0"
| more: "scan_reach t toks s0 s \<Longrightarrow> sc_i s < length t \<Longrightarrow> scan_reach t toks s0 (scanStep t toks s)"

lemma scan_reach_trans: "scan_reach t toks s2 s3 \<Longrightarrow> scan_reach t toks s1 s2 \<Longrightarrow> scan_reach t toks s1 s3"
  by (induction rule: scan_reach.induct) (auto intro: scan_reach.more)

lemma scan_reach_step: "sc_i s < length t \<Longrightarrow> scanStep t toks s = s' \<Longrightarrow> scan_reach t toks s s'"
  using scan_reach.more [OF scan_reach.here] by blast

lemma no_tokens [simp]: "tokenEnd [] k = None"
  by (simp add: tokenEnd_def)

definition reaches :: "ustring \<Rightarrow> Scan \<Rightarrow> nat \<Rightarrow> Frame list \<Rightarrow> bool" where
  \<comment> \<open>the scan of a text without tokens gets \<open>n\<close> units further, to this stack, with the heredocs it had\<close>
  "reaches t s n stack = (\<exists>s'. scan_reach t [] s s' \<and> sc_i s' = sc_i s + n \<and> sc_stack s' = stack \<and> sc_pending s' = sc_pending s)"

lemma reaches_0: "reaches t s 0 (sc_stack s)"
  unfolding reaches_def by (rule exI [of _ s]) (simp add: scan_reach.here)

lemma reaches_step:
  assumes "sc_i s < length t" and "scanStep t [] s = s1" and "sc_i s1 = sc_i s + m" and "sc_pending s1 = sc_pending s"
    and "reaches t s1 n stack"
  shows "reaches t s (m + n) stack"
  using assms(3-5) scan_reach_trans [OF _ scan_reach_step [OF assms(1,2)]] unfolding reaches_def by (metis add.assoc)

lemma reaches_trans:
  assumes "reaches t s m stk" and "\<And>s'. sc_i s' = sc_i s + m \<Longrightarrow> sc_stack s' = stk \<Longrightarrow> reaches t s' n stk'"
  shows "reaches t s (m + n) stk'"
proof -
  obtain s1 where s1: "scan_reach t [] s s1" "sc_i s1 = sc_i s + m" "sc_stack s1 = stk" "sc_pending s1 = sc_pending s"
    using assms(1) by (auto simp: reaches_def)
  obtain s2 where "scan_reach t [] s1 s2" "sc_i s2 = sc_i s1 + n" "sc_stack s2 = stk'" "sc_pending s2 = sc_pending s1"
    using assms(2) [OF s1(2,3)] by (auto simp: reaches_def)
  with s1 show ?thesis using scan_reach_trans unfolding reaches_def by (intro exI [of _ s2]) auto
qed

lemma nth_drop_hd: "drop i t = c # u \<Longrightarrow> i < length t \<and> t ! i = c \<and> drop (Suc i) t = u"
  by (metis Cons_nth_drop_Suc drop_all leI list.distinct(1) list.inject)

lemma drop_further: "drop (i + n) t = drop n (drop i t)"
  by (simp add: add.commute)

lemma drop_two: "drop i t = c # d # u \<Longrightarrow> drop (i + 2) t = u"
  unfolding drop_further by simp

lemma starts_hd: "drop i t = c # u \<Longrightarrow> c \<noteq> p \<Longrightarrow> \<not> startsAt t i (p # ps)"
  by (simp add: startsAt_def startsWith_def)

lemmas frame_moves = advance_def push_def pop_def setTop_def topFrame_def

lemma step_close_single:
  "drop (sc_i s) t = SQ # u \<Longrightarrow> sc_stack s = Fr_single # stk \<Longrightarrow> scanStep t [] s = advance 1 (pop s)"
  by (drule nth_drop_hd) (simp add: scanStep_def inFrame_def topFrame_def)

lemma step_in_single:
  "drop (sc_i s) t = c # u \<Longrightarrow> c \<noteq> SQ \<Longrightarrow> sc_stack s = Fr_single # stk \<Longrightarrow> scanStep t [] s = advance 1 s"
  by (drule nth_drop_hd) (simp add: scanStep_def inFrame_def topFrame_def)

lemma step_escape:
  "drop (sc_i s) t = BS # u \<Longrightarrow> sc_stack s = f # stk \<Longrightarrow> f \<noteq> Fr_single \<Longrightarrow> f \<noteq> Fr_comment
     \<Longrightarrow> scanStep t [] s = s\<lparr>sc_i := sc_i s + 2, sc_escapedAt := Some (sc_i s + 1)\<rparr>"
  by (drule nth_drop_hd) (simp add: scanStep_def topFrame_def Let_def)

lemma step_open_single:
  "drop (sc_i s) t = SQ # u \<Longrightarrow> sc_stack s = Fr_cmd d b # stk \<Longrightarrow> scanStep t [] s = advance 1 (push Fr_single s)"
  by (drule nth_drop_hd) (simp add: scanStep_def inFrame_def inCmd_def topFrame_def)

lemma step_in_double:
  "drop (sc_i s) t = c # u \<Longrightarrow> c \<notin> {DQ, BT, DOLLAR, BS} \<Longrightarrow> sc_stack s = Fr_double # stk \<Longrightarrow> scanStep t [] s = advance 1 s"
  by (frule nth_drop_hd) (simp add: scanStep_def inFrame_def inDouble_def topFrame_def Let_def starts_hd)

lemma hop_single:
  "drop (sc_i s) t = shellEscapeForContext v Q_single @ u \<Longrightarrow> sc_stack s = Fr_single # Fr_cmd d b # stk
     \<Longrightarrow> reaches t s (length (shellEscapeForContext v Q_single)) (sc_stack s)"
proof (induction v arbitrary: s)
  case Nil
  then show ?case using reaches_0 [of t s] by simp
next
  case (Cons c v)
  show ?case
  proof (cases "c = SQ")
    case False
    then have here: "drop (sc_i s) t = c # (shellEscapeForContext v Q_single @ u)" using Cons.prems(1) by simp
    have "reaches t (advance 1 s) (length (shellEscapeForContext v Q_single)) (sc_stack s)"
      using Cons.IH [of "advance 1 s"] nth_drop_hd [OF here] Cons.prems(2) by (simp add: frame_moves)
    from reaches_step [OF _ step_in_single [OF here False Cons.prems(2)] _ _ this, of 1] show ?thesis
      using nth_drop_hd [OF here] False by (simp add: frame_moves)
  next
    case True
    let ?e = "shellEscapeForContext v Q_single"
    have d0: "drop (sc_i s) t = SQ # BS # SQ # SQ # (?e @ u)" using Cons.prems(1) True by simp
    let ?s1 = "advance 1 (pop s)"
    let ?s2 = "?s1\<lparr>sc_i := sc_i ?s1 + 2, sc_escapedAt := Some (sc_i ?s1 + 1)\<rparr>"
    let ?s3 = "advance 1 (push Fr_single ?s2)"
    have d1: "drop (sc_i ?s1) t = BS # SQ # SQ # (?e @ u)" using nth_drop_hd [OF d0] by simp
    have d2: "drop (sc_i ?s2) t = SQ # (?e @ u)" using drop_two [OF d1] by simp
    have d3: "drop (sc_i ?s3) t = ?e @ u" using nth_drop_hd [OF d2] by simp
    have stacks: "sc_stack ?s1 = Fr_cmd d b # stk" "sc_stack ?s2 = Fr_cmd d b # stk" "sc_stack ?s3 = sc_stack s"
      using Cons.prems(2) by (simp_all add: frame_moves)
    have "reaches t ?s3 (length ?e) (sc_stack s)"
      using Cons.IH [OF d3] stacks(3) Cons.prems(2) by simp
    from reaches_step [OF _ step_open_single [OF d2 stacks(2)] _ _ this, of 1]
    have "reaches t ?s2 (1 + length ?e) (sc_stack s)" using nth_drop_hd [OF d2] by (simp add: frame_moves)
    from reaches_step [OF _ step_escape [OF d1 stacks(1)] _ _ this, of 2]
    have "reaches t ?s1 (2 + (1 + length ?e)) (sc_stack s)" using nth_drop_hd [OF d1] by simp
    from reaches_step [OF _ step_close_single [OF d0 Cons.prems(2)] _ _ this, of 1]
    show ?thesis using nth_drop_hd [OF d0] True by (simp add: frame_moves)
  qed
qed

lemma hop_bare:
  assumes here: "drop (sc_i s) t = shellEscapeForContext v Q_bare @ u" and stack: "sc_stack s = Fr_cmd d b # stk"
  shows "reaches t s (length (shellEscapeForContext v Q_bare)) (sc_stack s)"
proof -
  let ?e = "shellEscapeForContext v Q_single"
  have d0: "drop (sc_i s) t = SQ # (?e @ SQ # u)" using here by simp
  let ?s1 = "advance 1 (push Fr_single s)"
  have d1: "drop (sc_i ?s1) t = ?e @ SQ # u" using nth_drop_hd [OF d0] by simp
  have st1: "sc_stack ?s1 = Fr_single # Fr_cmd d b # stk" using stack by (simp add: frame_moves)
  have "reaches t s' 1 (sc_stack s)" if "sc_i s' = sc_i ?s1 + length ?e" "sc_stack s' = sc_stack ?s1" for s'
  proof -
    have d2: "drop (sc_i s') t = SQ # u" unfolding that(1) drop_further d1 by simp
    have "reaches t (advance 1 (pop s')) 0 (sc_stack s)" using reaches_0 [of t "advance 1 (pop s')"] that(2) st1 stack by (simp add: frame_moves)
    from reaches_step [OF _ step_close_single [OF d2] _ _ this, of _ 1] show ?thesis
      using nth_drop_hd [OF d2] that(2) st1 by (simp add: frame_moves)
  qed
  with hop_single [OF d1 st1] have "reaches t ?s1 (length ?e + 1) (sc_stack s)" by (rule reaches_trans)
  from reaches_step [OF _ step_open_single [OF d0 stack] _ _ this, of 1] show ?thesis
    using nth_drop_hd [OF d0] by (simp add: frame_moves)
qed

lemma hop_double:
  "drop (sc_i s) t = shellEscapeForContext v Q_double @ u \<Longrightarrow> sc_stack s = Fr_double # stk
     \<Longrightarrow> reaches t s (length (shellEscapeForContext v Q_double)) (sc_stack s)"
proof (induction v arbitrary: s)
  case Nil
  then show ?case using reaches_0 [of t s] by simp
next
  case (Cons c v)
  let ?e = "shellEscapeForContext v Q_double"
  show ?case
  proof (cases "c \<in> {DQ, BT, DOLLAR, BS}")
    case False
    then have here: "drop (sc_i s) t = c # (?e @ u)" using Cons.prems(1) by simp
    have "reaches t (advance 1 s) (length ?e) (sc_stack s)"
      using Cons.IH [of "advance 1 s"] nth_drop_hd [OF here] Cons.prems(2) by (simp add: frame_moves)
    from reaches_step [OF _ step_in_double [OF here False Cons.prems(2)] _ _ this, of 1] show ?thesis
      using nth_drop_hd [OF here] False by (simp add: frame_moves)
  next
    case True
    then have here: "drop (sc_i s) t = BS # c # (?e @ u)" using Cons.prems(1) by auto
    let ?s1 = "s\<lparr>sc_i := sc_i s + 2, sc_escapedAt := Some (sc_i s + 1)\<rparr>"
    have "reaches t ?s1 (length ?e) (sc_stack s)"
      using Cons.IH [of ?s1] drop_two [OF here] Cons.prems(2) by simp
    from reaches_step [OF _ step_escape [OF here Cons.prems(2)] _ _ this, of 2] show ?thesis
      using nth_drop_hd [OF here] True by auto
  qed
qed

section \<open>What the scanner records is never lost\<close>

definition recorded :: "matches \<Rightarrow> contexts \<Rightarrow> nat \<Rightarrow> bool" where
  \<comment> \<open>only tokens before \<open>n\<close> are recorded\<close>
  "recorded toks out n = (\<forall>k. obj_get out k \<noteq> None \<longrightarrow> k < n \<and> tokenEnd toks k \<noteq> None)"

definition records :: "matches \<Rightarrow> contexts \<Rightarrow> nat \<Rightarrow> contexts \<Rightarrow> nat \<Rightarrow> bool" where
  \<comment> \<open>from the offset \<open>lo\<close> to \<open>hi\<close> the map only gains tokens\<close>
  "records toks out lo out' hi =
     (recorded toks out lo \<longrightarrow> recorded toks out' hi \<and> (\<forall>k x. obj_get out k = Some x \<longrightarrow> obj_get out' k = Some x))"

definition unsafeIn :: "contexts \<Rightarrow> bool" where
  "unsafeIn out = (\<exists>k p. obj_get out k = Some (UnsafeCtx p))"

definition tokenFree :: "matches \<Rightarrow> nat \<Rightarrow> nat \<Rightarrow> bool" where
  "tokenFree toks a b = (\<forall>j. a \<le> j \<and> j < b \<longrightarrow> tokenEnd toks j = None)"

lemma tokenFree_Nil: "b \<le> a \<Longrightarrow> tokenFree toks a b"
  by (auto simp: tokenFree_def)

lemma tokenFree_step: "tokenEnd toks a = None \<Longrightarrow> tokenFree toks (a + 1) b \<Longrightarrow> tokenFree toks a b"
  unfolding tokenFree_def by (metis Suc_eq_plus1 Suc_leI le_neq_implies_less)

lemma tokenFree_trans: "tokenFree toks a b \<Longrightarrow> tokenFree toks b c \<Longrightarrow> tokenFree toks a c"
  unfolding tokenFree_def by (meson not_le)

lemma records_same: "lo \<le> hi \<Longrightarrow> records toks out lo out hi"
  by (force simp: records_def recorded_def)

lemma records_trans: "records toks out lo out1 mid \<Longrightarrow> records toks out1 mid out' hi \<Longrightarrow> records toks out lo out' hi"
  by (simp add: records_def)

lemma records_set: "tokenEnd toks k \<noteq> None \<Longrightarrow> lo \<le> k \<Longrightarrow> k < hi \<Longrightarrow> records toks out lo (obj_set k x out) hi"
  by (auto simp: records_def recorded_def obj_simps split: if_splits)

lemma unsafe_set: "unsafeIn (obj_set k (UnsafeCtx p) out)"
  by (auto simp: unsafeIn_def obj_simps)

lemma unsafe_records: "records toks out lo out' hi \<Longrightarrow> recorded toks out lo \<Longrightarrow> unsafeIn out \<Longrightarrow> unsafeIn out'"
  unfolding records_def unsafeIn_def by blast

lemma markBody_records:
  "k \<le> lineEnd \<Longrightarrow> lineEnd \<le> length t \<Longrightarrow> records toks out k (snd (markBody t toks k lineEnd out)) (fst (markBody t toks k lineEnd out))"
proof (induction t toks k lineEnd out rule: markBody.induct)
  case (1 t toks k lineEnd out)
  show ?case
  proof (cases "k < lineEnd")
    case True
    show ?thesis
    proof (cases "tokenEnd toks k")
      case None
      then have "records toks out (k + 1) (snd (markBody t toks k lineEnd out)) (fst (markBody t toks k lineEnd out))"
        using 1(1) [OF True None] 1(4) True by (simp add: markBody.simps [of t toks k lineEnd])
      with records_same show ?thesis by (rule records_trans) simp
    next
      case (Some e)
      let ?le = "if e > lineEnd then lineEndFrom t e else lineEnd"
      have le: "k + 1 \<le> ?le" "?le \<le> length t"
        using lineEndFrom_le [of t e] 1(4) True tokenEnd_gt [OF Some] by (auto simp: lineEndFrom_def)
      have "records toks out k (obj_set k (UnsafeCtx UP_heredoc) out) (k + 1)" by (rule records_set) (simp_all add: Some)
      from records_trans [OF this 1(2) [OF True Some le]] show ?thesis using True Some by (simp add: markBody.simps [of t toks k lineEnd])
    qed
  next
    case False
    then have "markBody t toks k lineEnd out = (lineEnd, out)" by (simp add: markBody.simps [of t toks k lineEnd])
    then show ?thesis using 1(3) records_same [of k lineEnd toks out] by simp
  qed
qed

lemma markBody_safe:
  "\<not> unsafeIn (snd (markBody t toks k lineEnd out)) \<Longrightarrow> k \<le> lineEnd \<Longrightarrow> lineEnd \<le> length t \<Longrightarrow> recorded toks out k
     \<Longrightarrow> markBody t toks k lineEnd out = (lineEnd, out) \<and> tokenFree toks k lineEnd"
proof (induction t toks k lineEnd out rule: markBody.induct)
  case (1 t toks k lineEnd out)
  show ?case
  proof (cases "k < lineEnd")
    case True
    show ?thesis
    proof (cases "tokenEnd toks k")
      case None
      have "recorded toks out (k + 1)" using 1(6) by (force simp: recorded_def)
      then have "markBody t toks (k + 1) lineEnd out = (lineEnd, out)" "tokenFree toks (k + 1) lineEnd"
        using 1(1) [OF True None] 1(3,5) True None by (simp_all add: markBody.simps [of t toks k lineEnd])
      then show ?thesis using True None tokenFree_step [OF None] by (simp add: markBody.simps [of t toks k lineEnd])
    next
      case (Some e)
      let ?le = "if e > lineEnd then lineEndFrom t e else lineEnd" and ?out = "obj_set k (UnsafeCtx UP_heredoc) out"
      have le: "k + 1 \<le> ?le" "?le \<le> length t"
        using lineEndFrom_le [of t e] 1(5) True tokenEnd_gt [OF Some] by (auto simp: lineEndFrom_def)
      have "recorded toks ?out (k + 1)" using 1(6) Some by (force simp: recorded_def obj_simps)
      then have "unsafeIn (snd (markBody t toks (k + 1) ?le ?out))"
        by (rule unsafe_records [OF markBody_records [OF le]]) (rule unsafe_set)
      then show ?thesis using 1(3) True Some by (simp add: markBody.simps [of t toks k lineEnd])
    qed
  next
    case False
    then have "markBody t toks k lineEnd out = (lineEnd, out)" by (simp add: markBody.simps [of t toks k lineEnd])
    then show ?thesis using False by (simp add: tokenFree_Nil)
  qed
qed

lemma markDelimiter_simps:
  "lineEnd \<le> pos \<Longrightarrow> markDelimiter toks pos lineEnd out = out"
  "pos < lineEnd \<Longrightarrow> markDelimiter toks pos lineEnd out
     = markDelimiter toks (pos + 1) lineEnd (if tokenEnd toks pos \<noteq> None then obj_set pos (UnsafeCtx UP_heredoc_delimiter) out else out)"
  by (simp_all add: markDelimiter_def upt_conv_Cons)

lemma markDelimiter_records: "pos \<le> lineEnd \<Longrightarrow> records toks out pos (markDelimiter toks pos lineEnd out) lineEnd"
proof (induction "lineEnd - pos" arbitrary: pos out)
  case 0
  then show ?case by (simp add: markDelimiter_simps records_same)
next
  case (Suc n)
  let ?out = "if tokenEnd toks pos \<noteq> None then obj_set pos (UnsafeCtx UP_heredoc_delimiter) out else out"
  have "records toks out pos ?out (pos + 1)" using records_set [of toks pos pos "pos + 1"] records_same [of pos "pos + 1"] by simp
  moreover have "records toks ?out (pos + 1) (markDelimiter toks (pos + 1) lineEnd ?out) lineEnd" using Suc by simp
  ultimately have "records toks out pos (markDelimiter toks (pos + 1) lineEnd ?out) lineEnd" by (rule records_trans)
  then show ?case using Suc(2) by (simp only: markDelimiter_simps(2) [of pos lineEnd toks out])
qed

lemma markDelimiter_safe:
  "\<not> unsafeIn (markDelimiter toks pos lineEnd out) \<Longrightarrow> pos \<le> lineEnd \<Longrightarrow> recorded toks out pos
     \<Longrightarrow> markDelimiter toks pos lineEnd out = out \<and> tokenFree toks pos lineEnd"
proof (induction "lineEnd - pos" arbitrary: pos out)
  case 0
  then show ?case by (simp add: markDelimiter_simps tokenFree_Nil)
next
  case (Suc n)
  then have lt: "pos < lineEnd" by simp
  show ?case
  proof (cases "tokenEnd toks pos")
    case None
    have "recorded toks out (pos + 1)" using Suc.prems(3) by (force simp: recorded_def)
    then show ?thesis
      using Suc.hyps(1) [of "pos + 1" out] Suc.hyps(2) Suc.prems lt None
      by (simp add: markDelimiter_simps(2) tokenFree_step [OF None])
  next
    case (Some e)
    let ?out = "obj_set pos (UnsafeCtx UP_heredoc_delimiter) out"
    have "recorded toks ?out (pos + 1)" using Suc.prems(3) Some by (force simp: recorded_def obj_simps)
    with markDelimiter_records [of "pos + 1" lineEnd toks ?out] lt
    have "unsafeIn (markDelimiter toks (pos + 1) lineEnd ?out)" using unsafe_records unsafe_set by simp
    then show ?thesis using Suc.prems(1) lt Some by (simp add: markDelimiter_simps(2))
  qed
qed

section \<open>Heredocs without tokens\<close>

function docSkip :: "ustring \<times> bool \<Rightarrow> ustring \<Rightarrow> nat" where
  \<comment> \<open>how much of a text the body of a heredoc takes\<close>
  "docSkip doc xs =
     (if xs = [] then 0
      else
        let line = takeWhile (\<lambda>c. c \<noteq> NL) xs in
        if heredocLine doc line = fst doc then length line + 1
        else length line + 1 + docSkip doc (drop (length line + 1) xs))"
  by pat_completeness auto
termination
  by (relation "measure (\<lambda>(doc, xs). length xs)") auto

declare docSkip.simps [simp del]

lemma lineEndFrom_drop: "pos < length t \<Longrightarrow> lineEndFrom t pos = pos + length (takeWhile (\<lambda>c. c \<noteq> NL) (drop pos t))"
  by (simp add: lineEndFrom_def)

lemma slice_line: "pos < length t \<Longrightarrow> slice t pos (lineEndFrom t pos) = takeWhile (\<lambda>c. c \<noteq> NL) (drop pos t)"
  by (simp add: slice_def lineEndFrom_drop takeWhile_eq_take [symmetric])

definition startsDollar :: "ustring \<Rightarrow> matches \<Rightarrow> bool" where
  "startsDollar t toks = (\<forall>k. tokenEnd toks k \<noteq> None \<longrightarrow> k < length t \<and> t ! k = DOLLAR)"

lemma no_token_at_newline: "startsDollar t toks \<Longrightarrow> pos < length t \<Longrightarrow> tokenEnd toks (lineEndFrom t pos) = None"
proof (rule ccontr)
  let ?xs = "drop pos t" and ?n = "length (takeWhile (\<lambda>c. c \<noteq> NL) (drop pos t))"
  assume sd: "startsDollar t toks" and lt: "pos < length t" and "tokenEnd toks (lineEndFrom t pos) \<noteq> None"
  then have d: "lineEndFrom t pos < length t" "t ! lineEndFrom t pos = DOLLAR" unfolding startsDollar_def by blast+
  then have "?n < length ?xs" using lt by (simp add: lineEndFrom_drop)
  then have "?xs ! ?n = NL" using nth_length_takeWhile [of "\<lambda>c. c \<noteq> NL" ?xs] by simp
  then show False using d lt by (simp add: lineEndFrom_drop)
qed

lemma consumeDoc_records: "records toks out pos (snd (consumeDoc t toks doc pos out)) (fst (consumeDoc t toks doc pos out))"
proof (induction t toks doc pos out rule: consumeDoc.induct)
  case (1 t toks doc pos out)
  show ?case
  proof (cases "pos < length t")
    case False
    then show ?thesis by (simp add: consumeDoc.simps records_same)
  next
    case True
    let ?le = "lineEndFrom t pos"
    have le: "pos \<le> ?le" "?le \<le> length t" using True lineEndFrom_ge lineEndFrom_le by simp_all
    show ?thesis
    proof (cases "heredocLine doc (slice t pos ?le) = fst doc")
      case match: True
      have "records toks out pos (markDelimiter toks pos ?le out) (?le + 1)"
        using records_trans [OF markDelimiter_records [OF le(1)] records_same] by simp
      then show ?thesis using True match by (simp add: consumeDoc.simps [of t toks doc pos out] Let_def)
    next
      case other: False
      obtain le1 out1 where mb: "markBody t toks pos ?le out = (le1, out1)" by fastforce
      have "records toks out pos out1 (le1 + 1)"
        using records_trans [OF markBody_records [OF le, of toks out] records_same] mb by simp
      from records_trans [OF this 1 [OF True refl refl other mb [symmetric]]] show ?thesis
        using True other by (simp add: consumeDoc.simps [of t toks doc pos out] Let_def mb)
    qed
  qed
qed

lemma consumeDoc_safe:
  "startsDollar t toks \<Longrightarrow> recorded toks out pos \<Longrightarrow> \<not> unsafeIn (snd (consumeDoc t toks doc pos out))
     \<Longrightarrow> consumeDoc t toks doc pos out = (pos + docSkip doc (drop pos t), out) \<and> tokenFree toks pos (pos + docSkip doc (drop pos t))"
proof (induction t toks doc pos out rule: consumeDoc.induct)
  case (1 t toks doc pos out)
  show ?case
  proof (cases "pos < length t")
    case False
    then show ?thesis by (simp add: consumeDoc.simps docSkip.simps tokenFree_Nil)
  next
    case True
    let ?le = "lineEndFrom t pos" and ?line = "takeWhile (\<lambda>c. c \<noteq> NL) (drop pos t)"
    have le: "pos \<le> ?le" "?le \<le> length t" using True lineEndFrom_ge lineEndFrom_le by simp_all
    have lele: "?le = pos + length ?line" by (rule lineEndFrom_drop [OF True])
    have nl: "tokenFree toks pos (?le + 1)" if "tokenFree toks pos ?le"
      by (rule tokenFree_trans [OF that tokenFree_step [OF no_token_at_newline [OF 1(2) True] tokenFree_Nil]]) simp
    show ?thesis
    proof (cases "heredocLine doc ?line = fst doc")
      case match: True
      have c: "consumeDoc t toks doc pos out = (?le + 1, markDelimiter toks pos ?le out)"
        using True match by (simp add: consumeDoc.simps [of t toks doc pos out] Let_def slice_line)
      have "docSkip doc (drop pos t) = length ?line + 1" using True match by (simp add: docSkip.simps [of doc "drop pos t"] Let_def)
      then show ?thesis using markDelimiter_safe [OF _ le(1) 1(3)] 1(4) nl c lele by simp
    next
      case other: False
      obtain le1 out1 where mb: "markBody t toks pos ?le out = (le1, out1)" by fastforce
      have c: "consumeDoc t toks doc pos out = consumeDoc t toks doc (le1 + 1) out1"
        using True other by (simp add: consumeDoc.simps [of t toks doc pos out] Let_def slice_line mb)
      have rec1: "records toks out pos out1 (le1 + 1)"
        using records_trans [OF markBody_records [OF le, of toks out] records_same] mb by simp
      then have r1: "recorded toks out1 (le1 + 1)" using 1(3) by (simp add: records_def)
      have "\<not> unsafeIn out1" using unsafe_records [OF consumeDoc_records r1] 1(4) c by metis
      then have same: "le1 = ?le" "out1 = out" "tokenFree toks pos ?le"
        using markBody_safe [OF _ le 1(3)] mb by simp_all
      have "consumeDoc t toks doc (le1 + 1) out1 = (le1 + 1 + docSkip doc (drop (le1 + 1) t), out1)
          \<and> tokenFree toks (le1 + 1) (le1 + 1 + docSkip doc (drop (le1 + 1) t))"
        using 1(1) [OF True refl refl _ mb [symmetric] 1(2) r1] other 1(4) c by (simp add: slice_line [OF True])
      moreover have "drop (le1 + 1) t = drop (length ?line + 1) (drop pos t)" unfolding same lele by (simp add: add.commute)
      moreover have "docSkip doc (drop pos t) = length ?line + 1 + docSkip doc (drop (length ?line + 1) (drop pos t))"
        using True other by (subst docSkip.simps) (simp add: Let_def)
      ultimately show ?thesis using tokenFree_trans [OF nl [OF same(3)]] c same(1,2) lele by (simp add: add.assoc)
    qed
  qed
qed

definition docsSkip :: "(ustring \<times> bool) list \<Rightarrow> ustring \<Rightarrow> nat" where
  "docsSkip docs xs = foldl (\<lambda>n doc. n + docSkip doc (drop n xs)) 0 docs"

lemma docsSkip_from: "foldl (\<lambda>n doc. n + docSkip doc (drop n xs)) n docs = n + docsSkip docs (drop n xs)"
  unfolding docsSkip_def
proof (induction docs arbitrary: n xs)
  case (Cons doc docs)
  let ?m = "docSkip doc (drop n xs)"
  show ?case using Cons.IH [of xs "n + ?m"] Cons.IH [of "drop n xs" ?m] by (simp add: add.assoc add.commute)
qed simp

lemma docsSkip_simps [simp]: "docsSkip [] xs = 0"
  "docsSkip (doc # docs) xs = docSkip doc xs + docsSkip docs (drop (docSkip doc xs) xs)"
  using docsSkip_from [of xs "docSkip doc xs" docs] by (simp_all add: docsSkip_def)

lemma consumeHeredocs_records:
  "records toks out start (snd (consumeHeredocs t toks docs start out)) (fst (consumeHeredocs t toks docs start out))"
  unfolding consumeHeredocs_def
proof (induction docs arbitrary: start out)
  case (Cons doc docs)
  show ?case
    using records_trans [OF consumeDoc_records [of toks out start t doc] Cons.IH]
    by (cases "consumeDoc t toks doc start out") simp
qed (simp add: records_same)

lemma consumeHeredocs_safe:
  "startsDollar t toks \<Longrightarrow> recorded toks out start \<Longrightarrow> \<not> unsafeIn (snd (consumeHeredocs t toks docs start out))
     \<Longrightarrow> consumeHeredocs t toks docs start out = (start + docsSkip docs (drop start t), out)
       \<and> tokenFree toks start (start + docsSkip docs (drop start t))"
proof (induction docs arbitrary: start out)
  case Nil
  then show ?case by (simp add: consumeHeredocs_def tokenFree_Nil)
next
  case (Cons doc docs)
  obtain k o1 where k: "consumeDoc t toks doc start out = (k, o1)" by fastforce
  have step: "consumeHeredocs t toks (doc # docs) start out = consumeHeredocs t toks docs k o1"
    by (simp add: consumeHeredocs_def k)
  have r1: "recorded toks o1 k" using consumeDoc_records [of toks out start t doc] Cons.prems(2) k by (simp add: records_def)
  have safe: "\<not> unsafeIn (snd (consumeHeredocs t toks docs k o1))" using Cons.prems(3) step by simp
  then have "\<not> unsafeIn o1" using unsafe_records [OF consumeHeredocs_records r1] by blast
  then have doc: "k = start + docSkip doc (drop start t)" "o1 = out" "tokenFree toks start k"
    using consumeDoc_safe [OF Cons.prems(1,2), of doc] k by simp_all
  show ?case
    using Cons.IH [OF Cons.prems(1) r1 safe] step doc tokenFree_trans [OF doc(3)]
    by (simp add: add.assoc drop_further [symmetric] add.commute)
qed

lemma heredocWord_records: "records toks out k (snd (heredocWord t toks k out)) (fst (heredocWord t toks k out))"
proof (induction t toks k out rule: heredocWord.induct)
  case (1 t toks k out)
  show ?case
  proof (cases "k < length t \<and> \<not> WORD_BREAK (t ! k)")
    case True
    show ?thesis
    proof (cases "tokenEnd toks k")
      case None
      from records_trans [OF records_same 1(1) [OF True None]] show ?thesis using True None by (simp add: heredocWord.simps [of t toks k out])
    next
      case (Some e)
      from records_trans [OF records_set 1(2) [OF True Some]] tokenEnd_gt [OF Some] Some True show ?thesis
        by (simp add: heredocWord.simps [of t toks k out])
    qed
  qed (auto simp: heredocWord.simps [of t toks k] records_same)
qed

lemma heredocWord_safe:
  "recorded toks out k \<Longrightarrow> \<not> unsafeIn (snd (heredocWord t toks k out))
     \<Longrightarrow> heredocWord t toks k out = (k + length (takeWhile (\<lambda>c. \<not> WORD_BREAK c) (drop k t)), out)
       \<and> tokenFree toks k (k + length (takeWhile (\<lambda>c. \<not> WORD_BREAK c) (drop k t)))"
proof (induction t toks k out rule: heredocWord.induct)
  case (1 t toks k out)
  show ?case
  proof (cases "k < length t \<and> \<not> WORD_BREAK (t ! k)")
    case False
    then have "takeWhile (\<lambda>c. \<not> WORD_BREAK c) (drop k t) = []"
      by (cases "k < length t") (simp_all add: Cons_nth_drop_Suc [symmetric])
    moreover have "heredocWord t toks k out = (k, out)" unfolding heredocWord.simps [of t toks k out] using False by auto
    ultimately show ?thesis by (simp add: tokenFree_Nil)
  next
    case True
    then have tw: "takeWhile (\<lambda>c. \<not> WORD_BREAK c) (drop k t) = t ! k # takeWhile (\<lambda>c. \<not> WORD_BREAK c) (drop (k + 1) t)"
      by (simp add: Cons_nth_drop_Suc [symmetric])
    show ?thesis
    proof (cases "tokenEnd toks k")
      case None
      have "recorded toks out (k + 1)" using 1(3) by (force simp: recorded_def)
      then show ?thesis using 1(1) [OF True None] 1(4) True None tw tokenFree_step [OF None] by (simp add: heredocWord.simps [of t toks k])
    next
      case (Some e)
      have "records toks out k (obj_set k (UnsafeCtx UP_heredoc_delimiter) out) e" using Some tokenEnd_gt [OF Some] by (simp add: records_set)
      then have "recorded toks (obj_set k (UnsafeCtx UP_heredoc_delimiter) out) e" using 1(3) by (simp add: records_def)
      then have "unsafeIn (snd (heredocWord t toks e (obj_set k (UnsafeCtx UP_heredoc_delimiter) out)))"
        by (rule unsafe_records [OF heredocWord_records]) (rule unsafe_set)
      then show ?thesis using 1(4) True Some by (simp add: heredocWord.simps [of t toks k])
    qed
  qed
qed

section \<open>Steps record and steps keep the stack in order\<close>

lemma readHeredocOperator_eq:
  "readHeredocOperator t toks start out =
     (let k1 = (if charAt t (start + 2) = Some 45 then start + 2 + 1 else start + 2);
          w = k1 + length (takeWhile (\<lambda>c. c = 32 \<or> c = 9) (drop k1 t)); r = heredocWord t toks w out;
          delim = filter (\<lambda>c. c \<noteq> SQ \<and> c \<noteq> DQ \<and> c \<noteq> BS) (slice t w (fst r))
      in (fst r, snd r, if delim \<noteq> [] then [(delim, charAt t (start + 2) = Some 45)] else []))"
  unfolding readHeredocOperator_def Let_def split_beta by (rule refl)

lemma readHeredocOperator_records:
  "records toks out start (fst (snd (readHeredocOperator t toks start out))) (fst (readHeredocOperator t toks start out))"
proof -
  let ?k1 = "if charAt t (start + 2) = Some 45 then start + 2 + 1 else start + 2"
  let ?w = "?k1 + length (takeWhile (\<lambda>c. c = 32 \<or> c = 9) (drop ?k1 t))"
  have "records toks out start out ?w" by (rule records_same) simp
  from records_trans [OF this heredocWord_records [of toks out ?w t]] show ?thesis
    by (simp add: readHeredocOperator_eq Let_def)
qed

lemma sc_out_moves [simp]: "sc_out (advance n s) = sc_out s" "sc_out (push f s) = sc_out s" "sc_out (pop s) = sc_out s" "sc_out (setTop f s) = sc_out s"
  by (simp_all add: frame_moves)

lemma inFrame_records:
  "tokenEnd toks (sc_i s) = None
     \<Longrightarrow> records toks (sc_out s) (sc_i s) (sc_out (inFrame t toks f c s)) (sc_i (inFrame t toks f c s))"
proof -
  let ?h = "consumeHeredocs t toks (sc_pending s) (sc_i s + 1) (sc_out s)"
  have heredocs: "records toks (sc_out s) (sc_i s) (snd ?h) (fst ?h)"
    by (rule records_trans [OF records_same consumeHeredocs_records]) simp
  have same: "sc_i s \<le> n \<Longrightarrow> records toks (sc_out s) (sc_i s) (sc_out s) n" for n by (rule records_same)
  show ?thesis
  proof (cases f)
    case (Fr_cmd d b)
    then show ?thesis using heredocs same readHeredocOperator_records [of toks "sc_out s" "sc_i s" t]
      by (simp add: inFrame_def inCmd_def split_beta)
  qed (simp_all add: inFrame_def inDouble_def inArith_def same)
qed

lemma scanStep_records: "records toks (sc_out s) (sc_i s) (sc_out (scanStep t toks s)) (sc_i (scanStep t toks s))"
proof (cases "tokenEnd toks (sc_i s)")
  case (Some e)
  then show ?thesis using tokenEnd_gt [OF Some] by (simp add: scanStep_def Let_def records_set)
next
  case None
  show ?thesis
  proof (cases "t ! sc_i s = BS \<and> topFrame (sc_stack s) \<noteq> Fr_single \<and> topFrame (sc_stack s) \<noteq> Fr_comment")
    case False
    then show ?thesis using inFrame_records [OF None] None by (auto simp: scanStep_def Let_def)
  next
    case True
    show ?thesis
    proof (cases "tokenEnd toks (sc_i s + 1)")
      case (Some e)
      then show ?thesis using True None tokenEnd_gt [OF Some] by (simp add: scanStep_def Let_def records_set)
    next
      case None': None
      then show ?thesis using True None by (simp add: scanStep_def Let_def records_same)
    qed
  qed
qed

fun wfStack :: "Frame list \<Rightarrow> bool" where
  \<comment> \<open>the root is at the bottom, and single quotes and comments are opened in commands\<close>
  "wfStack [] = False"
| "wfStack [f] = (\<exists>d. f = Fr_cmd d False)"
| "wfStack (f # g # k) = (wfStack (g # k) \<and> (f = Fr_single \<or> f = Fr_comment \<longrightarrow> (\<exists>d b. g = Fr_cmd d b)))"

lemma wfStack_push: "wfStack k \<Longrightarrow> (f = Fr_single \<or> f = Fr_comment \<longrightarrow> (\<exists>d b. topFrame k = Fr_cmd d b)) \<Longrightarrow> wfStack (f # k)"
  by (cases k) (simp_all add: topFrame_def)

lemma wfStack_top: "wfStack (f # k) \<Longrightarrow> (f = Fr_cmd d b \<and> f' = Fr_cmd d' b) \<or> (f = Fr_arith n \<and> f' = Fr_arith n') \<Longrightarrow> wfStack (f' # k)"
  by (cases k) auto

lemma wfStack_pop: "wfStack (f # k) \<Longrightarrow> \<not> (\<exists>d. f = Fr_cmd d False) \<Longrightarrow> wfStack k"
  by (cases k) auto

lemma scanStep_wf:
  assumes "wfStack (sc_stack s)"
  shows "wfStack (sc_stack (scanStep t toks s))"
proof -
  obtain f k where st: "sc_stack s = f # k" using assms by (cases "sc_stack s") auto
  have top: "topFrame (sc_stack s) = f" by (simp add: st topFrame_def)
  have "wfStack (sc_stack (inFrame t toks f c s))" for c
    using assms wfStack_push [of "f # k"] wfStack_pop [of f k] wfStack_top [of f k]
    by (cases f) (auto simp: inFrame_def inDouble_def inArith_def inCmd_def frame_moves st split_beta simp del: wfStack.simps)
  then show ?thesis using assms by (simp add: scanStep_def Let_def top split: option.split)
qed

end
