(* ===== verification/Shell_Pieces.thy ===== *)
theory Shell_Pieces
  imports Shell_Inert
begin

text \<open>
  A template as a list of pieces, the characters of the author and the tokens with their values, and the
  main theorem of the escaping: the scan of the substituted text visits the characters of the author in
  the lexical states in which the scan of the template visited them, whatever the values are.
\<close>

section \<open>Pieces\<close>

datatype (plugins only: code size) Piece = Lit "16 word" | Tok ustring ustring \<comment> \<open>the token as written and its value\<close>

fun textOf :: "Piece list \<Rightarrow> ustring" where
  "textOf [] = []"
| "textOf (Lit c # ps) = c # textOf ps"
| "textOf (Tok w v # ps) = w @ textOf ps"

fun matchesOf :: "nat \<Rightarrow> Piece list \<Rightarrow> matches" where
  "matchesOf n [] = []"
| "matchesOf n (Lit c # ps) = matchesOf (n + 1) ps"
| "matchesOf n (Tok w v # ps) = (n, w) # matchesOf (n + length w) ps"

definition insertedText :: "ShellTokenContext \<Rightarrow> ustring \<Rightarrow> ustring \<Rightarrow> ustring" where
  \<comment> \<open>what replaces a token; an unsafe one is left, and the substitution fails\<close>
  "insertedText c w v = (case c of SafeCtx q \<Rightarrow> shellEscapeForContext v q | UnsafeCtx _ \<Rightarrow> w)"

fun rendered :: "(nat \<Rightarrow> ShellTokenContext) \<Rightarrow> nat \<Rightarrow> Piece list \<Rightarrow> ustring" where
  "rendered ctx n [] = []"
| "rendered ctx n (Lit c # ps) = c # rendered ctx (n + 1) ps"
| "rendered ctx n (Tok w v # ps) = insertedText (ctx n) w v @ rendered ctx (n + length w) ps"

definition wfPieces :: "Piece list \<Rightarrow> bool" where
  \<comment> \<open>a token starts with \<open>$\<close> and does not end in a word break\<close>
  "wfPieces ps = (\<forall>w v. Tok w v \<in> set ps \<longrightarrow> w \<noteq> [] \<and> hd w = DOLLAR \<and> \<not> WORD_BREAK (last w))"

lemma textOf_append [simp]: "textOf (p @ q) = textOf p @ textOf q"
  by (induction p rule: textOf.induct) simp_all

lemma matchesOf_append: "matchesOf n (p @ q) = matchesOf n p @ matchesOf (n + length (textOf p)) q"
  by (induction n p rule: matchesOf.induct) (simp_all add: add.assoc)

lemma rendered_append: "rendered ctx n (p @ q) = rendered ctx n p @ rendered ctx (n + length (textOf p)) q"
  by (induction ctx n p rule: rendered.induct) (simp_all add: add.assoc)

lemma textOf_lits [simp]: "textOf (map Lit u) = u" "rendered ctx n (map Lit u) = u"
  by (induction u arbitrary: n) simp_all

lemma wfPieces_simps [simp]: "wfPieces []" "wfPieces (Lit c # ps) = wfPieces ps"
  "wfPieces (Tok w v # ps) = (w \<noteq> [] \<and> hd w = DOLLAR \<and> \<not> WORD_BREAK (last w) \<and> wfPieces ps)"
  "wfPieces (p @ q) = (wfPieces p \<and> wfPieces q)"
  by (auto simp: wfPieces_def)

lemma matches_range: "wfPieces ps \<Longrightarrow> obj_get (matchesOf n ps) k \<noteq> None \<Longrightarrow> n \<le> k \<and> k < n + length (textOf ps) \<and> textOf ps ! (k - n) = DOLLAR"
proof (induction n ps rule: matchesOf.induct)
  case (2 n c ps)
  then have "n + 1 \<le> k" "k < n + 1 + length (textOf ps)" "textOf ps ! (k - (n + 1)) = DOLLAR" by auto
  moreover from this(1) have "k - n = Suc (k - (n + 1))" by simp
  ultimately show ?case by simp
next
  case (3 n w v ps)
  show ?case
  proof (cases "k = n")
    case True
    then show ?thesis using 3(2) by (cases w) (simp_all add: nth_append)
  next
    case False
    then have "n + length w \<le> k" "k < n + length w + length (textOf ps)" "textOf ps ! (k - (n + length w)) = DOLLAR"
      using 3 by auto
    then show ?thesis by (auto simp: nth_append diff_diff_left)
  qed
qed simp

lemma pieces_startsDollar: "wfPieces ps \<Longrightarrow> startsDollar (textOf ps) (matchesOf 0 ps)"
  using matches_range [of ps 0] by (auto simp: startsDollar_def tokenEnd_def split: option.splits)

lemma tokenEnd_piece:
  assumes "wfPieces (p1 @ p2)"
  shows "tokenEnd (matchesOf 0 (p1 @ p2)) (length (textOf p1))
     = (case p2 of Tok w v # _ \<Rightarrow> Some (length (textOf p1) + length w) | _ \<Rightarrow> None)"
proof -
  let ?n = "length (textOf p1)"
  have wf: "wfPieces p1" "wfPieces p2" using assms by simp_all
  have "obj_get (matchesOf 0 p1) ?n = None" using matches_range [OF wf(1), of 0 ?n] by fastforce
  then have get: "obj_get (matchesOf 0 (p1 @ p2)) ?n = obj_get (matchesOf ?n p2) ?n"
    by (simp add: matchesOf_append map_add_def split: option.split)
  show ?thesis
  proof (cases p2)
    case Nil
    then show ?thesis by (simp add: tokenEnd_def get [unfolded Nil] del: append_Nil2)
  next
    case (Cons x p3)
    show ?thesis
    proof (cases x)
      case (Lit c)
      have "obj_get (matchesOf (?n + 1) p3) ?n = None" using matches_range [of p3 "?n + 1" ?n] wf(2) Cons Lit by fastforce
      then show ?thesis using get Cons Lit by (simp add: tokenEnd_def)
    next
      case (Tok w v)
      then show ?thesis using get Cons wf(2) by (cases w) (simp_all add: tokenEnd_def)
    qed
  qed
qed

lemma literal_region:
  "wfPieces (p1 @ p2) \<Longrightarrow> tokenFree (matchesOf 0 (p1 @ p2)) (length (textOf p1)) (length (textOf p1) + n) \<Longrightarrow> n \<le> length (textOf p2)
     \<Longrightarrow> \<exists>u p3. p2 = map Lit u @ p3 \<and> length u = n"
proof (induction n arbitrary: p1 p2)
  case 0
  have "p2 = map Lit [] @ p2" by simp
  then show ?case by (metis list.size(3))
next
  case (Suc n)
  have "tokenEnd (matchesOf 0 (p1 @ p2)) (length (textOf p1)) = None" using Suc.prems(2) by (simp add: tokenFree_def)
  then obtain c p where p2: "p2 = Lit c # p"
    using tokenEnd_piece [OF Suc.prems(1)] Suc.prems(3) by (cases p2) (auto split: Piece.splits)
  have "tokenFree (matchesOf 0 ((p1 @ [Lit c]) @ p)) (length (textOf (p1 @ [Lit c]))) (length (textOf (p1 @ [Lit c])) + n)"
    using Suc.prems(2) by (simp add: p2 tokenFree_def)
  then obtain u p3 where "p = map Lit u @ p3" "length u = n"
    using Suc.IH [of "p1 @ [Lit c]" p] Suc.prems(1,3) by (auto simp: p2)
  then have "p2 = map Lit (c # u) @ p3" "length (c # u) = Suc n" by (simp_all add: p2)
  then show ?case by blast
qed

lemma empty_text: "wfPieces ps \<Longrightarrow> textOf ps = [] \<Longrightarrow> ps = []"
  by (cases ps rule: textOf.cases) auto

section \<open>What the scanner looks at\<close>

lemma takeWhile_local: "length (takeWhile P (u @ x)) \<le> length u \<Longrightarrow> (x = [] \<longleftrightarrow> y = []) \<and> (x \<noteq> [] \<longrightarrow> hd y = hd x)
   \<Longrightarrow> takeWhile P (u @ y) = takeWhile P (u @ x)"
proof (induction u)
  case Nil
  then have "takeWhile P x = []" by simp
  then show ?case using Nil(2) by (cases x; cases y) (auto split: if_splits)
qed (simp split: if_splits)

lemma takeWhile_inside: "length (takeWhile P (u @ x)) < length u \<Longrightarrow> takeWhile P (u @ y) = takeWhile P (u @ x)"
  by (induction u) (simp_all split: if_splits)

lemma docSkip_local: "docSkip doc (u @ x) \<le> length u \<Longrightarrow> (x = [] \<longrightarrow> y = []) \<Longrightarrow> docSkip doc (u @ y) = docSkip doc (u @ x)"
proof (induction "length u" arbitrary: u rule: less_induct)
  case less
  show ?case
  proof (cases "u @ x = []")
    case True
    then show ?thesis using less.prems(2) by simp
  next
    case False
    let ?line = "takeWhile (\<lambda>c. c \<noteq> NL) (u @ x)"
    have "length ?line + 1 \<le> docSkip doc (u @ x)" using False by (subst docSkip.simps) (simp add: Let_def)
    then have lt: "length ?line < length u" using less.prems(1) by simp
    then have line': "takeWhile (\<lambda>c. c \<noteq> NL) (u @ y) = ?line" by (rule takeWhile_inside)
    have ne: "u \<noteq> []" using lt by auto
    let ?u = "drop (length ?line + 1) u"
    have d: "drop (length ?line + 1) (u @ z) = ?u @ z" for z using lt by simp
    show ?thesis
    proof (cases "heredocLine doc ?line = fst doc")
      case True
      then show ?thesis using ne by (subst (1 2) docSkip.simps) (simp add: Let_def line')
    next
      case no: False
      have eqs: "docSkip doc (u @ x) = length ?line + 1 + docSkip doc (?u @ x)" "docSkip doc (u @ y) = length ?line + 1 + docSkip doc (?u @ y)"
        using no ne d by (subst docSkip.simps, simp add: Let_def line')+
      have "docSkip doc (?u @ y) = docSkip doc (?u @ x)"
        using less.hyps [of ?u] less.prems ne eqs(1) lt by simp
      then show ?thesis using eqs by simp
    qed
  qed
qed

lemma docsSkip_local: "docsSkip docs (u @ x) \<le> length u \<Longrightarrow> (x = [] \<longrightarrow> y = []) \<Longrightarrow> docsSkip docs (u @ y) = docsSkip docs (u @ x)"
proof (induction docs arbitrary: u)
  case (Cons doc docs)
  have le: "docSkip doc (u @ x) \<le> length u" using Cons.prems(1) by simp
  have same: "docSkip doc (u @ y) = docSkip doc (u @ x)" by (rule docSkip_local [OF le Cons.prems(2)])
  have "docsSkip docs (drop (docSkip doc (u @ x)) u @ y) = docsSkip docs (drop (docSkip doc (u @ x)) u @ x)"
    using Cons.prems le by (intro Cons.IH) simp_all
  then show ?case using le same by simp
qed simp

definition dashLen :: "ustring \<Rightarrow> nat" where
  "dashLen xs = (if charAt xs 2 = Some 45 then 3 else 2)"

definition wordStart :: "ustring \<Rightarrow> nat" where
  "wordStart xs = dashLen xs + length (takeWhile (\<lambda>c. c = 32 \<or> c = 9) (drop (dashLen xs) xs))"

definition opLen :: "ustring \<Rightarrow> nat" where
  \<comment> \<open>how much of a text a heredoc operator takes with its word\<close>
  "opLen xs = wordStart xs + length (takeWhile (\<lambda>c. \<not> WORD_BREAK c) (drop (wordStart xs) xs))"

definition opDocs :: "ustring \<Rightarrow> (ustring \<times> bool) list" where
  "opDocs xs =
     (let delim = filter (\<lambda>c. c \<noteq> SQ \<and> c \<noteq> DQ \<and> c \<noteq> BS) (slice xs (wordStart xs) (opLen xs))
      in if delim \<noteq> [] then [(delim, charAt xs 2 = Some 45)] else [])"

lemma opLen_ge: "dashLen xs \<le> wordStart xs" "wordStart xs \<le> opLen xs" "2 \<le> dashLen xs"
  by (simp_all add: wordStart_def opLen_def dashLen_def)

lemma charAt_drop: "charAt t (i + k) = charAt (drop i t) k"
  by (auto simp: charAt_def)

lemma op_safe:
  assumes sd: "startsDollar t toks" and rec: "recorded toks out start" and op: "startsAt t start [LANGLE, LANGLE]"
    and safe: "\<not> unsafeIn (fst (snd (readHeredocOperator t toks start out)))"
  shows "readHeredocOperator t toks start out = (start + opLen (drop start t), out, opDocs (drop start t))
     \<and> tokenFree toks start (start + opLen (drop start t))"
proof -
  let ?xs = "drop start t" and ?w = "start + wordStart (drop start t)"
  obtain rest where xs: "?xs = [LANGLE, LANGLE] @ rest" using op startsWith_obtain unfolding startsAt_def by blast
  have k1: "(if charAt t (start + 2) = Some 45 then start + 2 + 1 else start + 2) = start + dashLen ?xs"
    unfolding dashLen_def charAt_drop by simp
  have w: "start + dashLen ?xs + length (takeWhile (\<lambda>c. c = 32 \<or> c = 9) (drop (start + dashLen ?xs) t)) = ?w"
    by (simp add: wordStart_def add.commute add.left_commute)
  have front: "tokenFree toks start ?w"
    unfolding tokenFree_def
  proof (intro allI impI, rule ccontr)
    fix j assume j: "start \<le> j \<and> j < ?w" and "tokenEnd toks j \<noteq> None"
    then have "j < length t" "t ! j = DOLLAR" using sd unfolding startsDollar_def by blast+
    moreover define i where "i = j - start"
    ultimately have i: "i < wordStart ?xs" "?xs ! i = DOLLAR" "i < length ?xs" using j by (auto simp: less_diff_conv2 add.commute)
    have "i \<noteq> 0" using i(2) by (intro notI) (simp add: xs)
    moreover have "i \<noteq> 1" using i(2) by (intro notI) (simp add: xs)
    moreover have "dashLen ?xs = 3 \<Longrightarrow> i \<noteq> 2" using i(2) by (intro notI) (simp add: dashLen_def charAt_def split: if_splits)
    ultimately have ge: "dashLen ?xs \<le> i" by (auto simp: dashLen_def split: if_splits)
    let ?b = "takeWhile (\<lambda>c. c = 32 \<or> c = 9) (drop (dashLen ?xs) ?xs)"
    have lt: "i - dashLen ?xs < length ?b" using i(1) ge by (simp add: wordStart_def)
    then have "?b ! (i - dashLen ?xs) = ?xs ! i" using ge i(3) by (simp add: takeWhile_nth)
    then show False using nth_mem [OF lt] i(2) set_takeWhileD by fastforce
  qed
  have rec': "recorded toks out ?w" using rec records_same [of start ?w toks out] by (simp add: records_def)
  have eq: "readHeredocOperator t toks start out =
      (let r = heredocWord t toks ?w out; delim = filter (\<lambda>c. c \<noteq> SQ \<and> c \<noteq> DQ \<and> c \<noteq> BS) (slice t ?w (fst r))
       in (fst r, snd r, if delim \<noteq> [] then [(delim, charAt ?xs 2 = Some 45)] else []))"
    unfolding readHeredocOperator_eq Let_def k1 w unfolding charAt_drop by (rule refl)
  have "\<not> unsafeIn (snd (heredocWord t toks ?w out))" using safe by (simp add: eq Let_def)
  from heredocWord_safe [OF rec' this]
  have word: "heredocWord t toks ?w out = (start + opLen ?xs, out)" "tokenFree toks ?w (start + opLen ?xs)"
    by (simp_all add: opLen_def add.assoc add.commute)
  have "slice t ?w (start + opLen ?xs) = slice ?xs (wordStart ?xs) (opLen ?xs)"
    by (simp add: slice_def add.commute)
  then show ?thesis using word tokenFree_trans [OF front] by (simp add: eq opDocs_def Let_def)
qed

lemma op_local:
  assumes len: "opLen (u @ x) \<le> length u" and heads: "(x = [] \<longleftrightarrow> y = []) \<and> (x \<noteq> [] \<longrightarrow> hd y = hd x)"
  shows "opLen (u @ y) = opLen (u @ x)" and "opDocs (u @ y) = opDocs (u @ x)"
proof -
  have le: "dashLen (u @ x) \<le> length u" "wordStart (u @ x) \<le> length u" "2 \<le> length u"
    using len opLen_ge [of "u @ x"] by linarith+
  have c2: "charAt (u @ y) 2 = charAt (u @ x) 2"
  proof (cases "length u = 2")
    case True
    then show ?thesis using heads by (cases x; cases y) (auto simp: charAt_def nth_append)
  next
    case False
    then show ?thesis using le(3) by (simp add: charAt_def nth_append)
  qed
  then have d: "dashLen (u @ y) = dashLen (u @ x)" by (simp add: dashLen_def)
  have "takeWhile (\<lambda>c. c = 32 \<or> c = 9) (drop (dashLen (u @ x)) u @ y) = takeWhile (\<lambda>c. c = 32 \<or> c = 9) (drop (dashLen (u @ x)) u @ x)"
    using le len opLen_ge(2) [of "u @ x"] by (intro takeWhile_local heads) (simp add: wordStart_def)
  then have w: "wordStart (u @ y) = wordStart (u @ x)" using le(1) by (simp add: wordStart_def d)
  have "takeWhile (\<lambda>c. \<not> WORD_BREAK c) (drop (wordStart (u @ x)) u @ y) = takeWhile (\<lambda>c. \<not> WORD_BREAK c) (drop (wordStart (u @ x)) u @ x)"
    using le len by (intro takeWhile_local heads) (simp add: opLen_def)
  then show l: "opLen (u @ y) = opLen (u @ x)" using le(2) by (simp add: opLen_def w)
  have "slice (u @ z) (wordStart (u @ x)) (opLen (u @ x)) = slice u (wordStart (u @ x)) (opLen (u @ x))" for z
    using len le(2) by (simp add: slice_def)
  then show "opDocs (u @ y) = opDocs (u @ x)" by (simp add: opDocs_def Let_def l w c2)
qed

section \<open>Two scans in step\<close>

definition sameStates :: "Scan \<Rightarrow> Scan \<Rightarrow> bool" where
  "sameStates s s' = (sc_stack s' = sc_stack s \<and> sc_pending s' = sc_pending s)"

definition atPiece :: "(nat \<Rightarrow> ShellTokenContext) \<Rightarrow> Piece list \<Rightarrow> Piece list \<Rightarrow> Scan \<Rightarrow> Scan \<Rightarrow> bool" where
  \<comment> \<open>the scan of the template and the scan of the substituted text have both passed the pieces \<open>p1\<close>\<close>
  "atPiece ctx p1 p2 s s' =
     (sc_i s = length (textOf p1) \<and> sc_i s' = length (rendered ctx 0 p1) \<and> sameStates s s'
      \<and> (\<forall>p w v. p1 = p @ [Tok w v] \<longrightarrow> ctx (length (textOf p)) = contextOf (topFrame (sc_stack s))))"

definition inStep :: "(nat \<Rightarrow> ShellTokenContext) \<Rightarrow> Piece list \<Rightarrow> Scan \<Rightarrow> Scan \<Rightarrow> bool" where
  "inStep ctx ps s s' =
     ((\<exists>p1 p2. ps = p1 @ p2 \<and> atPiece ctx p1 p2 s s')
      \<or> (length (textOf ps) < sc_i s \<and> length (rendered ctx 0 ps) < sc_i s' \<and> sameStates s s'))"

lemma step_lits:
  assumes at: "atPiece ctx p1 (map Lit u @ p2) s s'" and ps: "ps = p1 @ map Lit u @ p2" and "u \<noteq> []"
    and "sc_i s1 = sc_i s + length u" and "sc_i s1' = sc_i s' + length u" and "sameStates s1 s1'"
  shows "inStep ctx ps s1 s1'"
proof -
  have "p1 @ map Lit u \<noteq> p @ [Tok w v]" for p w v
    using assms(3) by (metis Piece.distinct(1) last_appendR last_map last_snoc map_is_Nil_conv)
  then have "atPiece ctx (p1 @ map Lit u) p2 s1 s1'"
    using assms by (simp add: atPiece_def rendered_append)
  then show ?thesis unfolding inStep_def ps by (metis append.assoc)
qed

definition finalOut :: "Piece list \<Rightarrow> Scan \<Rightarrow> contexts" where
  "finalOut ps s = sc_out (scanLoop (textOf ps) (matchesOf 0 ps) s)"

definition onTrack :: "(nat \<Rightarrow> ShellTokenContext) \<Rightarrow> Piece list \<Rightarrow> Scan \<Rightarrow> bool" where
  \<comment> \<open>a state of a scan of the template that will record no unsafe position\<close>
  "onTrack ctx ps s =
     (wfStack (sc_stack s) \<and> recorded (matchesOf 0 ps) (sc_out s) (sc_i s) \<and> (\<forall>j. sc_escapedAt s = Some j \<longrightarrow> j < sc_i s)
      \<and> \<not> unsafeIn (finalOut ps s) \<and> (\<forall>k x. obj_get (finalOut ps s) k = Some x \<longrightarrow> ctx k = x))"

abbreviation stepOf :: "Piece list \<Rightarrow> Scan \<Rightarrow> Scan" where
  "stepOf ps s \<equiv> scanStep (textOf ps) (matchesOf 0 ps) s"

lemma inFrame_esc: "sc_escapedAt (inFrame t toks f c s) = sc_escapedAt s"
  by (auto simp: inFrame_def inDouble_def inArith_def inCmd_def frame_moves split_beta split: Frame.split)

lemma scanStep_escaped:
  assumes "\<forall>j. sc_escapedAt s = Some j \<longrightarrow> j < sc_i s"
  shows "\<forall>j. sc_escapedAt (scanStep t toks s) = Some j \<longrightarrow> j < sc_i (scanStep t toks s)"
proof -
  have mono: "sc_i s \<le> sc_i (scanStep t toks s)" using scanStep_progress [of s t toks] by auto
  have "sc_escapedAt (scanStep t toks s) = sc_escapedAt s
      \<or> (sc_escapedAt (scanStep t toks s) = Some (sc_i s + 1) \<and> sc_i (scanStep t toks s) = sc_i s + 2)"
    by (auto simp: scanStep_def Let_def inFrame_esc split: option.split)
  then show ?thesis using assms mono by (elim disjE) (auto dest: order_less_le_trans)
qed

lemma onTrack_step: "onTrack ctx ps s \<Longrightarrow> sc_i s < length (textOf ps) \<Longrightarrow> onTrack ctx ps (stepOf ps s)"
  using scanStep_wf scanStep_records scanStep_escaped
  unfolding onTrack_def finalOut_def records_def by (simp add: scanLoop.simps [of "textOf ps" "matchesOf 0 ps" s])

lemma scanLoop_records: "records toks (sc_out s) (sc_i s) (sc_out (scanLoop t toks s)) (sc_i (scanLoop t toks s))"
proof (induction t toks s rule: scanLoop.induct)
  case (1 t toks s)
  show ?case
  proof (cases "sc_i s < length t")
    case True
    from records_trans [OF scanStep_records 1 [OF True]] True show ?thesis by (simp add: scanLoop.simps [of t toks s])
  qed (simp add: scanLoop.simps [of t toks s] records_same)
qed

lemma onTrack_out:
  assumes "onTrack ctx ps s"
  shows "\<not> unsafeIn (sc_out s)" and "obj_get (sc_out s) k = Some x \<Longrightarrow> ctx k = x \<and> (\<exists>q. x = SafeCtx q)"
proof -
  have r: "records (matchesOf 0 ps) (sc_out s) (sc_i s) (finalOut ps s) (sc_i (scanLoop (textOf ps) (matchesOf 0 ps) s))"
    unfolding finalOut_def by (rule scanLoop_records)
  then show "\<not> unsafeIn (sc_out s)" using unsafe_records [OF r] assms unfolding onTrack_def by blast
  assume "obj_get (sc_out s) k = Some x"
  then have "obj_get (finalOut ps s) k = Some x" using r assms unfolding records_def onTrack_def by blast
  then have "ctx k = x" "\<not> (\<exists>p. x = UnsafeCtx p)" using assms unfolding onTrack_def unsafeIn_def by blast+
  then show "ctx k = x \<and> (\<exists>q. x = SafeCtx q)" by (cases x) auto
qed

text \<open>The piece the scan of the template has in front of it.\<close>

lemma at_token:
  assumes track: "onTrack ctx ps s" and wf: "wfPieces ps" and ps: "ps = p1 @ Tok w v # p2" and i: "sc_i s = length (textOf p1)"
  shows "ctx (sc_i s) = contextOf (topFrame (sc_stack s))" and "\<exists>q. contextOf (topFrame (sc_stack s)) = SafeCtx q"
    and "prevChar (textOf ps) (sc_i s) = Some DOLLAR \<Longrightarrow> sc_escapedAt s = Some (sc_i s - 1)"
    and "sc_stack (stepOf ps s) = sc_stack s" and "sc_pending (stepOf ps s) = sc_pending s"
    and "sc_i (stepOf ps s) = sc_i s + length w"
proof -
  have w: "w \<noteq> []" using wf by (simp add: ps)
  have tok: "tokenEnd (matchesOf 0 ps) (sc_i s) = Some (sc_i s + length w)"
    using tokenEnd_piece [of p1 "Tok w v # p2"] wf by (simp add: ps i)
  let ?x = "if prevChar (textOf ps) (sc_i s) = Some DOLLAR \<and> sc_escapedAt s \<noteq> Some (sc_i s - 1) then UnsafeCtx UP_dollar_prefix
     else contextOf (topFrame (sc_stack s))"
  have step: "stepOf ps s = s\<lparr>sc_i := sc_i s + length w, sc_out := obj_set (sc_i s) ?x (sc_out s)\<rparr>"
    by (simp add: scanStep_def Let_def tok)
  have "sc_i s < length (textOf ps)" using w by (simp add: ps i)
  then have "onTrack ctx ps (stepOf ps s)" by (rule onTrack_step [OF track])
  then have "ctx (sc_i s) = ?x \<and> (\<exists>q. ?x = SafeCtx q)"
    by (rule onTrack_out(2)) (simp add: step obj_simps)
  then show "ctx (sc_i s) = contextOf (topFrame (sc_stack s))" "\<exists>q. contextOf (topFrame (sc_stack s)) = SafeCtx q"
    and "prevChar (textOf ps) (sc_i s) = Some DOLLAR \<Longrightarrow> sc_escapedAt s = Some (sc_i s - 1)"
    by (auto split: if_splits)
  show "sc_stack (stepOf ps s) = sc_stack s" "sc_pending (stepOf ps s) = sc_pending s" "sc_i (stepOf ps s) = sc_i s + length w"
    by (simp_all add: step)
qed

lemma prevChar_append [simp]: "prevChar (u @ x) (length u) = (if u = [] then None else Some (last u))"
  by (cases u rule: rev_cases) (simp_all add: prevChar_def charAt_def nth_append)

lemma after_dollar:
  \<comment> \<open>a token is never read right after a dollar that was not escaped\<close>
  assumes "onTrack ctx ps s1" and "wfPieces ps" and "ps = (p1 @ [Lit DOLLAR]) @ Tok w v # p2"
    and "sc_i s1 = length (textOf (p1 @ [Lit DOLLAR]))" and "sc_escapedAt s1 \<noteq> Some (length (textOf p1))"
  shows False
proof -
  have "prevChar (textOf ps) (sc_i s1) = Some DOLLAR"
    unfolding assms(3,4) textOf_append [of "p1 @ [Lit DOLLAR]"] by (subst prevChar_append) simp
  then have "sc_escapedAt s1 = Some (sc_i s1 - 1)" by (rule at_token(3) [OF assms(1-4)])
  then show False using assms(4,5) by simp
qed

lemma token_pass:
  assumes track: "onTrack ctx ps s" and wf: "wfPieces ps" and ps: "ps = p1 @ Tok w v # p2" and at: "atPiece ctx p1 (Tok w v # p2) s s'"
  shows "\<exists>s1'. scan_reach (rendered ctx 0 ps) [] s' s1' \<and> inStep ctx ps (stepOf ps s) s1'"
proof -
  let ?r = "rendered ctx 0 ps" and ?m = "length (rendered ctx 0 p1)"
  have i: "sc_i s = length (textOf p1)" "sc_i s' = ?m" "sc_stack s' = sc_stack s" "sc_pending s' = sc_pending s"
    using at by (simp_all add: atPiece_def sameStates_def)
  obtain q where q: "contextOf (topFrame (sc_stack s)) = SafeCtx q" "ctx (sc_i s) = SafeCtx q"
    using at_token(1,2) [OF track wf ps i(1)] by auto
  let ?e = "shellEscapeForContext v q"
  have r: "?r = rendered ctx 0 p1 @ ?e @ rendered ctx (length (textOf p1) + length w) p2"
    using q(2) by (simp add: ps rendered_append insertedText_def i(1))
  have here: "drop (sc_i s') ?r = ?e @ rendered ctx (length (textOf p1) + length w) p2" by (simp add: r i(2))
  obtain f k where fk: "sc_stack s = f # k" "wfStack (f # k)" using track by (cases "sc_stack s") (auto simp: onTrack_def)
  have "reaches ?r s' (length ?e) (sc_stack s')"
  proof (cases f)
    case (Fr_cmd d b)
    then show ?thesis using q(1) here hop_bare [of s' ?r v] fk i(3) by (simp add: topFrame_def)
  next
    case Fr_double
    then show ?thesis using q(1) here hop_double [of s' ?r v] fk i(3) by (simp add: topFrame_def)
  next
    case Fr_single
    then obtain d b k' where "k = Fr_cmd d b # k'" using fk(2) by (cases k) auto
    then show ?thesis using Fr_single q(1) here hop_single [of s' ?r v] fk i(3) by (simp add: topFrame_def)
  qed (use q(1) fk in \<open>simp_all add: topFrame_def\<close>)
  then obtain s1' where s1': "scan_reach ?r [] s' s1'" "sc_i s1' = ?m + length ?e" "sc_stack s1' = sc_stack s" "sc_pending s1' = sc_pending s"
    using i by (auto simp: reaches_def)
  have "atPiece ctx (p1 @ [Tok w v]) p2 (stepOf ps s) s1'"
    using at_token(4-6) [OF track wf ps i(1)] s1' q i(1)
    by (simp add: atPiece_def sameStates_def rendered_append insertedText_def)
  then show ?thesis using s1'(1) unfolding inStep_def ps by (metis append.assoc append_Cons append_Nil)
qed

end
