(* ===== verification/Template_Refs.thy ===== *)
theory Template_Refs
  imports Shell_Pieces
begin

text \<open>
  The reference tokens of a template, \<open>packages/core/src/engine/substitution.ts\<close> and
  \<open>outputs-substitution.ts\<close>: the three token expressions as deterministic matchers (the character
  classes on both sides of every repetition are disjoint, so a greedy match never backtracks), and the leftmost
  non-overlapping matches of a global expression as a split of the template into characters and references.
\<close>

section \<open>The token expressions\<close>

definition isLetter :: "16 word \<Rightarrow> bool" where
  "isLetter c = ((65 \<le> c \<and> c \<le> 90) \<or> (97 \<le> c \<and> c \<le> 122))"

definition isWordChar :: "16 word \<Rightarrow> bool" where
  \<comment> \<open>\<open>[a-zA-Z0-9_]\<close>, the class of the outputs path\<close>
  "isWordChar c = (isLetter c \<or> (48 \<le> c \<and> c \<le> 57) \<or> c = 95)"

definition isInputChar :: "16 word \<Rightarrow> bool" where
  \<comment> \<open>\<open>[a-zA-Z0-9_-]\<close>, the class of the inputs path\<close>
  "isInputChar c = (isWordChar c \<or> c = 45)"

abbreviation (input) DOT :: "16 word" where "DOT \<equiv> 46"

definition matchLit :: "ustring \<Rightarrow> ustring \<Rightarrow> ustring option" where
  "matchLit p s = (if startsWith s p then Some (drop (length p) s) else None)"

definition matchIdent :: "(16 word \<Rightarrow> bool) \<Rightarrow> ustring \<Rightarrow> (ustring \<times> ustring) option" where
  \<comment> \<open>a letter and then characters of the class: what it matched, and the rest\<close>
  "matchIdent ok s =
     (case s of [] \<Rightarrow> None | c # r \<Rightarrow> if isLetter c then Some (c # takeWhile ok r, dropWhile ok r) else None)"

lemma matchLit_length: "matchLit p s = Some r \<Longrightarrow> s = p @ r"
  by (auto simp: matchLit_def split: if_splits dest: startsWith_obtain)

lemma matchIdent_text: "matchIdent ok s = Some (w, r) \<Longrightarrow> s = w @ r \<and> w \<noteq> []"
  by (auto simp: matchIdent_def split: list.splits if_splits)

function matchMore :: "(16 word \<Rightarrow> bool) \<Rightarrow> ustring \<Rightarrow> ustring \<times> ustring" where
  \<comment> \<open>\<open>(?:\.ident)*\<close>\<close>
  "matchMore ok s =
     (case s of
        [] \<Rightarrow> ([], [])
      | c # r \<Rightarrow>
          if c = DOT then
            case matchIdent ok r of
              None \<Rightarrow> ([], s)
            | Some (w, r1) \<Rightarrow> (case matchMore ok r1 of (ws, r2) \<Rightarrow> (DOT # w @ ws, r2))
          else ([], s))"
  by pat_completeness auto
termination
  by (relation "measure (\<lambda>(ok, s). length s)") (auto dest: matchIdent_text)

declare matchMore.simps [simp del]

definition matchPath :: "(16 word \<Rightarrow> bool) \<Rightarrow> ustring \<Rightarrow> (ustring \<times> ustring) option" where
  "matchPath ok s =
     (case matchIdent ok s of
        None \<Rightarrow> None
      | Some (w, r) \<Rightarrow> (case matchMore ok r of (ws, r1) \<Rightarrow> Some (w @ ws, r1)))"

datatype (plugins only: code size) RefGroups =
    InputRef ustring \<comment> \<open>\<open>inName\<close>\<close>
  | OutputRef ustring ustring \<comment> \<open>\<open>outProducer\<close> and \<open>outRest\<close>\<close>

definition inputBody :: "ustring \<Rightarrow> (RefGroups \<times> ustring) option" where
  "inputBody s =
     (case matchLit (U ''inputs.'') s of
        None \<Rightarrow> None
      | Some r \<Rightarrow> (case matchPath isInputChar r of None \<Rightarrow> None | Some (w, r1) \<Rightarrow> Some (InputRef w, r1)))"

definition outputBody :: "ustring \<Rightarrow> (RefGroups \<times> ustring) option" where
  "outputBody s =
     (case matchLit (U ''outputs.'') s of
        None \<Rightarrow> None
      | Some r \<Rightarrow>
          (case matchIdent isWordChar r of
             None \<Rightarrow> None
           | Some (producer, r1) \<Rightarrow>
               (case matchLit [DOT] r1 of
                  None \<Rightarrow> None
                | Some r2 \<Rightarrow>
                    (case matchPath isWordChar r2 of
                       None \<Rightarrow> None
                     | Some (rest, r3) \<Rightarrow> Some (OutputRef producer rest, r3)))))"

definition combinedBody :: "ustring \<Rightarrow> (RefGroups \<times> ustring) option" where
  "combinedBody s = orOption (inputBody s) (outputBody s)"

definition matchToken :: "(ustring \<Rightarrow> (RefGroups \<times> ustring) option) \<Rightarrow> ustring \<Rightarrow> (RefGroups \<times> ustring) option" where
  \<comment> \<open>\<open>\$\{\{\s*\<close> body \<open>\s*\}\}\<close> at the start of the text\<close>
  "matchToken body s =
     (case matchLit (U ''${{'') s of
        None \<Rightarrow> None
      | Some r \<Rightarrow>
          (case body (dropWhile isSpace r) of
             None \<Rightarrow> None
           | Some (g, r1) \<Rightarrow>
               (case matchLit (U ''}}'') (dropWhile isSpace r1) of None \<Rightarrow> None | Some r2 \<Rightarrow> Some (g, r2))))"

abbreviation INPUT_REF_RE where "INPUT_REF_RE \<equiv> matchToken inputBody"
abbreviation OUTPUT_REF_RE where "OUTPUT_REF_RE \<equiv> matchToken outputBody"
abbreviation COMBINED_REF_RE where "COMBINED_REF_RE \<equiv> matchToken combinedBody"

section \<open>All matches\<close>

datatype (plugins only: code size) TemplatePiece =
    Chr "16 word"
  | Ref nat ustring RefGroups \<comment> \<open>\<open>m.index\<close>, \<open>m[0]\<close> and the groups\<close>

definition shrinks :: "(ustring \<Rightarrow> (RefGroups \<times> ustring) option) \<Rightarrow> ustring \<Rightarrow> (RefGroups \<times> ustring) option" where
  \<comment> \<open>a match, of at least one character\<close>
  "shrinks re s = (case re s of Some (g, r) \<Rightarrow> if length r < length s then Some (g, r) else None | None \<Rightarrow> None)"

function splitRefs :: "(ustring \<Rightarrow> (RefGroups \<times> ustring) option) \<Rightarrow> nat \<Rightarrow> ustring \<Rightarrow> TemplatePiece list" where
  "splitRefs re i [] = []"
| "splitRefs re i (c # s) =
     (case shrinks re (c # s) of
        Some (g, r) \<Rightarrow>
          (let n = length (c # s) - length r in Ref i (take n (c # s)) g # splitRefs re (i + n) r)
      | None \<Rightarrow> Chr c # splitRefs re (i + 1) s)"
  by pat_completeness auto
termination
  by (relation "measure (\<lambda>(re, i, s). length s)") (auto simp: shrinks_def split: option.splits if_splits)

declare splitRefs.simps(2) [simp del]

fun refsOf :: "TemplatePiece list \<Rightarrow> (nat \<times> ustring \<times> RefGroups) list" where
  \<comment> \<open>\<open>template.matchAll(re)\<close>\<close>
  "refsOf [] = []"
| "refsOf (Chr c # ps) = refsOf ps"
| "refsOf (Ref i w g # ps) = (i, w, g) # refsOf ps"

definition matchAll :: "(ustring \<Rightarrow> (RefGroups \<times> ustring) option) \<Rightarrow> ustring \<Rightarrow> (nat \<times> ustring \<times> RefGroups) list" where
  "matchAll re template = refsOf (splitRefs re 0 template)"

definition tokenTable :: "(ustring \<Rightarrow> (RefGroups \<times> ustring) option) \<Rightarrow> ustring \<Rightarrow> matches" where
  "tokenTable re template = map (\<lambda>(i, w, g). (i, w)) (matchAll re template)"

section \<open>The pieces of a template\<close>

fun piecesOf :: "(nat \<Rightarrow> ustring \<Rightarrow> RefGroups \<Rightarrow> ustring) \<Rightarrow> TemplatePiece list \<Rightarrow> Piece list" where
  \<comment> \<open>with the value of each reference\<close>
  "piecesOf val [] = []"
| "piecesOf val (Chr c # ps) = Lit c # piecesOf val ps"
| "piecesOf val (Ref i w g # ps) = Tok w (val i w g) # piecesOf val ps"

definition isToken :: "ustring \<Rightarrow> bool" where
  "isToken w = (w \<noteq> [] \<and> hd w = DOLLAR \<and> last w = 125)"

lemma matchIdent_ext: "matchIdent ok s = Some (w, r) \<Longrightarrow> \<exists>u. s = u @ r"
  using matchIdent_text by blast

lemma matchMore_ext: "\<exists>u. s = u @ snd (matchMore ok s)"
proof (induction ok s rule: matchMore.induct)
  case (1 ok s)
  show ?case
  proof (cases s)
    case (Cons c r)
    show ?thesis
    proof (cases "c = DOT")
      case True
      show ?thesis
      proof (cases "matchIdent ok r")
        case (Some p)
        obtain w r1 where p: "p = (w, r1)" by fastforce
        obtain u where "r1 = u @ snd (matchMore ok r1)" using 1 [OF Cons True Some p [symmetric]] by blast
        then have "s = (DOT # w @ u) @ snd (matchMore ok r1)"
          using Cons True matchIdent_text [OF Some [unfolded p]] by simp
        moreover have "snd (matchMore ok s) = snd (matchMore ok r1)"
          using Cons True Some p by (simp add: matchMore.simps [of ok "DOT # r"] split_beta)
        ultimately show ?thesis by metis
      qed (use Cons True in \<open>simp add: matchMore.simps [of ok "DOT # r"]\<close>)
    qed (use Cons in \<open>simp add: matchMore.simps [of ok "c # r"]\<close>)
  qed (simp add: matchMore.simps)
qed

lemma matchPath_ext: "matchPath ok s = Some (w, r) \<Longrightarrow> \<exists>u. s = u @ r"
proof -
  assume a: "matchPath ok s = Some (w, r)"
  then obtain x y where i: "matchIdent ok s = Some (x, y)" by (auto simp: matchPath_def split: option.splits)
  then have "r = snd (matchMore ok y)" using a by (auto simp: matchPath_def split: prod.splits)
  then obtain u where "y = u @ r" using matchMore_ext [of y ok] by blast
  then have "s = (x @ u) @ r" using matchIdent_text [OF i] by simp
  then show ?thesis by blast
qed

lemma inputBody_ext: "inputBody s = Some (g, r) \<Longrightarrow> \<exists>u. s = u @ r"
proof -
  assume a: "inputBody s = Some (g, r)"
  then obtain x w where x: "matchLit (U ''inputs.'') s = Some x" "matchPath isInputChar x = Some (w, r)"
    by (auto simp: inputBody_def split: option.splits)
  then obtain u where "x = u @ r" using matchPath_ext by blast
  then have "s = (U ''inputs.'' @ u) @ r" using matchLit_length [OF x(1)] by simp
  then show ?thesis by blast
qed

lemma outputBody_ext: "outputBody s = Some (g, r) \<Longrightarrow> \<exists>u. s = u @ r"
proof -
  assume a: "outputBody s = Some (g, r)"
  then obtain x p y z w where x: "matchLit (U ''outputs.'') s = Some x" "matchIdent isWordChar x = Some (p, y)"
      "matchLit [DOT] y = Some z" "matchPath isWordChar z = Some (w, r)"
    by (auto simp: outputBody_def split: option.splits)
  then obtain u where "z = u @ r" using matchPath_ext by blast
  then have "s = (U ''outputs.'' @ p @ [DOT] @ u) @ r"
    using matchLit_length [OF x(1)] matchIdent_text [OF x(2)] matchLit_length [OF x(3)] by simp
  then show ?thesis by blast
qed

lemma combinedBody_ext: "combinedBody s = Some (g, r) \<Longrightarrow> \<exists>u. s = u @ r"
  using inputBody_ext outputBody_ext by (auto simp: combinedBody_def orOption_def split: option.splits)

lemma drop_suffix: "\<exists>u. s = u @ dropWhile P s"
  by (metis takeWhile_dropWhile_id)

lemma matchToken_shape:
  assumes ext: "\<And>s g r. body s = Some (g, r) \<Longrightarrow> \<exists>u. s = u @ r" and m: "matchToken body s = Some (g, r)"
  shows "\<exists>w. s = w @ r \<and> isToken w"
proof -
  obtain x y where x: "matchLit (U ''${{'') s = Some x" and y: "body (dropWhile isSpace x) = Some (g, y)"
    and z: "matchLit (U ''}}'') (dropWhile isSpace y) = Some r"
    using m by (auto simp: matchToken_def split: option.splits)
  obtain u where u: "dropWhile isSpace x = u @ y" using ext [OF y] by blast
  obtain p q where p: "x = p @ u @ y" "y = q @ U ''}}'' @ r"
    using drop_suffix [of x isSpace] drop_suffix [of y isSpace] u matchLit_length [OF z] by metis
  have "s = (U ''${{'' @ p @ u @ q @ U ''}}'') @ r" using matchLit_length [OF x] p by simp
  moreover have "isToken (U ''${{'' @ p @ u @ q @ U ''}}'')" by (simp add: isToken_def ustr)
  ultimately show ?thesis by blast
qed

lemma token_shapes:
  "INPUT_REF_RE s = Some (g, r) \<Longrightarrow> \<exists>w. s = w @ r \<and> isToken w"
  "OUTPUT_REF_RE s = Some (g, r) \<Longrightarrow> \<exists>w. s = w @ r \<and> isToken w"
  "COMBINED_REF_RE s = Some (g, r) \<Longrightarrow> \<exists>w. s = w @ r \<and> isToken w"
  using matchToken_shape [of inputBody] matchToken_shape [of outputBody] matchToken_shape [of combinedBody]
    inputBody_ext outputBody_ext combinedBody_ext by blast+

definition refMatcher :: "(ustring \<Rightarrow> (RefGroups \<times> ustring) option) \<Rightarrow> bool" where
  "refMatcher re = (\<forall>s g r. re s = Some (g, r) \<longrightarrow> (\<exists>w. s = w @ r \<and> isToken w))"

lemma refMatchers [simp]: "refMatcher INPUT_REF_RE" "refMatcher OUTPUT_REF_RE" "refMatcher COMBINED_REF_RE"
  unfolding refMatcher_def using token_shapes by blast+

lemma refMatcher_shrinks: "refMatcher re \<Longrightarrow> shrinks re = re"
proof
  fix s assume "refMatcher re"
  then have "length r < length s" if "re s = Some (g, r)" for g r
    using that by (fastforce simp: refMatcher_def isToken_def)
  then show "shrinks re s = re s" by (auto simp: shrinks_def split: option.splits)
qed

lemma splitRefs_ref:
  assumes "refMatcher re" and "re (w @ r) = Some (g, r)"
  shows "w \<noteq> []" "splitRefs re i (w @ r) = Ref i w g # splitRefs re (i + length w) r"
proof -
  obtain v where "w @ r = v @ r" "isToken v" using assms unfolding refMatcher_def by blast
  then show ne: "w \<noteq> []" by (auto simp: isToken_def)
  then obtain c u where w: "w = c # u" by (cases w) auto
  have "shrinks re (c # u @ r) = Some (g, r)" using assms(2) w by (simp add: refMatcher_shrinks [OF assms(1)])
  then show "splitRefs re i (w @ r) = Ref i w g # splitRefs re (i + length w) r"
    using w by (simp add: splitRefs.simps(2))
qed

lemma splitRefs_chr: "refMatcher re \<Longrightarrow> re (c # s) = None \<Longrightarrow> splitRefs re i (c # s) = Chr c # splitRefs re (i + 1) s"
  by (simp add: splitRefs.simps refMatcher_shrinks)

lemma splitRefs_pieces:
  "refMatcher re \<Longrightarrow> textOf (piecesOf val (splitRefs re i s)) = s
     \<and> matchesOf i (piecesOf val (splitRefs re i s)) = map (\<lambda>(i, w, g). (i, w)) (refsOf (splitRefs re i s))
     \<and> wfPieces (piecesOf val (splitRefs re i s))"
proof (induction "length s" arbitrary: i s rule: less_induct)
  case less
  have ndw: "\<not> WORD_BREAK 125" by (simp add: WORD_BREAK_def isSpace_def)
  show ?case
  proof (cases s)
    case (Cons c t)
    show ?thesis
    proof (cases "re s")
      case None
      then show ?thesis using less.hyps [of t "i + 1"] less.prems Cons by (simp add: splitRefs_chr)
    next
      case (Some p)
      obtain g r where p: "p = (g, r)" by fastforce
      obtain w where w: "s = w @ r" "isToken w" using Some p less.prems unfolding refMatcher_def by blast
      from Some [unfolded p w(1)] splitRefs_ref [OF less.prems] have
        "w \<noteq> []" and "splitRefs re i s = Ref i w g # splitRefs re (i + length w) r" unfolding w(1) by blast+
      then show ?thesis using less.hyps [of r "i + length w"] less.prems w ndw by (simp add: isToken_def)
    qed
  qed simp
qed

lemma tokenTable_keys: "refMatcher re \<Longrightarrow> tokenTable re s = matchesOf 0 (piecesOf val (splitRefs re 0 s))"
  using splitRefs_pieces by (simp add: tokenTable_def matchAll_def)

end
