(* ===== verification/Js_Objects.thy ===== *)
theory Js_Objects
  imports Routing
begin

text \<open>
  What the substitution and the typed values use of the source language beside the prelude: rendering of
  scalars, the enumeration order of an object's own properties, and reads by brackets, which also find the
  members of \<open>Object.prototype\<close>.
\<close>

section \<open>Values\<close>

fun String_number :: "jsnum \<Rightarrow> ustring" where
  "String_number (Fin r) = numberToString r"
| "String_number NaN = U ''NaN''"
| "String_number PosInf = U ''Infinity''"
| "String_number NegInf = U ''-Infinity''"

fun String_bool :: "bool \<Rightarrow> ustring" where
  "String_bool b = (if b then U ''true'' else U ''false'')"

definition utrim :: "ustring \<Rightarrow> ustring" where
  \<comment> \<open>\<open>String.prototype.trim\<close>\<close>
  "utrim s = rev (dropWhile isSpace (rev (dropWhile isSpace s)))"

fun splitDots :: "ustring \<Rightarrow> ustring list" where
  \<comment> \<open>\<open>s.split(".")\<close>\<close>
  "splitDots [] = [[]]"
| "splitDots (c # s) = (if c = 46 then [] # splitDots s else (c # hd (splitDots s)) # tl (splitDots s))"

fun String_value :: "jsval \<Rightarrow> ustring" and String_elements :: "jsval list \<Rightarrow> ustring list" where
  \<comment> \<open>\<open>String(v)\<close>; an array joins its elements, where \<open>null\<close> is empty\<close>
  "String_value JNull = U ''null''"
| "String_value (JBool b) = String_bool b"
| "String_value (JNum n) = String_number n"
| "String_value (JStr s) = s"
| "String_value (JArr vs) = ujoin (U '','') (String_elements vs)"
| "String_value (JObj ob) = U ''[object Object]''"
| "String_elements [] = []"
| "String_elements (v # vs) = (if v = JNull then [] else String_value v) # String_elements vs"

fun typeof :: "jsval \<Rightarrow> ustring" where
  "typeof (JBool b) = U ''boolean''"
| "typeof (JNum n) = U ''number''"
| "typeof (JStr s) = U ''string''"
| "typeof v = U ''object''"

section \<open>Objects\<close>

definition arrayIndex :: "ustring \<Rightarrow> nat option" where
  \<comment> \<open>the index an integer-like property name stands for; these come first, in numeric order\<close>
  "arrayIndex k =
     (let n = foldl (\<lambda>a c. 10 * a + (unat c - 48)) 0 k in
      if k \<noteq> [] \<and> (\<forall>c \<in> set k. 48 \<le> c \<and> c \<le> 57) \<and> (k = [48] \<or> hd k \<noteq> 48) \<and> n < 4294967295 then Some n else None)"

definition ownOrder :: "(ustring \<times> 'v) list \<Rightarrow> (ustring \<times> 'v) list" where
  \<comment> \<open>the enumeration order of an object whose properties were assigned in the order of the list\<close>
  "ownOrder ob =
     sort_key (\<lambda>p. the (arrayIndex (fst p))) (filter (\<lambda>p. arrayIndex (fst p) \<noteq> None) ob)
     @ filter (\<lambda>p. arrayIndex (fst p) = None) ob"

datatype (plugins only: code size) 'v Resolved =
    RV_undefined
  | RV_builtin \<comment> \<open>a function of \<open>Object.prototype\<close>\<close>
  | RV_val 'v

definition OBJECT_PROTOTYPE :: "ustring list" where
  \<comment> \<open>the members a path segment can name\<close>
  "OBJECT_PROTOTYPE = map U [''constructor'', ''hasOwnProperty'', ''isPrototypeOf'', ''propertyIsEnumerable'',
     ''toLocaleString'', ''toString'', ''valueOf'']"

definition PROTOTYPE_ACCESSORS :: "ustring list" where
  \<comment> \<open>its other members, which no path segment can name\<close>
  "PROTOTYPE_ACCESSORS = map U [''__defineGetter__'', ''__defineSetter__'', ''__lookupGetter__'', ''__lookupSetter__'', ''__proto__'']"

definition getProp :: "(ustring \<times> 'v) list \<Rightarrow> ustring \<Rightarrow> 'v Resolved" where
  \<comment> \<open>\<open>ob[k]\<close>\<close>
  "getProp ob k =
     (case obj_get ob k of
        Some v \<Rightarrow> RV_val v
      | None \<Rightarrow> if k \<in> set OBJECT_PROTOTYPE then RV_builtin else RV_undefined)"


end
