(* ===== verification/Substitution.thy ===== *)
theory Substitution
  imports Template_Refs Js_Objects
begin

text \<open>
  Substitution of references in a template, \<open>packages/core/src/engine/substitution.ts\<close> and
  \<open>outputs-substitution.ts\<close>: resolution of a reference against the inputs and the outputs of a run, rendering
  of a value, and the single pass that replaces every token of a template. A thrown error is a value of \<open>SubstError\<close>.
  The hash of a wrapped value is the code of a package: it is the parameter \<open>sha256Hex\<close>. The \<open>JSON\<close> objects of the
  inputs and the outputs are plain objects, so a read by brackets also finds the members of \<open>Object.prototype\<close>.
\<close>

section \<open>Canonical JSON\<close>

fun canonicalize :: "jsval \<Rightarrow> jsval" and canonicalElements :: "jsval list \<Rightarrow> jsval list"
  and canonicalMembers :: "(ustring \<times> jsval) list \<Rightarrow> (ustring \<times> jsval) list" where
  "canonicalize (JArr vs) = JArr (canonicalElements vs)"
| "canonicalize (JObj ob) = JObj (ownOrder (sort_key fst (canonicalMembers ob)))"
| "canonicalize v = v"
| "canonicalElements [] = []"
| "canonicalElements (v # vs) = canonicalize v # canonicalElements vs"
| "canonicalMembers [] = []"
| "canonicalMembers ((k, v) # ms) =
     (if k = U ''__proto__'' then canonicalMembers ms \<comment> \<open>the assignment sets the prototype\<close>
      else (k, canonicalize v) # canonicalMembers ms)"

definition canonicalJson :: "jsval \<Rightarrow> ustring" where
  "canonicalJson v = JSON_stringify (canonicalize v)"

fun renderOutputValue :: "jsval \<Rightarrow> ustring" where
  "renderOutputValue (JStr s) = s"
| "renderOutputValue (JNum n) = String_number n"
| "renderOutputValue (JBool b) = String_bool b"
| "renderOutputValue v = canonicalJson v"

section \<open>Resolution of an output reference\<close>

fun resolveSegments :: "jsval Resolved \<Rightarrow> ustring list \<Rightarrow> jsval Resolved" where
  "resolveSegments cur [] = cur"
| "resolveSegments (RV_val (JObj ob)) (seg # segs) =
     (case getProp ob seg of RV_undefined \<Rightarrow> RV_undefined | r \<Rightarrow> resolveSegments r segs)"
| "resolveSegments cur (seg # segs) = RV_undefined"

datatype (plugins only: code size) UnpopulatedKind = UK_producer_absent | UK_field_absent

datatype (plugins only: code size) OutputClass =
    OC_value "ustring option" \<comment> \<open>\<open>rendered\<close>; \<open>None\<close> is the \<open>undefined\<close> that \<open>JSON.stringify\<close> returns for a function\<close>
  | OC_absent UnpopulatedKind

definition classifyOutputRef :: "jsobj \<Rightarrow> ustring \<Rightarrow> ustring list \<Rightarrow> OutputClass" where
  "classifyOutputRef outputs producer segments =
     (case getProp outputs producer of
        RV_undefined \<Rightarrow> OC_absent UK_producer_absent
      | producerVal \<Rightarrow>
          (case resolveSegments producerVal segments of
             RV_undefined \<Rightarrow> OC_absent UK_field_absent
           | RV_builtin \<Rightarrow> OC_value None
           | RV_val v \<Rightarrow> if v = JNull then OC_absent UK_field_absent else OC_value (Some (renderOutputValue v))))"

definition resolveOutputRef :: "jsobj \<Rightarrow> ustring \<Rightarrow> ustring list \<Rightarrow> ustring option" where
  "resolveOutputRef outputs producer segments =
     (case classifyOutputRef outputs producer segments of OC_value r \<Rightarrow> r | OC_absent _ \<Rightarrow> None)"

definition projectRunOutput :: "jsval \<Rightarrow> ustring list \<Rightarrow> jsval Resolved option" where
  \<comment> \<open>\<open>None\<close> is \<open>{ present: false }\<close>\<close>
  "projectRunOutput struct path =
     (case resolveSegments (RV_val struct) path of RV_undefined \<Rightarrow> None | r \<Rightarrow> Some r)"

section \<open>Resolution of an input reference\<close>

fun walkInput :: "jsval \<Rightarrow> ustring list \<Rightarrow> jsval option" where
  \<comment> \<open>the loop over the segments; \<open>Object.hasOwn\<close> guards each read\<close>
  "walkInput cur [] = Some cur"
| "walkInput (JObj ob) (seg # segs) = (case obj_get ob seg of None \<Rightarrow> None | Some v \<Rightarrow> walkInput v segs)"
| "walkInput cur (seg # segs) = None"

fun renderInput :: "jsval \<Rightarrow> ustring" where
  "renderInput JNull = []"
| "renderInput (JStr s) = s"
| "renderInput (JNum n) = String_number n"
| "renderInput (JBool b) = String_bool b"
| "renderInput v = JSON_stringify v"

definition resolveInputRef :: "jsobj \<Rightarrow> ustring list \<Rightarrow> ustring" where
  "resolveInputRef inputs segments =
     (case segments of
        [] \<Rightarrow> []
      | name # rest \<Rightarrow>
          (case obj_get inputs name of
             None \<Rightarrow> []
           | Some v \<Rightarrow> (case walkInput v rest of None \<Rightarrow> [] | Some leaf \<Rightarrow> renderInput leaf)))"

section \<open>The substitution\<close>

definition outputValueId :: "(ustring \<Rightarrow> ustring) \<Rightarrow> ustring \<Rightarrow> ustring" where
  "outputValueId sha256Hex s = sha256Hex s"

definition wrapOutputValue :: "(ustring \<Rightarrow> ustring) \<Rightarrow> ustring \<Rightarrow> ustring" where
  "wrapOutputValue sha256Hex v =
     (let i = outputValueId sha256Hex v
      in U ''<fragua_output_'' @ i @ U ''>'' @ v @ U ''</fragua_output_'' @ i @ U ''>'')"

datatype (plugins only: code size) SubstError =
    UnpopulatedOutputError "(ustring \<times> UnpopulatedKind) list"
  | ShellContextError "(ustring \<times> UnsafeShellPosition) list"
  | SE_exception \<comment> \<open>any other exception, such as a \<open>TypeError\<close>\<close>

definition dedupeRefs :: "(ustring \<times> UnpopulatedKind) list \<Rightarrow> (ustring \<times> UnpopulatedKind) list" where
  "dedupeRefs refs = foldl (\<lambda>seen (r, k). if obj_get seen r = None then obj_set r k seen else seen) [] refs"

definition unpopulatedMessage :: "(ustring \<times> UnpopulatedKind) list \<Rightarrow> ustring" where
  "unpopulatedMessage refs =
     U ''unpopulated output reference'' @ (if length refs > 1 then U ''s'' else []) @ U '': ''
     @ ujoin (U '', '')
         (map (\<lambda>(r, k).
            if k = UK_producer_absent then r @ U '' (the producing node emitted nothing on this run path)''
            else r @ U '' (the producing node ran but left this field unpopulated)'') refs)
     @ U '' '' @ [0x2014] @ U '' reads fail closed''"

datatype (plugins only: code size) Replaced = Rp_text ustring | Rp_missing ustring UnpopulatedKind | Rp_unsafe ustring UnsafeShellPosition | Rp_throw

definition fmtValue :: "contexts option \<Rightarrow> nat \<Rightarrow> ustring \<Rightarrow> ustring option \<Rightarrow> Replaced" where
  \<comment> \<open>\<open>fmt\<close>; the value \<open>None\<close> is \<open>undefined\<close>, on which the escape throws\<close>
  "fmtValue contexts offset whole raw =
     (case contexts of
        None \<Rightarrow> Rp_text (orElse raw (U ''undefined''))
      | Some ctxs \<Rightarrow>
          (case shellContextAt ctxs offset of
             UnsafeCtx p \<Rightarrow> Rp_unsafe (utrim whole) p
           | SafeCtx q \<Rightarrow> (case raw of None \<Rightarrow> Rp_throw | Some v \<Rightarrow> Rp_text (shellEscapeForContext v q))))"

definition replaceRef ::
  "(ustring \<Rightarrow> ustring) \<Rightarrow> jsobj \<Rightarrow> jsobj \<Rightarrow> bool \<Rightarrow> bool \<Rightarrow> contexts option \<Rightarrow> nat \<Rightarrow> ustring \<Rightarrow> RefGroups \<Rightarrow> Replaced" where
  "replaceRef sha256Hex inputs outputs escapeForShell wrapValues contexts offset whole g =
     (case g of
        InputRef inName \<Rightarrow>
          (let raw = resolveInputRef inputs (splitDots inName) in
           if wrapValues \<and> \<not> escapeForShell \<and> raw \<noteq> [] then Rp_text (wrapOutputValue sha256Hex raw)
           else fmtValue contexts offset whole (Some raw))
      | OutputRef outProducer outRest \<Rightarrow>
          (case classifyOutputRef outputs outProducer (splitDots outRest) of
             OC_absent k \<Rightarrow> Rp_missing (utrim whole) k
           | OC_value r \<Rightarrow>
               if wrapValues \<and> \<not> escapeForShell
               then (case r of None \<Rightarrow> Rp_throw | Some v \<Rightarrow> Rp_text (wrapOutputValue sha256Hex v))
               else fmtValue contexts offset whole r))"

fun replaceAll :: "(nat \<Rightarrow> ustring \<Rightarrow> RefGroups \<Rightarrow> Replaced) \<Rightarrow> TemplatePiece list \<Rightarrow> Replaced list" where
  "replaceAll cb [] = []"
| "replaceAll cb (Chr c # ps) = Rp_text [c] # replaceAll cb ps"
| "replaceAll cb (Ref i w g # ps) = cb i w g # replaceAll cb ps"

fun missingOf :: "Replaced list \<Rightarrow> (ustring \<times> UnpopulatedKind) list" where
  "missingOf [] = []"
| "missingOf (Rp_missing r k # rs) = (r, k) # missingOf rs"
| "missingOf (_ # rs) = missingOf rs"

fun unsafeOf :: "Replaced list \<Rightarrow> (ustring \<times> UnsafeShellPosition) list" where
  "unsafeOf [] = []"
| "unsafeOf (Rp_unsafe r p # rs) = (r, p) # unsafeOf rs"
| "unsafeOf (_ # rs) = unsafeOf rs"

fun textsOf :: "Replaced list \<Rightarrow> ustring" where
  "textsOf [] = []"
| "textsOf (Rp_text s # rs) = s @ textsOf rs"
| "textsOf (_ # rs) = textsOf rs" \<comment> \<open>not observed: the substitution fails\<close>

definition finishReplace :: "Replaced list \<Rightarrow> SubstError + ustring" where
  "finishReplace rs =
     (if Rp_throw \<in> set rs then Inl SE_exception
      else if missingOf rs \<noteq> [] then Inl (UnpopulatedOutputError (dedupeRefs (missingOf rs)))
      else if unsafeOf rs \<noteq> [] then Inl (ShellContextError (dedupeUnsafe (unsafeOf rs)))
      else Inr (textsOf rs))"

definition scanTemplate :: "(ustring \<Rightarrow> (RefGroups \<times> ustring) option) \<Rightarrow> ustring \<Rightarrow> contexts" where
  \<comment> \<open>\<open>scanShellTokenContexts(template, tokenRe)\<close>\<close>
  "scanTemplate re template = scanShellTokenContexts template (tokenTable re template)"

definition substitute :: "(ustring \<Rightarrow> ustring) \<Rightarrow> ustring \<Rightarrow> jsobj \<Rightarrow> jsobj \<Rightarrow> bool \<Rightarrow> bool \<Rightarrow> SubstError + ustring" where
  "substitute sha256Hex template inputs outputs escapeForShell wrapValues =
     (let contexts = (if escapeForShell then Some (scanTemplate COMBINED_REF_RE template) else None)
      in finishReplace
           (replaceAll (replaceRef sha256Hex inputs outputs escapeForShell wrapValues contexts) (splitRefs COMBINED_REF_RE 0 template)))"

definition replaceOutputRef :: "jsobj \<Rightarrow> contexts option \<Rightarrow> nat \<Rightarrow> ustring \<Rightarrow> RefGroups \<Rightarrow> Replaced" where
  \<comment> \<open>the callback of \<open>substituteOutputs\<close>; its expression has no input group\<close>
  "replaceOutputRef outputs contexts offset whole g =
     (case g of
        InputRef _ \<Rightarrow> Rp_text whole
      | OutputRef producer rest \<Rightarrow>
          (case classifyOutputRef outputs producer (splitDots rest) of
             OC_absent k \<Rightarrow> Rp_missing (utrim whole) k
           | OC_value r \<Rightarrow> fmtValue contexts offset whole r))"

definition substituteOutputs :: "ustring \<Rightarrow> jsobj \<Rightarrow> bool \<Rightarrow> SubstError + ustring" where
  "substituteOutputs template outputs escapeForShell =
     (let contexts = (if escapeForShell then Some (scanTemplate OUTPUT_REF_RE template) else None)
      in finishReplace (replaceAll (replaceOutputRef outputs contexts) (splitRefs OUTPUT_REF_RE 0 template)))"

section \<open>The references of a template\<close>

definition shellReferenceContexts :: "ustring \<Rightarrow> (ustring \<times> ShellTokenContext) list" where
  "shellReferenceContexts template =
     (let contexts = scanTemplate COMBINED_REF_RE template
      in map (\<lambda>(i, w, g). (utrim w, shellContextAt contexts i)) (matchAll COMBINED_REF_RE template))"

definition inputReferences :: "ustring \<Rightarrow> (ustring \<times> bool) list" where
  \<comment> \<open>\<open>base\<close> and \<open>dotted\<close>, once each; a base has no bar\<close>
  "inputReferences template =
     foldl (\<lambda>out (i, w, g).
        case g of
          OutputRef _ _ \<Rightarrow> out
        | InputRef full \<Rightarrow>
            let base = takeWhile (\<lambda>c. c \<noteq> DOT) full; dotted = (DOT \<in> set full) in
            if (base, dotted) \<in> set out then out else out @ [(base, dotted)]) [] (matchAll INPUT_REF_RE template)"

definition outputReferences :: "ustring \<Rightarrow> (ustring \<times> ustring list) list" where
  \<comment> \<open>keyed by \<open>`${producer}.${rest}`\<close>\<close>
  "outputReferences template =
     map snd (foldl (\<lambda>out (i, w, g).
        case g of
          InputRef _ \<Rightarrow> out
        | OutputRef producer rest \<Rightarrow>
            let key = producer @ [DOT] @ rest in
            if obj_get out key \<noteq> None then out else out @ [(key, (producer, splitDots rest))]) [] (matchAll OUTPUT_REF_RE template))"

end
