(* ===== verification/Shell_Simulation.thy ===== *)
theory Shell_Simulation
  imports Shell_Pieces
begin

text \<open>
  The simulation behind the escaping theorem: one step of the scan of a template, at a character of the
  author, is one step of the scan of the substituted text, because what the scanner looks ahead at is
  the author's text or a token whose context it has just fixed.
\<close>

section \<open>Reading ahead\<close>

lemma starts_cons: "startsWith (a # x) (b # p) = (a = b \<and> startsWith x p)"
  by (auto simp: startsWith_def)

lemma starts_nil [simp]: "startsWith x []" "\<not> startsWith [] (b # p)"
  by (simp_all add: startsWith_def)

lemma lits_of_text: "wfPieces p \<Longrightarrow> startsWith (textOf p) u \<Longrightarrow> DOLLAR \<notin> set u \<Longrightarrow> \<exists>p'. p = map Lit u @ p'"
proof (induction u arbitrary: p)
  case (Cons a u)
  show ?case
  proof (cases p rule: textOf.cases)
    case (2 c ps)
    then have "a = c" "startsWith (textOf ps) u" using Cons.prems(2) by (simp_all add: starts_cons)
    then show ?thesis using Cons.IH [of ps] Cons.prems 2 by auto
  next
    case (3 w v ps)
    then show ?thesis using Cons.prems by (cases w) (auto simp: starts_cons)
  qed (use Cons.prems in simp)
qed simp

lemma token_text: "wfPieces (Tok w v # p) \<Longrightarrow> \<exists>z. textOf (Tok w v # p) = DOLLAR # z"
  by (cases w) auto

definition atLit :: "(nat \<Rightarrow> ShellTokenContext) \<Rightarrow> Piece list \<Rightarrow> Piece list \<Rightarrow> 16 word \<Rightarrow> Piece list \<Rightarrow> Scan \<Rightarrow> Scan \<Rightarrow> bool" where
  \<comment> \<open>both scans are in front of the same character of the author\<close>
  "atLit ctx ps p1 c p3 s s' =
     (onTrack ctx ps s \<and> wfPieces ps \<and> ps = p1 @ Lit c # p3 \<and> atPiece ctx p1 (Lit c # p3) s s'
      \<and> (\<forall>p w v q. ps = p @ Tok w v # q \<longrightarrow> (\<exists>x. ctx (length (textOf p)) = SafeCtx x)))"

abbreviation ahead :: "(nat \<Rightarrow> ShellTokenContext) \<Rightarrow> Scan \<Rightarrow> Piece list \<Rightarrow> ustring" where
  \<comment> \<open>the substituted text after the character\<close>
  "ahead ctx s p3 \<equiv> rendered ctx (sc_i s + 1) p3"

lemma atLitD:
  assumes "atLit ctx ps p1 c p3 s s'"
  shows "onTrack ctx ps s" "wfPieces ps" "ps = p1 @ Lit c # p3" "sameStates s s'"
  using assms unfolding atLit_def atPiece_def by blast+

lemma lit_views:
  assumes "atLit ctx ps p1 c p3 s s'"
  shows "sc_i s < length (textOf ps)" "textOf ps ! sc_i s = c" "drop (sc_i s) (textOf ps) = c # textOf p3"
    and "sc_i s' < length (rendered ctx 0 ps)" "rendered ctx 0 ps ! sc_i s' = c" "drop (sc_i s') (rendered ctx 0 ps) = c # ahead ctx s p3"
    and "tokenEnd (matchesOf 0 ps) (sc_i s) = None" "sc_stack s' = sc_stack s" "sc_pending s' = sc_pending s"
    and "sc_i s = length (textOf p1)" "sc_i s' = length (rendered ctx 0 p1)" "onTrack ctx ps (stepOf ps s)" "wfPieces p3"
proof -
  have at: "onTrack ctx ps s" "wfPieces ps" "ps = p1 @ Lit c # p3" "sc_i s = length (textOf p1)" "sc_i s' = length (rendered ctx 0 p1)"
    "sc_stack s' = sc_stack s" "sc_pending s' = sc_pending s"
    using assms unfolding atLit_def atPiece_def sameStates_def by blast+
  show lt: "sc_i s < length (textOf ps)" and "textOf ps ! sc_i s = c" "drop (sc_i s) (textOf ps) = c # textOf p3"
    "sc_i s' < length (rendered ctx 0 ps)" "rendered ctx 0 ps ! sc_i s' = c" "drop (sc_i s') (rendered ctx 0 ps) = c # ahead ctx s p3"
    "sc_stack s' = sc_stack s" "sc_pending s' = sc_pending s" "sc_i s = length (textOf p1)" "sc_i s' = length (rendered ctx 0 p1)"
    "wfPieces p3"
    using at(2) unfolding at(3-7) by (simp_all add: rendered_append)
  show "tokenEnd (matchesOf 0 ps) (sc_i s) = None" using tokenEnd_piece [of p1 "Lit c # p3"] at(2) by (simp add: at(3,4))
  show "onTrack ctx ps (stepOf ps s)" by (rule onTrack_step [OF at(1) lt])
qed

lemma starts_views:
  assumes "atLit ctx ps p1 c p3 s s'"
  shows "startsAt (textOf ps) (sc_i s) pat = startsWith (c # textOf p3) pat"
    and "startsAt (rendered ctx 0 ps) (sc_i s') pat = startsWith (c # ahead ctx s p3) pat"
  using lit_views(3,6) [OF assms] by (simp_all add: startsAt_def)

text \<open>A token in front of which the scanner stands in a command is rendered with an opening quote.\<close>

lemma bare_token:
  assumes "atLit ctx ps p1 c p3 s s'" and "Lit c # p3 = map Lit u @ Tok w v # p4" and "u \<noteq> []"
    and "sc_i (stepOf ps s) = sc_i s + length u" and "topFrame (sc_stack (stepOf ps s)) = Fr_cmd d b"
  shows "\<exists>z. ahead ctx s p3 = tl u @ SQ # z"
proof -
  have i: "sc_i s = length (textOf p1)" by (rule lit_views(10) [OF assms(1)])
  have ps: "ps = (p1 @ map Lit u) @ Tok w v # p4" using atLitD(3) [OF assms(1)] assms(2) by simp
  have "ctx (sc_i (stepOf ps s)) = SafeCtx Q_bare"
    using at_token(1) [OF lit_views(12) [OF assms(1)] atLitD(2) [OF assms(1)] ps] assms(4,5) i by simp
  then have ctx: "ctx (sc_i s + length u) = SafeCtx Q_bare" using assms(4) by simp
  obtain u' where u: "u = c # u'" "p3 = map Lit u' @ Tok w v # p4" using assms(2,3) by (cases u) auto
  then show ?thesis using ctx by (simp add: rendered_append insertedText_def add.assoc)
qed

text \<open>A token cannot follow a dollar, for it would have been refused.\<close>

lemma no_dollar_token:
  assumes "atLit ctx ps p1 DOLLAR p3 s s'" and "p3 = Tok w v # p4" and "stepOf ps s = advance 1 s"
  shows False
proof -
  have i: "sc_i s = length (textOf p1)" by (rule lit_views(10) [OF assms(1)])
  have track: "onTrack ctx ps (advance 1 s)" using lit_views(12) [OF assms(1)] unfolding assms(3) .
  have ps: "ps = (p1 @ [Lit DOLLAR]) @ Tok w v # p4" using atLitD(3) [OF assms(1)] assms(2) by simp
  have "sc_escapedAt (advance 1 s) \<noteq> Some (length (textOf p1))"
    using atLitD(1) [OF assms(1)] i by (auto simp: onTrack_def advance_def)
  then show False using after_dollar [OF track atLitD(2) [OF assms(1)] ps] i by simp
qed

lemma track_arith:
  assumes "atLit ctx ps p1 c p3 s s'" and "p3 = Tok w v # p4" and "sc_i (stepOf ps s) = sc_i s + 1"
    and "topFrame (sc_stack (stepOf ps s)) = Fr_arith d"
  shows False
proof -
  have i: "sc_i s = length (textOf p1)" by (rule lit_views(10) [OF assms(1)])
  have "ps = (p1 @ [Lit c]) @ Tok w v # p4" using atLitD(3) [OF assms(1)] assms(2) by simp
  from at_token(2) [OF lit_views(12) [OF assms(1)] atLitD(2) [OF assms(1)] this] show False using assms(3,4) i by simp
qed

section \<open>Moves\<close>

lemma same_moves [simp]:
  "sameStates s s' \<Longrightarrow> sameStates (advance k s) (advance k s')" "sameStates s s' \<Longrightarrow> sameStates (push f s) (push f s')"
  "sameStates s s' \<Longrightarrow> sameStates (pop s) (pop s')" "sameStates s s' \<Longrightarrow> sameStates (setTop f s) (setTop f s')"
  by (simp_all add: sameStates_def frame_moves)

lemma move_lits:
  assumes "atLit ctx ps p1 c p3 s s'" and "p3 = map Lit u @ p4" and "sc_i s1 = sc_i s + Suc (length u)"
    and "sc_i s1' = sc_i s' + Suc (length u)" and "sameStates s1 s1'"
  shows "inStep ctx ps s1 s1'"
proof -
  have p: "Lit c # p3 = map Lit (c # u) @ p4" using assms(2) by simp
  have at: "atPiece ctx p1 (map Lit (c # u) @ p4) s s'" "ps = p1 @ map Lit (c # u) @ p4"
    using assms(1) unfolding atLit_def p [symmetric] by blast+
  show ?thesis by (rule step_lits [OF at]) (use assms(3-5) in simp_all)
qed

lemma move_one:
  assumes "atLit ctx ps p1 c p3 s s'" and "sc_i s1 = sc_i s + 1" and "sc_i s1' = sc_i s' + 1" and "sameStates s1 s1'"
  shows "inStep ctx ps s1 s1'"
  by (rule move_lits [OF assms(1), of "[]" p3]) (use assms in simp_all)

lemma move_more:
  assumes "atLit ctx ps p1 c p3 s s'" and "startsWith (textOf p3) u" and "DOLLAR \<notin> set u" and "sc_i s1 = sc_i s + Suc (length u)"
    and "sc_i s1' = sc_i s' + Suc (length u)" and "sameStates s1 s1'"
  shows "inStep ctx ps s1 s1'"
  using lits_of_text [OF lit_views(13) [OF assms(1)] assms(2,3)] move_lits [OF assms(1) _ assms(4-6)] by blast

lemma step_frame:
  assumes "atLit ctx ps p1 c p3 s s'" and "topFrame (sc_stack s) = f" and "c = BS \<longrightarrow> f = Fr_single \<or> f = Fr_comment"
  shows "stepOf ps s = inFrame (textOf ps) (matchesOf 0 ps) f c s"
    and "scanStep (rendered ctx 0 ps) [] s' = inFrame (rendered ctx 0 ps) [] f c s'"
  using assms(2,3) lit_views(2,5,7,8) [OF assms(1)] by (auto simp: scanStep_def Let_def)

section \<open>One step in each frame\<close>

text \<open>The tests that begin with a dollar have the same outcome in both texts.\<close>

lemma dollar_tests:
  assumes at: "atLit ctx ps p1 DOLLAR p3 s s'" and pat: "pat \<in> {[LPAR], [LPAR, LPAR], [SQ]}"
    and plain: "\<And>w v p4. p3 = Tok w v # p4 \<Longrightarrow> stepOf ps s = advance 1 s"
    and sub: "\<And>w v p4. p3 = Lit LPAR # Tok w v # p4 \<Longrightarrow> stepOf ps s = advance 2 (push (Fr_cmd 0 True) s)"
  shows "startsWith (ahead ctx s p3) pat = startsWith (textOf p3) pat"
proof (cases p3 rule: textOf.cases)
  case (3 w v p4)
  then show ?thesis using no_dollar_token [OF at 3] plain by blast
next
  case lit: (2 d p4)
  have short: ?thesis if "pat = [a]" for a using that lit by (simp add: starts_cons)
  have long: ?thesis if "pat = [LPAR, LPAR]"
  proof (cases "d = LPAR")
    case True
    show ?thesis
    proof (cases p4 rule: textOf.cases)
      case (2 e p5)
      then show ?thesis using lit that by (simp add: starts_cons)
    next
      case (3 w v p5)
      have p3: "p3 = Lit LPAR # Tok w v # p5" using lit True 3 by simp
      have wf: "wfPieces (Tok w v # p5)" using lit_views(13) [OF at] by (simp add: p3)
      have "\<exists>z. ahead ctx s p3 = tl [DOLLAR, LPAR] @ SQ # z"
        by (rule bare_token [OF at _ _ _ , of _ w v p5 0 True]) (simp_all add: p3 sub [OF p3] frame_moves)
      then show ?thesis using token_text [OF wf] that unfolding p3 by (auto simp: starts_cons)
    qed (use lit that in simp)
  qed (use lit that in \<open>simp add: starts_cons\<close>)
  show ?thesis using pat short long by blast
qed simp

lemma starts_dollar:
  "startsWith (c # x) [DOLLAR, LPAR, LPAR] = (c = DOLLAR \<and> startsWith x [LPAR, LPAR])"
  "startsWith (c # x) [DOLLAR, LPAR] = (c = DOLLAR \<and> startsWith x [LPAR])"
  "startsWith (c # x) [DOLLAR, SQ] = (c = DOLLAR \<and> startsWith x [SQ])"
  by (simp_all add: starts_cons)

lemma no_start_token: "wfPieces p3 \<Longrightarrow> p3 = Tok w v # p4 \<Longrightarrow> a \<noteq> DOLLAR \<Longrightarrow> \<not> startsWith (textOf p3) (a # pat)"
  using token_text [of w v p4] by (auto simp: starts_cons)

lemma double_step:
  assumes at: "atLit ctx ps p1 c p3 s s'" and top: "topFrame (sc_stack s) = Fr_double" and bs: "c \<noteq> BS"
  shows "inStep ctx ps (stepOf ps s) (scanStep (rendered ctx 0 ps) [] s')"
proof -
  note same = atLitD(4) [OF at]
  have step: "stepOf ps s = inDouble (textOf ps) c s" "scanStep (rendered ctx 0 ps) [] s' = inDouble (rendered ctx 0 ps) c s'"
    using step_frame [OF at top] bs by (simp_all add: inFrame_def)
  have tests: "startsWith (ahead ctx s p3) pat = startsWith (textOf p3) pat" if "c = DOLLAR" "pat \<in> {[LPAR], [LPAR, LPAR], [SQ]}" for pat
  proof (rule dollar_tests [OF at [unfolded that(1)] that(2)])
    fix w v p4 assume "p3 = Tok w v # p4"
    then show "stepOf ps s = advance 1 s" using that(1) no_start_token [OF lit_views(13) [OF at]]
      by (simp add: step(1) inDouble_def starts_views(1) [OF at] starts_dollar)
  next
    fix w v p4 assume p3: "p3 = Lit LPAR # Tok w v # p4"
    have "wfPieces (Tok w v # p4)" using lit_views(13) [OF at] by (simp add: p3)
    then show "stepOf ps s = advance 2 (push (Fr_cmd 0 True) s)" using that(1) token_text [of w v p4]
      by (auto simp: step(1) inDouble_def starts_views(1) [OF at] starts_cons p3)
  qed
  show ?thesis
  proof (cases "c = DOLLAR")
    case False
    then show ?thesis using same
      by (intro move_one [OF at]) (simp_all add: step inDouble_def starts_views [OF at] starts_dollar)
  next
    case True
    consider "startsWith (textOf p3) [LPAR, LPAR]" | "\<not> startsWith (textOf p3) [LPAR, LPAR]" "startsWith (textOf p3) [LPAR]"
      | "\<not> startsWith (textOf p3) [LPAR, LPAR]" "\<not> startsWith (textOf p3) [LPAR]" by blast
    then show ?thesis
    proof cases
      case 1
      then show ?thesis using True tests [OF True] same
        by (intro move_more [OF at 1]) (simp_all add: step inDouble_def starts_views [OF at] starts_dollar)
    next
      case 2
      then show ?thesis using True tests [OF True] same
        by (intro move_more [OF at 2(2)]) (simp_all add: step inDouble_def starts_views [OF at] starts_dollar)
    next
      case 3
      then show ?thesis using True tests [OF True] same
        by (intro move_one [OF at]) (simp_all add: step inDouble_def starts_views [OF at] starts_dollar)
    qed
  qed
qed

lemma arith_step:
  assumes at: "atLit ctx ps p1 c p3 s s'" and top: "topFrame (sc_stack s) = Fr_arith d" and bs: "c \<noteq> BS"
  shows "inStep ctx ps (stepOf ps s) (scanStep (rendered ctx 0 ps) [] s')"
proof -
  note same = atLitD(4) [OF at]
  have step: "stepOf ps s = inArith (textOf ps) d c s" "scanStep (rendered ctx 0 ps) [] s' = inArith (rendered ctx 0 ps) d c s'"
    using step_frame [OF at top] bs by (simp_all add: inFrame_def)
  have tests: "startsWith (ahead ctx s p3) pat = startsWith (textOf p3) pat" if "c = DOLLAR" "pat \<in> {[LPAR], [LPAR, LPAR], [SQ]}" for pat
  proof (rule dollar_tests [OF at [unfolded that(1)] that(2)])
    fix w v p4 assume "p3 = Tok w v # p4"
    then show "stepOf ps s = advance 1 s" using that(1) no_start_token [OF lit_views(13) [OF at]]
      by (simp add: step(1) inArith_def starts_views(1) [OF at] starts_dollar)
  next
    fix w v p4 assume p3: "p3 = Lit LPAR # Tok w v # p4"
    have "wfPieces (Tok w v # p4)" using lit_views(13) [OF at] by (simp add: p3)
    then show "stepOf ps s = advance 2 (push (Fr_cmd 0 True) s)" using that(1) token_text [of w v p4]
      by (auto simp: step(1) inArith_def starts_views(1) [OF at] starts_cons p3)
  qed
  have close: "charAt (textOf ps) (sc_i s + 1) = Some RPAR \<longleftrightarrow> startsWith (textOf p3) [RPAR]"
    "charAt (rendered ctx 0 ps) (sc_i s' + 1) = Some RPAR \<longleftrightarrow> startsWith (ahead ctx s p3) [RPAR]"
    unfolding charAt_drop lit_views(3,6) [OF at]
    by (cases "textOf p3"; simp add: charAt_def starts_cons) (cases "ahead ctx s p3"; simp add: charAt_def starts_cons)
  have rpar: "startsWith (ahead ctx s p3) [RPAR] = startsWith (textOf p3) [RPAR]" if c: "c = RPAR"
  proof (cases p3 rule: textOf.cases)
    case (3 w v p4)
    have "\<not> startsWith (textOf p3) [RPAR]" using no_start_token [OF lit_views(13) [OF at] 3] by simp
    then have "stepOf ps s = advance 1 (setTop (Fr_arith (d - 1)) s)"
      using c close(1) by (simp add: step(1) inArith_def starts_views(1) [OF at] starts_dollar)
    then show ?thesis using track_arith [OF at 3, of "d - 1"] by (simp add: frame_moves)
  qed (simp_all add: starts_cons)
  show ?thesis
  proof (cases "c = DOLLAR")
    case True
    consider "startsWith (textOf p3) [LPAR, LPAR]" | "\<not> startsWith (textOf p3) [LPAR, LPAR]" "startsWith (textOf p3) [LPAR]"
      | "\<not> startsWith (textOf p3) [LPAR, LPAR]" "\<not> startsWith (textOf p3) [LPAR]" by blast
    then show ?thesis
    proof cases
      case 1
      then show ?thesis using True tests [OF True] same
        by (intro move_more [OF at 1]) (simp_all add: step inArith_def starts_views [OF at] starts_dollar)
    next
      case 2
      then show ?thesis using True tests [OF True] same
        by (intro move_more [OF at 2(2)]) (simp_all add: step inArith_def starts_views [OF at] starts_dollar)
    next
      case 3
      then show ?thesis using True tests [OF True] same
        by (intro move_one [OF at]) (simp_all add: step inArith_def starts_views [OF at] starts_dollar)
    qed
  next
    case False
    show ?thesis
    proof (cases "c = RPAR \<and> d = 0 \<and> startsWith (textOf p3) [RPAR]")
      case True
      then have "startsWith (textOf p3) [RPAR]" by simp
      from move_more [OF at this] show ?thesis using True rpar close same
        by (simp add: step inArith_def starts_views [OF at] starts_dollar)
    next
      case no: False
      then show ?thesis using False rpar close same
        by (intro move_one [OF at]) (auto simp: step inArith_def starts_views [OF at] starts_dollar)
    qed
  qed
qed

lemma quoted_step:
  assumes at: "atLit ctx ps p1 c p3 s s'" and f: "topFrame (sc_stack s) = f" "f \<in> {Fr_single, Fr_ansi, Fr_backtick, Fr_comment}"
    and bs: "c = BS \<longrightarrow> f = Fr_single \<or> f = Fr_comment"
  shows "inStep ctx ps (stepOf ps s) (scanStep (rendered ctx 0 ps) [] s')"
proof (cases "f = Fr_comment \<and> c = NL")
  case False
  then show ?thesis using f(2) atLitD(4) [OF at] unfolding step_frame [OF at f(1) bs]
    by (intro move_one [OF at]) (auto simp: inFrame_def)
next
  case True
  have ctx: "p1 = p @ [Tok w v] \<Longrightarrow> ctx (length (textOf p)) = UnsafeCtx UP_comment" for p w v
    using at True f(1) by (auto simp: atLit_def atPiece_def)
  have "p1 \<noteq> p @ [Tok w v]" for p w v
  proof
    assume p1: "p1 = p @ [Tok w v]"
    then have "ps = p @ Tok w v # (Lit c # p3)" using atLitD(3) [OF at] by simp
    then have "\<exists>x. ctx (length (textOf p)) = SafeCtx x" using at unfolding atLit_def by blast
    then show False using ctx [OF p1] by simp
  qed
  then have "atPiece ctx p1 (Lit c # p3) (pop s) (pop s')"
    using lit_views(10,11) [OF at] atLitD(4) [OF at] by (simp add: atPiece_def)
  then have "inStep ctx ps (pop s) (pop s')" unfolding inStep_def using atLitD(3) [OF at] by blast
  then show ?thesis using True unfolding step_frame [OF at f(1) bs] by (simp add: inFrame_def)
qed

lemma escape_step:
  assumes at: "atLit ctx ps p1 BS p3 s s'" and f: "topFrame (sc_stack s) \<noteq> Fr_single" "topFrame (sc_stack s) \<noteq> Fr_comment"
  shows "inStep ctx ps (stepOf ps s) (scanStep (rendered ctx 0 ps) [] s')"
proof -
  have r: "scanStep (rendered ctx 0 ps) [] s' = s'\<lparr>sc_i := sc_i s' + 2, sc_escapedAt := Some (sc_i s' + 1)\<rparr>"
    using f lit_views(5,8) [OF at] by (simp add: scanStep_def Let_def)
  have ps: "ps = (p1 @ [Lit BS]) @ p3" using atLitD(3) [OF at] by simp
  have i: "length (textOf (p1 @ [Lit BS])) = sc_i s + 1" using lit_views(10) [OF at] by simp
  have tok: "tokenEnd (matchesOf 0 ps) (sc_i s + 1) = (case p3 of Tok w v # _ \<Rightarrow> Some (sc_i s + 1 + length w) | _ \<Rightarrow> None)"
    using tokenEnd_piece [of "p1 @ [Lit BS]" p3] atLitD(2) [OF at] unfolding ps [symmetric] i by simp
  show ?thesis
  proof (cases p3 rule: textOf.cases)
    case 1
    then have "stepOf ps s = s\<lparr>sc_i := sc_i s + 2, sc_escapedAt := Some (sc_i s + 1)\<rparr>"
      using f lit_views(2,7) [OF at] tok by (simp add: scanStep_def Let_def)
    moreover have "length (textOf ps) = sc_i s + 1" "length (rendered ctx 0 ps) = sc_i s' + 1"
      using 1 lit_views(10,11) [OF at] by (simp_all add: ps rendered_append)
    ultimately show ?thesis using r atLitD(4) [OF at] unfolding inStep_def by (simp add: sameStates_def)
  next
    case (2 d p4)
    then have step: "stepOf ps s = s\<lparr>sc_i := sc_i s + 2, sc_escapedAt := Some (sc_i s + 1)\<rparr>"
      using f lit_views(2,7) [OF at] tok by (simp add: scanStep_def Let_def)
    show ?thesis by (rule move_lits [OF at, of "[d]" p4]) (use 2 step r atLitD(4) [OF at] in \<open>simp_all add: sameStates_def\<close>)
  next
    case (3 w v p4)
    then have "obj_get (sc_out (stepOf ps s)) (sc_i s + 1) = Some (UnsafeCtx UP_escaped)"
      using f lit_views(2,7) [OF at] tok by (simp add: scanStep_def Let_def obj_simps)
    then have "unsafeIn (sc_out (stepOf ps s))" unfolding unsafeIn_def by blast
    then show ?thesis using onTrack_out(1) [OF lit_views(12) [OF at]] by simp
  qed
qed

subsection \<open>Commands\<close>

lemma opLen_le: "2 \<le> length xs \<Longrightarrow> opLen xs \<le> length xs"
proof -
  assume "2 \<le> length xs"
  then have "dashLen xs \<le> length xs" by (auto simp: dashLen_def charAt_def)
  then have "wordStart xs \<le> length xs"
    using length_takeWhile_le [of "\<lambda>c. c = 32 \<or> c = 9" "drop (dashLen xs) xs"] by (simp add: wordStart_def)
  then show ?thesis using length_takeWhile_le [of "\<lambda>c. \<not> WORD_BREAK c" "drop (wordStart xs) xs"] by (simp add: opLen_def)
qed

lemma opLen_stop: "drop (opLen xs) xs = [] \<or> WORD_BREAK (hd (drop (opLen xs) xs))"
proof -
  have "drop (opLen xs) xs = dropWhile (\<lambda>c. \<not> WORD_BREAK c) (drop (wordStart xs) xs)"
    by (simp add: opLen_def dropWhile_eq_drop add.commute)
  then show ?thesis using hd_dropWhile [of "\<lambda>c. \<not> WORD_BREAK c" "drop (wordStart xs) xs"] by metis
qed

lemma word_break_dollar [simp]: "\<not> WORD_BREAK DOLLAR" "\<not> WORD_BREAK SQ"
  by (simp_all add: WORD_BREAK_def isSpace_def)

lemma no_matches: "startsDollar r []" "recorded [] out n \<Longrightarrow> \<not> unsafeIn out"
  by (simp_all add: startsDollar_def recorded_def unsafeIn_def)

lemma cmd_views:
  assumes at: "atLit ctx ps p1 c p3 s s'" and top: "topFrame (sc_stack s) = Fr_cmd d b" and bs: "c \<noteq> BS"
  shows "stepOf ps s = inCmd (textOf ps) (matchesOf 0 ps) d b c s" "scanStep (rendered ctx 0 ps) [] s' = inCmd (rendered ctx 0 ps) [] d b c s'"
  using step_frame [OF at top] bs by (simp_all add: inFrame_def)

lemma heredoc_read:
  assumes at: "atLit ctx ps p1 LANGLE p3 s s'" and top: "topFrame (sc_stack s) = Fr_cmd d b"
    and op: "startsWith (textOf p3) [LANGLE]" "\<not> startsWith (textOf p3) [LANGLE, LANGLE]"
  shows "stepOf ps s = s\<lparr>sc_i := sc_i s + opLen (LANGLE # textOf p3), sc_pending := sc_pending s @ opDocs (LANGLE # textOf p3)\<rparr>"
    and "tokenFree (matchesOf 0 ps) (sc_i s) (sc_i s + opLen (LANGLE # textOf p3))"
proof -
  let ?t = "textOf ps" and ?M = "matchesOf 0 ps" and ?xs = "LANGLE # textOf p3"
  have st: "stepOf ps s = (case readHeredocOperator ?t ?M (sc_i s) (sc_out s) of (k, out, docs) \<Rightarrow> s\<lparr>sc_i := k, sc_out := out, sc_pending := sc_pending s @ docs\<rparr>)"
    using op by (simp add: cmd_views(1) [OF at top] inCmd_def starts_views(1) [OF at] starts_cons)
  have safe: "\<not> unsafeIn (fst (snd (readHeredocOperator ?t ?M (sc_i s) (sc_out s))))"
    using onTrack_out(1) [OF lit_views(12) [OF at]] by (simp add: st split_beta)
  have rec: "recorded ?M (sc_out s) (sc_i s)" using atLitD(1) [OF at] by (simp add: onTrack_def)
  have start: "startsAt ?t (sc_i s) [LANGLE, LANGLE]" using op(1) by (simp add: starts_views(1) [OF at] starts_cons)
  have read: "readHeredocOperator ?t ?M (sc_i s) (sc_out s) = (sc_i s + opLen ?xs, sc_out s, opDocs ?xs)
      \<and> tokenFree ?M (sc_i s) (sc_i s + opLen ?xs)"
    using op_safe [OF pieces_startsDollar [OF atLitD(2) [OF at]] rec start safe] unfolding lit_views(3) [OF at] .
  then show "stepOf ps s = s\<lparr>sc_i := sc_i s + opLen ?xs, sc_pending := sc_pending s @ opDocs ?xs\<rparr>" by (simp add: st)
  show "tokenFree ?M (sc_i s) (sc_i s + opLen ?xs)" using read by blast
qed

lemma heredoc_no_token:
  assumes at: "atLit ctx ps p1 LANGLE p3 s s'" and top: "topFrame (sc_stack s) = Fr_cmd d b" and p3: "p3 = Lit LANGLE # Tok w v # p4"
  shows False
proof -
  let ?xs = "LANGLE # textOf p3"
  have "wfPieces (Tok w v # p4)" using lit_views(13) [OF at] by (simp add: p3)
  then obtain z where z: "textOf (Tok w v # p4) = DOLLAR # z" using token_text by blast
  have "startsWith (textOf p3) [LANGLE]" "\<not> startsWith (textOf p3) [LANGLE, LANGLE]" using z by (simp_all add: p3 starts_cons)
  note free = heredoc_read(2) [OF at top this]
  have "dashLen ?xs = 2" using z by (simp add: p3 dashLen_def charAt_def)
  moreover from this have "wordStart ?xs = 2" using z by (simp add: p3 wordStart_def)
  ultimately have "2 < opLen ?xs" using z by (simp add: opLen_def p3)
  then have "tokenEnd (matchesOf 0 ps) (sc_i s + 2) = None" using free by (simp add: tokenFree_def)
  moreover have "ps = (p1 @ [Lit LANGLE, Lit LANGLE]) @ Tok w v # p4" using atLitD(3) [OF at] p3 by simp
  ultimately show False
    using tokenEnd_piece [of "p1 @ [Lit LANGLE, Lit LANGLE]" "Tok w v # p4"] atLitD(2) [OF at] lit_views(10) [OF at] by simp
qed

lemma heredoc_step:
  assumes at: "atLit ctx ps p1 LANGLE p3 s s'" and top: "topFrame (sc_stack s) = Fr_cmd d b"
    and op: "startsWith (textOf p3) [LANGLE]" "\<not> startsWith (textOf p3) [LANGLE, LANGLE]"
    and op': "startsWith (ahead ctx s p3) [LANGLE]" "\<not> startsWith (ahead ctx s p3) [LANGLE, LANGLE]"
    and rec': "recorded [] (sc_out s') (sc_i s')"
  shows "inStep ctx ps (stepOf ps s) (scanStep (rendered ctx 0 ps) [] s')"
proof -
  let ?r = "rendered ctx 0 ps" and ?xs = "LANGLE # textOf p3" and ?ys = "LANGLE # ahead ctx s p3"
  note read = heredoc_read [OF at top op]
  have len: "opLen ?xs \<le> length ?xs" using op(1) by (intro opLen_le) (cases "textOf p3"; simp)
  have "tokenFree (matchesOf 0 (p1 @ Lit LANGLE # p3)) (length (textOf p1)) (length (textOf p1) + opLen ?xs)"
    using read(2) unfolding lit_views(10) [OF at] atLitD(3) [OF at, symmetric] .
  then obtain u p5 where u: "Lit LANGLE # p3 = map Lit u @ p5" "length u = opLen ?xs"
    using literal_region [of p1 "Lit LANGLE # p3" "opLen ?xs"] len atLitD(2) [OF at] unfolding atLitD(3) [OF at] by auto
  have xs: "?xs = u @ textOf p5" using arg_cong [OF u(1), of textOf] by simp
  have ys: "?ys = u @ rendered ctx (sc_i s + length u) p5"
    using arg_cong [OF u(1), of "rendered ctx (sc_i s)"] by (simp add: rendered_append)
  have stop: "textOf p5 = [] \<or> WORD_BREAK (hd (textOf p5))" using opLen_stop [of ?xs] u(2) unfolding xs by simp
  have wf5: "wfPieces p5" using arg_cong [OF u(1), of wfPieces] lit_views(13) [OF at] by simp
  have "p5 = [] \<or> (\<exists>e p6. p5 = Lit e # p6)"
  proof (cases p5 rule: textOf.cases)
    case (3 w v p6)
    then show ?thesis using stop wf5 token_text [of w v p6] by auto
  qed simp_all
  then have ends: "(textOf p5 = [] \<longleftrightarrow> rendered ctx n p5 = []) \<and> (textOf p5 \<noteq> [] \<longrightarrow> hd (rendered ctx n p5) = hd (textOf p5))" for n
    by auto
  have local: "opLen ?ys = length u" "opDocs ?ys = opDocs ?xs"
    using op_local [OF _ ends] u(2) unfolding ys xs by simp_all
  have st': "scanStep ?r [] s' = (case readHeredocOperator ?r [] (sc_i s') (sc_out s') of (k, out, docs) \<Rightarrow> s'\<lparr>sc_i := k, sc_out := out, sc_pending := sc_pending s' @ docs\<rparr>)"
    using op' by (simp add: cmd_views(2) [OF at top] inCmd_def starts_views(2) [OF at] starts_cons)
  have "records [] (sc_out s') (sc_i s') (fst (snd (readHeredocOperator ?r [] (sc_i s') (sc_out s')))) (fst (readHeredocOperator ?r [] (sc_i s') (sc_out s')))"
    by (rule readHeredocOperator_records)
  then have "recorded [] (fst (snd (readHeredocOperator ?r [] (sc_i s') (sc_out s')))) (fst (readHeredocOperator ?r [] (sc_i s') (sc_out s')))"
    using rec' by (simp add: records_def)
  then have safe: "\<not> unsafeIn (fst (snd (readHeredocOperator ?r [] (sc_i s') (sc_out s'))))" by (rule no_matches(2))
  have start: "startsAt ?r (sc_i s') [LANGLE, LANGLE]" using op'(1) by (simp add: starts_views(2) [OF at] starts_cons)
  have read': "readHeredocOperator ?r [] (sc_i s') (sc_out s') = (sc_i s' + length u, sc_out s', opDocs ?xs)"
    using op_safe [OF no_matches(1) rec' start safe] unfolding lit_views(6) [OF at] local by blast
  have ne: "u \<noteq> []" using u(2) opLen_ge [of ?xs] by auto
  have "atPiece ctx p1 (map Lit u @ p5) s s'" "ps = p1 @ map Lit u @ p5" using at unfolding atLit_def u(1) by blast+
  from step_lits [OF this ne] show ?thesis
    using atLitD(4) [OF at] by (simp add: st' read(1) read' u(2) sameStates_def)
qed

lemma body_step:
  assumes at: "atLit ctx ps p1 NL p3 s s'" and top: "topFrame (sc_stack s) = Fr_cmd d b" and pend: "sc_pending s \<noteq> []"
    and rec': "recorded [] (sc_out s') (sc_i s')"
  shows "inStep ctx ps (stepOf ps s) (scanStep (rendered ctx 0 ps) [] s')"
proof -
  let ?t = "textOf ps" and ?M = "matchesOf 0 ps" and ?r = "rendered ctx 0 ps" and ?docs = "sc_pending s"
  let ?h = "consumeHeredocs ?t ?M ?docs (sc_i s + 1) (sc_out s)" and ?h' = "consumeHeredocs ?r [] ?docs (sc_i s' + 1) (sc_out s')"
  have st: "stepOf ps s = s\<lparr>sc_i := fst ?h, sc_out := snd ?h, sc_pending := []\<rparr>"
    using pend by (simp add: cmd_views(1) [OF at top] inCmd_def starts_views(1) [OF at] starts_cons split_beta)
  have st': "scanStep ?r [] s' = s'\<lparr>sc_i := fst ?h', sc_out := snd ?h', sc_pending := []\<rparr>"
    using pend lit_views(9) [OF at] by (simp add: cmd_views(2) [OF at top] inCmd_def starts_views(2) [OF at] starts_cons split_beta)
  have after: "drop (sc_i s + 1) ?t = textOf p3" "drop (sc_i s' + 1) ?r = ahead ctx s p3"
    using lit_views(3,6) [OF at] nth_drop_hd by fastforce+
  have safe: "\<not> unsafeIn (snd ?h)" using onTrack_out(1) [OF lit_views(12) [OF at]] by (simp add: st)
  have rec: "recorded ?M (sc_out s) (sc_i s + 1)" using atLitD(1) [OF at] by (force simp: onTrack_def recorded_def)
  let ?K = "docsSkip ?docs (textOf p3)"
  have h: "?h = (sc_i s + 1 + ?K, sc_out s)" and free: "tokenFree ?M (sc_i s + 1) (sc_i s + 1 + ?K)"
    using consumeHeredocs_safe [OF pieces_startsDollar [OF atLitD(2) [OF at]] rec safe] unfolding after by simp_all
  have rec1: "recorded [] (sc_out s') (sc_i s' + 1)" using rec' by (force simp: recorded_def)
  then have "recorded [] (snd ?h') (fst ?h')"
    using consumeHeredocs_records [of "[]" "sc_out s'" "sc_i s' + 1" ?r ?docs] by (simp add: records_def)
  then have safe': "\<not> unsafeIn (snd ?h')" by (rule no_matches(2))
  have h': "?h' = (sc_i s' + 1 + docsSkip ?docs (ahead ctx s p3), sc_out s')"
    using consumeHeredocs_safe [OF no_matches(1) rec1 safe'] unfolding after by simp
  have goes: "sc_i (stepOf ps s) = sc_i s + 1 + ?K" "sc_i (scanStep ?r [] s') = sc_i s' + 1 + docsSkip ?docs (ahead ctx s p3)"
    unfolding st st' h h' by simp_all
  have ps: "ps = (p1 @ [Lit NL]) @ p3" using atLitD(3) [OF at] by simp
  have i: "length (textOf (p1 @ [Lit NL])) = sc_i s + 1" using lit_views(10) [OF at] by simp
  have same: "sameStates (stepOf ps s) (scanStep ?r [] s')" using atLitD(4) [OF at] by (simp add: st st' sameStates_def)
  define n where "n = min ?K (length (textOf p3))"
  have "tokenFree (matchesOf 0 ((p1 @ [Lit NL]) @ p3)) (length (textOf (p1 @ [Lit NL]))) (length (textOf (p1 @ [Lit NL])) + n)"
    using free unfolding i ps [symmetric] by (auto simp: tokenFree_def n_def)
  then obtain u p4 where u: "p3 = map Lit u @ p4" "length u = n"
    using literal_region [of "p1 @ [Lit NL]" p3 n] atLitD(2) [OF at] unfolding ps [symmetric]
    by (metis min.cobounded2 n_def)
  show ?thesis
  proof (cases "?K \<le> length (textOf p3)")
    case True
    then have n: "length u = ?K" using u(2) by (simp add: n_def)
    have wf4: "wfPieces p4" using lit_views(13) [OF at] u(1) by simp
    have "docsSkip ?docs (u @ rendered ctx (sc_i s + 1 + length u) p4) = docsSkip ?docs (u @ textOf p4)"
      using n empty_text [OF wf4] by (intro docsSkip_local) (auto simp: u(1))
    then have "docsSkip ?docs (ahead ctx s p3) = length u" using n by (simp add: u(1) rendered_append add.assoc)
    then show ?thesis using n by (intro move_lits [OF at u(1) _ _ same]) (simp_all add: goes)
  next
    case False
    then have "length u = length (textOf p3)" using u(2) by (simp add: n_def min_def)
    moreover have "length (textOf p3) = length u + length (textOf p4)" unfolding u(1) by simp
    ultimately have "textOf p4 = []" by simp
    moreover have "wfPieces p4" using lit_views(13) [OF at] unfolding u(1) by simp
    ultimately have "p4 = []" using empty_text by blast
    then have p3: "p3 = map Lit u" using u(1) by simp
    have "length ?t = sc_i s + 1 + length u" "length ?r = sc_i s' + 1 + length u"
      using lit_views(10,11) [OF at] unfolding atLitD(3) [OF at] by (simp_all add: p3 rendered_append)
    then show ?thesis using False same unfolding inStep_def by (simp add: goes p3)
  qed
qed

lemma comment_test:
  assumes at: "atLit ctx ps p1 c p3 s s'" and top: "topFrame (sc_stack s) = Fr_cmd d b"
  shows "(sc_i s' = 0 \<or> (case prevChar (rendered ctx 0 ps) (sc_i s') of Some p \<Rightarrow> WORD_BREAK p | None \<Rightarrow> False))
     = (sc_i s = 0 \<or> (case prevChar (textOf ps) (sc_i s) of Some p \<Rightarrow> WORD_BREAK p | None \<Rightarrow> False))"
proof -
  have prev: "prevChar (textOf ps) (sc_i s) = (if textOf p1 = [] then None else Some (last (textOf p1)))"
    "prevChar (rendered ctx 0 ps) (sc_i s') = (if rendered ctx 0 p1 = [] then None else Some (last (rendered ctx 0 p1)))"
    unfolding lit_views(10,11) [OF at] atLitD(3) [OF at] rendered_append textOf_append by (rule prevChar_append)+
  show ?thesis
  proof (cases p1 rule: rev_cases)
    case Nil
    then show ?thesis using lit_views(10,11) [OF at] by simp
  next
    case (snoc p x)
    show ?thesis
    proof (cases x)
      case (Lit e)
      then show ?thesis unfolding prev using lit_views(10,11) [OF at] snoc by (simp add: rendered_append)
    next
      case (Tok w v)
      have "ctx (length (textOf p)) = SafeCtx Q_bare"
        using at top snoc Tok by (auto simp: atLit_def atPiece_def)
      then have "\<exists>z. rendered ctx 0 p1 = z @ [SQ]" by (simp add: snoc Tok rendered_append insertedText_def)
      moreover have "w \<noteq> []" "\<not> WORD_BREAK (last w)" using atLitD(2) [OF at] unfolding atLitD(3) [OF at] snoc Tok by simp_all
      ultimately show ?thesis unfolding prev using lit_views(10,11) [OF at] by (auto simp: snoc Tok)
    qed
  qed
qed

lemma cmd_step:
  assumes at: "atLit ctx ps p1 c p3 s s'" and top: "topFrame (sc_stack s) = Fr_cmd d b" and bs: "c \<noteq> BS"
    and rec': "recorded [] (sc_out s') (sc_i s')"
  shows "inStep ctx ps (stepOf ps s) (scanStep (rendered ctx 0 ps) [] s')"
proof -
  note same = atLitD(4) [OF at]
  note step = cmd_views [OF at top bs]
  show ?thesis
  proof (cases "c = DOLLAR")
    case True
    have tests: "startsWith (ahead ctx s p3) pat = startsWith (textOf p3) pat" if "pat \<in> {[LPAR], [LPAR, LPAR], [SQ]}" for pat
    proof (rule dollar_tests [OF at [unfolded True] that])
      fix w v p4 assume "p3 = Tok w v # p4"
      then show "stepOf ps s = advance 1 s" using True no_start_token [OF lit_views(13) [OF at]]
        by (simp add: step(1) inCmd_def starts_views(1) [OF at] starts_cons)
    next
      fix w v p4 assume p3: "p3 = Lit LPAR # Tok w v # p4"
      have "wfPieces (Tok w v # p4)" using lit_views(13) [OF at] by (simp add: p3)
      then show "stepOf ps s = advance 2 (push (Fr_cmd 0 True) s)" using True token_text [of w v p4]
        by (auto simp: step(1) inCmd_def starts_views(1) [OF at] starts_cons p3)
    qed
    consider "startsWith (textOf p3) [SQ]" | "\<not> startsWith (textOf p3) [SQ]" "startsWith (textOf p3) [LPAR, LPAR]"
      | "\<not> startsWith (textOf p3) [SQ]" "\<not> startsWith (textOf p3) [LPAR, LPAR]" "startsWith (textOf p3) [LPAR]"
      | "\<not> startsWith (textOf p3) [SQ]" "\<not> startsWith (textOf p3) [LPAR, LPAR]" "\<not> startsWith (textOf p3) [LPAR]" by blast
    then show ?thesis
    proof cases
      case 1
      then show ?thesis using True tests same
        by (intro move_more [OF at 1]) (simp_all add: step inCmd_def starts_views [OF at] starts_dollar)
    next
      case 2
      then show ?thesis using True tests same
        by (intro move_more [OF at 2(2)]) (simp_all add: step inCmd_def starts_views [OF at] starts_dollar)
    next
      case 3
      then show ?thesis using True tests same
        by (intro move_more [OF at 3(3)]) (simp_all add: step inCmd_def starts_views [OF at] starts_dollar)
    next
      case 4
      then show ?thesis using True tests same
        by (intro move_one [OF at]) (simp_all add: step inCmd_def starts_views [OF at] starts_dollar starts_cons)
    qed
  next
    case dollar: False
    show ?thesis
    proof (cases "c = LANGLE")
      case True
      have one: "startsWith (ahead ctx s p3) [LANGLE] = startsWith (textOf p3) [LANGLE]
          \<and> startsWith (ahead ctx s p3) [LANGLE, LANGLE] = startsWith (textOf p3) [LANGLE, LANGLE]"
      proof (cases p3 rule: textOf.cases)
        case (2 e p4)
        show ?thesis
        proof (cases p4 rule: textOf.cases)
          case (3 w v p5)
          have "e \<noteq> LANGLE" using heredoc_no_token [OF at [unfolded True] top] 2 3 by blast
          then show ?thesis using 2 by (simp add: starts_cons)
        qed (use 2 in \<open>simp_all add: starts_cons\<close>)
      next
        case (3 w v p4)
        have no: "\<not> startsWith (textOf p3) [LANGLE]" "\<not> startsWith (textOf p3) [LANGLE, LANGLE]"
          using no_start_token [OF lit_views(13) [OF at] 3] by simp_all
        then have "stepOf ps s = advance 1 s" using True by (simp add: step(1) inCmd_def starts_views(1) [OF at] starts_cons)
        then have "\<exists>z. ahead ctx s p3 = tl [LANGLE] @ SQ # z"
          using True 3 top by (intro bare_token [OF at, of _ w v p4 d b]) (simp_all add: frame_moves)
        then show ?thesis using no by (auto simp: starts_cons)
      qed simp
      consider "startsWith (textOf p3) [LANGLE, LANGLE]" | "\<not> startsWith (textOf p3) [LANGLE, LANGLE]" "startsWith (textOf p3) [LANGLE]"
        | "\<not> startsWith (textOf p3) [LANGLE, LANGLE]" "\<not> startsWith (textOf p3) [LANGLE]" by blast
      then show ?thesis
      proof cases
        case 1
        then show ?thesis using True one same
          by (intro move_more [OF at 1]) (simp_all add: step inCmd_def starts_views [OF at] starts_cons)
      next
        case 2
        then show ?thesis using True one heredoc_step [OF _ top 2(2,1) _ _ rec'] at by blast
      next
        case 3
        then show ?thesis using True one same
          by (intro move_one [OF at]) (simp_all add: step inCmd_def starts_views [OF at] starts_cons)
      qed
    next
      case angle: False
      show ?thesis
      proof (cases "c = NL \<and> sc_pending s \<noteq> []")
        case True
        then show ?thesis using body_step [OF _ top _ rec'] at by blast
      next
        case False
        then show ?thesis using dollar angle same comment_test [OF at top] lit_views(9) [OF at]
          by (intro move_one [OF at]) (auto simp: step inCmd_def starts_views [OF at] starts_cons)
      qed
    qed
  qed
qed

lemma literal_step:
  assumes at: "atLit ctx ps p1 c p3 s s'" and rec': "recorded [] (sc_out s') (sc_i s')"
  shows "inStep ctx ps (stepOf ps s) (scanStep (rendered ctx 0 ps) [] s')"
proof (cases "c = BS \<and> topFrame (sc_stack s) \<noteq> Fr_single \<and> topFrame (sc_stack s) \<noteq> Fr_comment")
  case True
  then show ?thesis using escape_step at by blast
next
  case False
  show ?thesis
  proof (cases "topFrame (sc_stack s)")
    case (Fr_cmd d b)
    then show ?thesis using cmd_step [OF at Fr_cmd _ rec'] False by auto
  next
    case (Fr_arith d)
    then show ?thesis using arith_step [OF at Fr_arith] False by auto
  next
    case Fr_double
    then show ?thesis using double_step [OF at Fr_double] False by auto
  qed (use quoted_step [OF at refl] False in auto)
qed

section \<open>The theorem\<close>

lemma scanStep_recorded: "recorded toks (sc_out s) (sc_i s) \<Longrightarrow> recorded toks (sc_out (scanStep t toks s)) (sc_i (scanStep t toks s))"
  using scanStep_records by (simp add: records_def)

lemma reach_recorded: "scan_reach t toks s s' \<Longrightarrow> recorded toks (sc_out s) (sc_i s) \<Longrightarrow> recorded toks (sc_out s') (sc_i s')"
  by (induction rule: scan_reach.induct) (auto intro: scanStep_recorded)

lemma start_recorded: "recorded toks (sc_out scanStart) n"
  by (simp add: recorded_def scanStart_def)

definition allSafe :: "(nat \<Rightarrow> ShellTokenContext) \<Rightarrow> Piece list \<Rightarrow> bool" where
  "allSafe ctx ps = (\<forall>p w v q. ps = p @ Tok w v # q \<longrightarrow> (\<exists>x. ctx (length (textOf p)) = SafeCtx x))"

lemma run_in_step:
  assumes "scan_reach (textOf ps) (matchesOf 0 ps) scanStart s" and wf: "wfPieces ps" and safe: "allSafe ctx ps"
    and track: "onTrack ctx ps scanStart"
  shows "onTrack ctx ps s \<and> (\<exists>s'. scan_reach (rendered ctx 0 ps) [] scanStart s' \<and> inStep ctx ps s s')"
  using assms(1)
proof (induction rule: scan_reach.induct)
  case here
  have "atPiece ctx [] ps scanStart scanStart" by (simp add: atPiece_def sameStates_def scanStart_def)
  then show ?case using track scan_reach.here unfolding inStep_def by blast
next
  case (more s)
  then obtain s' where tr: "onTrack ctx ps s" and s': "scan_reach (rendered ctx 0 ps) [] scanStart s'" and st: "inStep ctx ps s s'" by blast
  obtain p1 p2 where ps: "ps = p1 @ p2" and at: "atPiece ctx p1 p2 s s'" using st more.hyps(2) by (auto simp: inStep_def)
  have track': "onTrack ctx ps (stepOf ps s)" by (rule onTrack_step [OF tr more.hyps(2)])
  have i: "sc_i s = length (textOf p1)" using at by (simp add: atPiece_def)
  have "\<exists>s1'. scan_reach (rendered ctx 0 ps) [] s' s1' \<and> inStep ctx ps (stepOf ps s) s1'"
  proof (cases p2 rule: textOf.cases)
    case 1
    then show ?thesis using more.hyps(2) i by (simp add: ps)
  next
    case (2 c p3)
    have lit: "atLit ctx ps p1 c p3 s s'" using tr wf ps at safe unfolding atLit_def allSafe_def 2 by blast
    have "recorded [] (sc_out s') (sc_i s')" by (rule reach_recorded [OF s' start_recorded])
    from literal_step [OF lit this] show ?thesis using scan_reach_step [OF lit_views(4) [OF lit] refl] by blast
  next
    case (3 w v p3)
    then show ?thesis using token_pass [OF tr wf] ps at by blast
  qed
  then show ?case using track' scan_reach_trans [OF _ s'] by blast
qed

lemma unplaced_keeps:
  "obj_get out k = Some x \<Longrightarrow> obj_get (foldl (\<lambda>out k. if obj_get out k = None then obj_set k (UnsafeCtx UP_unplaced) out else out) out ks) k = Some x"
proof (induction ks arbitrary: out)
  case (Cons a ks)
  then have "obj_get (if obj_get out a = None then obj_set a (UnsafeCtx UP_unplaced) out else out) k = Some x"
    by (auto simp: obj_simps)
  from Cons.IH [OF this] show ?case by simp
qed simp

lemma token_key: "tokenEnd toks k \<noteq> None \<Longrightarrow> \<exists>w. (k, w) \<in> set toks"
  by (auto simp: tokenEnd_def split: option.splits dest: map_of_SomeD)

text \<open>When every token of a template has a safe context, the scan of the text with the escaped values in place
  passes the author's characters exactly as the scan of the template did, with the same stack of quotes,
  substitutions and comments and the same pending heredocs, whatever the values are.\<close>

theorem rendering_is_inert:
  fixes ps :: "Piece list"
  defines "ctx \<equiv> shellContextAt (scanShellTokenContexts (textOf ps) (matchesOf 0 ps))"
  assumes wf: "wfPieces ps" and safe: "\<forall>(k, w) \<in> set (matchesOf 0 ps). \<exists>q. ctx k = SafeCtx q"
    and reach: "scan_reach (textOf ps) (matchesOf 0 ps) scanStart s" and inside: "sc_i s \<le> length (textOf ps)"
  shows "\<exists>p1 p2 s'. ps = p1 @ p2 \<and> sc_i s = length (textOf p1) \<and> scan_reach (rendered ctx 0 ps) [] scanStart s'
     \<and> sc_i s' = length (rendered ctx 0 p1) \<and> sc_stack s' = sc_stack s \<and> sc_pending s' = sc_pending s"
proof -
  let ?out = "finalOut ps scanStart"
  have ctx_out: "ctx k = x" if "obj_get ?out k = Some x" for k x
    using unplaced_keeps [OF that] unfolding ctx_def shellContextAt_def scanShellTokenContexts_def finalOut_def by simp
  have "recorded (matchesOf 0 ps) ?out (sc_i (scanLoop (textOf ps) (matchesOf 0 ps) scanStart))"
    using scanLoop_records start_recorded unfolding finalOut_def records_def by blast
  then have keys: "\<exists>w. (k, w) \<in> set (matchesOf 0 ps)" if "obj_get ?out k = Some x" for k x
    using that token_key by (simp add: recorded_def)
  have "\<not> unsafeIn ?out"
  proof
    assume "unsafeIn ?out"
    then obtain k p where kp: "obj_get ?out k = Some (UnsafeCtx p)" by (auto simp: unsafeIn_def)
    obtain w where "(k, w) \<in> set (matchesOf 0 ps)" using keys [OF kp] by blast
    then have "\<exists>q. ctx k = SafeCtx q" using safe by blast
    then show False using ctx_out [OF kp] by simp
  qed
  then have track: "onTrack ctx ps scanStart"
    using ctx_out start_recorded by (simp add: onTrack_def) (simp add: scanStart_def root_def)
  have "allSafe ctx ps"
    unfolding allSafe_def
  proof (intro allI impI)
    fix p w v q assume "ps = p @ Tok w v # q"
    then have "(length (textOf p), w) \<in> set (matchesOf 0 ps)" by (simp add: matchesOf_append)
    then show "\<exists>x. ctx (length (textOf p)) = SafeCtx x" using safe by blast
  qed
  from run_in_step [OF reach wf this track] obtain s' where "scan_reach (rendered ctx 0 ps) [] scanStart s'" "inStep ctx ps s s'"
    by blast
  moreover from this(2) inside obtain p1 p2 where "ps = p1 @ p2" "atPiece ctx p1 p2 s s'" unfolding inStep_def by auto
  ultimately show ?thesis unfolding atPiece_def sameStates_def by blast
qed

end
