(* ===== verification/Substitution_Properties.thy ===== *)
theory Substitution_Properties
  imports Substitution Shell_Simulation "HOL-Library.Multiset"
begin

text \<open>
  What the substitution guarantees: values in a shell command stay inert, unresolved output references fail
  the substitution with the diagnosis of each, the two entry points agree, and the rendering of a structured
  value does not depend on the order of its keys.
\<close>

section \<open>The outcome of the single pass\<close>

definition allTexts :: "Replaced list \<Rightarrow> bool" where
  "allTexts rs = (\<forall>r \<in> set rs. \<exists>s. r = Rp_text s)"

lemma allTexts_simps [simp]: "allTexts []" "allTexts (r # rs) = ((\<exists>s. r = Rp_text s) \<and> allTexts rs)"
  by (simp_all add: allTexts_def)

lemma allTexts_iff: "allTexts rs = (Rp_throw \<notin> set rs \<and> missingOf rs = [] \<and> unsafeOf rs = [])"
proof (induction rs)
  case (Cons r rs)
  then show ?case by (cases r) auto
qed simp

lemma finishReplace_success: "finishReplace rs = Inr t \<longleftrightarrow> allTexts rs \<and> t = textsOf rs"
  by (auto simp: finishReplace_def allTexts_iff)

definition refValue :: "jsobj \<Rightarrow> jsobj \<Rightarrow> nat \<Rightarrow> ustring \<Rightarrow> RefGroups \<Rightarrow> ustring" where
  \<comment> \<open>the value a reference stands for, rendered\<close>
  "refValue inputs outputs i w g =
     (case g of
        InputRef p \<Rightarrow> resolveInputRef inputs (splitDots p)
      | OutputRef producer rest \<Rightarrow> orElse (resolveOutputRef outputs producer (splitDots rest)) [])"

definition templatePieces :: "jsobj \<Rightarrow> jsobj \<Rightarrow> ustring \<Rightarrow> Piece list" where
  "templatePieces inputs outputs template = piecesOf (refValue inputs outputs) (splitRefs COMBINED_REF_RE 0 template)"

lemma replaceRef_escaped:
  assumes "replaceRef sha256Hex inputs outputs True wrap (Some ctxs) i w g = Rp_text s"
  shows "(\<exists>q. shellContextAt ctxs i = SafeCtx q) \<and> s = insertedText (shellContextAt ctxs i) w (refValue inputs outputs i w g)"
  using assms
  by (auto simp: replaceRef_def fmtValue_def refValue_def insertedText_def resolveOutputRef_def Let_def
      split: RefGroups.splits OutputClass.splits ShellTokenContext.splits option.splits)

lemma shell_result:
  assumes "matchesOf n (piecesOf (refValue inputs outputs) ps) = map (\<lambda>(i, w, g). (i, w)) (refsOf ps)"
    and "allTexts (replaceAll (replaceRef sha256Hex inputs outputs True wrap (Some ctxs)) ps)"
  shows "textsOf (replaceAll (replaceRef sha256Hex inputs outputs True wrap (Some ctxs)) ps)
           = rendered (shellContextAt ctxs) n (piecesOf (refValue inputs outputs) ps)
       \<and> (\<forall>(k, w) \<in> set (map (\<lambda>(i, w, g). (i, w)) (refsOf ps)). \<exists>q. shellContextAt ctxs k = SafeCtx q)"
  using assms
proof (induction ps arbitrary: n)
  case (Cons p ps)
  show ?case
  proof (cases p)
    case (Chr c)
    then show ?thesis using Cons.IH [of "n + 1"] Cons.prems by simp
  next
    case (Ref i w g)
    then obtain s where s: "replaceRef sha256Hex inputs outputs True wrap (Some ctxs) i w g = Rp_text s"
      using Cons.prems(2) by auto
    have "n = i" using Cons.prems(1) Ref by simp
    then show ?thesis using Cons.IH [of "n + length w"] Cons.prems Ref s replaceRef_escaped [OF s] by simp
  qed
qed simp

text \<open>C7: A tool command is safe to substitute: when the substitution of a shell template succeeds, the lexer of the
  shell passes the author's characters in the result in the states in which it passed them in the template,
  whatever the inputs and the outputs are, so that no value opens or closes a quote, a substitution, a comment or a
  heredoc of the author.\<close>

theorem substitute_shell_inert:
  assumes ok: "substitute sha256Hex template inputs outputs True wrap = Inr result"
    and reach: "scan_reach template (tokenTable COMBINED_REF_RE template) scanStart s" and inside: "sc_i s \<le> length template"
  shows "let ctx = shellContextAt (scanTemplate COMBINED_REF_RE template) in
     \<exists>p1 p2 s'. templatePieces inputs outputs template = p1 @ p2
     \<and> textOf (p1 @ p2) = template \<and> rendered ctx 0 (p1 @ p2) = result
     \<and> sc_i s = length (textOf p1) \<and> sc_i s' = length (rendered ctx 0 p1)
     \<and> scan_reach result [] scanStart s' \<and> sc_stack s' = sc_stack s \<and> sc_pending s' = sc_pending s"
proof -
  let ?ps = "templatePieces inputs outputs template" and ?refs = "splitRefs COMBINED_REF_RE 0 template"
  let ?ctxs = "scanTemplate COMBINED_REF_RE template"
  let ?rs = "replaceAll (replaceRef sha256Hex inputs outputs True wrap (Some ?ctxs)) ?refs"
  have text_ps: "textOf ?ps = template" and toks: "matchesOf 0 ?ps = tokenTable COMBINED_REF_RE template" and wf: "wfPieces ?ps"
    using splitRefs_pieces [of COMBINED_REF_RE "refValue inputs outputs" 0 template]
    by (simp_all add: templatePieces_def tokenTable_def matchAll_def)
  have fin: "allTexts ?rs" "result = textsOf ?rs" using ok by (simp_all add: substitute_def finishReplace_success)
  have ctxs: "?ctxs = scanShellTokenContexts (textOf ?ps) (matchesOf 0 ?ps)" by (simp add: scanTemplate_def text_ps toks)
  have mt: "matchesOf 0 ?ps = map (\<lambda>(i, w, g). (i, w)) (refsOf ?refs)" using toks by (simp add: tokenTable_def matchAll_def)
  have sr: "textsOf ?rs = rendered (shellContextAt ?ctxs) 0 ?ps
      \<and> (\<forall>(k, w) \<in> set (map (\<lambda>(i, w, g). (i, w)) (refsOf ?refs)). \<exists>q. shellContextAt ?ctxs k = SafeCtx q)"
    unfolding templatePieces_def by (rule shell_result [OF mt [unfolded templatePieces_def] fin(1)])
  have res: "result = rendered (shellContextAt ?ctxs) 0 ?ps" using conjunct1 [OF sr] fin(2) by simp
  have safe: "\<forall>(k, w) \<in> set (matchesOf 0 ?ps). \<exists>q. shellContextAt ?ctxs k = SafeCtx q" unfolding mt by (rule conjunct2 [OF sr])
  obtain p1 p2 s' where "?ps = p1 @ p2" "sc_i s = length (textOf p1)" "scan_reach (rendered (shellContextAt ?ctxs) 0 ?ps) [] scanStart s'"
      "sc_i s' = length (rendered (shellContextAt ?ctxs) 0 p1)" "sc_stack s' = sc_stack s" "sc_pending s' = sc_pending s"
    using rendering_is_inert [OF wf, of s, folded ctxs] safe reach [folded toks] inside
    unfolding text_ps by blast
  then show ?thesis using text_ps res unfolding Let_def by metis
qed

section \<open>Failing closed\<close>








section \<open>One pass or the other\<close>

lemma output_of_combined:
  "outputBody x = (case combinedBody x of Some (OutputRef p r, y) \<Rightarrow> Some (OutputRef p r, y) | _ \<Rightarrow> None)"
proof (cases "inputBody x")
  case None
  then show ?thesis
    by (auto simp: combinedBody_def outputBody_def split: option.splits)
next
  case (Some a)
  then obtain y where "x = U ''inputs.'' @ y" "\<exists>p z. a = (InputRef p, z)"
    by (auto simp: inputBody_def dest!: matchLit_length split: option.splits)
  moreover from this(1) have "outputBody x = None" by (simp add: outputBody_def matchLit_def startsWith_def ustr)
  ultimately show ?thesis using Some by (auto simp: combinedBody_def)
qed

lemma output_token:
  "OUTPUT_REF_RE x = (case COMBINED_REF_RE x of Some (OutputRef p r, y) \<Rightarrow> Some (OutputRef p r, y) | _ \<Rightarrow> None)"
  by (auto simp: matchToken_def output_of_combined split: option.splits RefGroups.splits)

definition hasInputRef :: "ustring \<Rightarrow> bool" where
  "hasInputRef template = (\<exists>(i, w, g) \<in> set (matchAll COMBINED_REF_RE template). \<exists>p. g = InputRef p)"

lemma split_agrees:
  "\<not> (\<exists>(i, w, g) \<in> set (refsOf (splitRefs COMBINED_REF_RE n s)). \<exists>p. g = InputRef p)
     \<Longrightarrow> splitRefs OUTPUT_REF_RE n s = splitRefs COMBINED_REF_RE n s"
proof (induction "length s" arbitrary: n s rule: less_induct)
  case less
  show ?case
  proof (cases s)
    case (Cons c t)
    show ?thesis
    proof (cases "COMBINED_REF_RE s")
      case None
      then have "OUTPUT_REF_RE s = None" by (simp add: output_token)
      then show ?thesis using None less.hyps [of t "n + 1"] less.prems Cons by (simp add: splitRefs_chr)
    next
      case (Some a)
      obtain g r where a: "a = (g, r)" by fastforce
      obtain w where w: "s = w @ r" using refMatchers(3) Some a unfolding refMatcher_def by blast
      note c = splitRefs_ref(1) [OF refMatchers(3) Some [unfolded a w]] splitRefs_ref(2) [OF refMatchers(3) Some [unfolded a w], of n]
      obtain p q where g: "g = OutputRef p q" using less.prems unfolding w c(2) by (cases g) auto
      have "OUTPUT_REF_RE (w @ r) = Some (g, r)" using Some by (simp add: output_token w a g)
      from splitRefs_ref(2) [OF refMatchers(2) this] show ?thesis
        using c less.hyps [of r "n + length w"] less.prems unfolding w by simp
    qed
  qed simp
qed

lemma replaceAll_cong:
  "(\<And>i w g. (i, w, g) \<in> set (refsOf ps) \<Longrightarrow> f i w g = h i w g) \<Longrightarrow> replaceAll f ps = replaceAll h ps"
  by (induction ps rule: refsOf.induct) auto

text \<open>C31: The two entry points agree: on a template without input references the outputs substitution is the combined
  substitution, with and without shell escaping, on success and on every failure.\<close>

theorem substituteOutputs_agrees:
  assumes "\<not> hasInputRef template"
  shows "substituteOutputs template outputs esc = substitute sha256Hex template inputs outputs esc False"
proof -
  have split: "splitRefs OUTPUT_REF_RE 0 template = splitRefs COMBINED_REF_RE 0 template"
    using assms split_agrees unfolding hasInputRef_def matchAll_def by blast
  then have scan: "scanTemplate OUTPUT_REF_RE template = scanTemplate COMBINED_REF_RE template"
    by (simp add: scanTemplate_def tokenTable_def matchAll_def)
  have "replaceAll (replaceOutputRef outputs cs) (splitRefs COMBINED_REF_RE 0 template)
      = replaceAll (replaceRef sha256Hex inputs outputs esc False cs) (splitRefs COMBINED_REF_RE 0 template)" for cs
    using assms unfolding hasInputRef_def matchAll_def
    by (intro replaceAll_cong) (auto simp: replaceOutputRef_def replaceRef_def split: RefGroups.splits OutputClass.splits)
  then show ?thesis by (simp add: substituteOutputs_def substitute_def split scan)
qed

section \<open>Canonical JSON\<close>

inductive sameStruct :: "jsval \<Rightarrow> jsval \<Rightarrow> bool" where
  \<comment> \<open>the same value up to the order of the keys, at every depth\<close>
  leaf: "sameStruct v v"
| arr: "list_all2 sameStruct vs ws \<Longrightarrow> sameStruct (JArr vs) (JArr ws)"
| obj: "distinct (map fst a) \<Longrightarrow> distinct (map fst b) \<Longrightarrow> set (map fst a) = set (map fst b)
    \<Longrightarrow> \<forall>k v w. obj_get a k = Some v \<longrightarrow> obj_get b k = Some w \<longrightarrow> sameStruct v w \<Longrightarrow> sameStruct (JObj a) (JObj b)"
monos list.rel_mono_strong

lemma canonicalMembers_eq:
  "canonicalMembers ob = map (\<lambda>(k, v). (k, canonicalize v)) (filter (\<lambda>(k, v). k \<noteq> U ''__proto__'') ob)"
  by (induction ob) auto

lemma canonicalElements_eq: "canonicalElements vs = map canonicalize vs"
  by (induction vs) auto

lemma sort_entries_eq:
  fixes a b :: "(ustring \<times> jsval) list"
  assumes "set a = set b" and "distinct (map fst a)" and "distinct (map fst b)"
  shows "sort_key fst a = sort_key fst b"
proof -
  have st: "sort_key fst xs = map (\<lambda>k. (k, the (map_of xs k))) (sort (map fst xs))" if d: "distinct (map fst xs)"
    for xs :: "(ustring \<times> jsval) list"
  proof -
    have ks: "sort (map fst xs) = map fst (sort_key fst xs)"
      by (rule properties_for_sort) simp_all
    have "map (\<lambda>k. (k, the (map_of xs k))) (map fst (sort_key fst xs)) = sort_key fst xs"
      unfolding map_map by (rule map_idI) (use d in auto)
    then show ?thesis unfolding ks by (rule sym)
  qed
  have so: "sort (map fst a) = sort (map fst b)"
  proof -
    have "mset b = mset a" using assms set_eq_iff_mset_eq_distinct [of a b] by (simp add: distinct_map)
    then show ?thesis by (intro properties_for_sort) simp_all
  qed
  have mo: "map_of a = map_of b" using assms by (simp add: map_of_inject_set)
  show ?thesis unfolding st [OF assms(2)] st [OF assms(3)] so mo by (rule refl)
qed

lemma ownMembers:
  assumes "distinct (map fst a)" and "distinct (map fst b)" and "set (map fst a) = set (map fst b)"
    and "\<forall>k v w. obj_get a k = Some v \<longrightarrow> obj_get b k = Some w \<longrightarrow> canonicalize v = canonicalize w"
  shows "sort_key fst (canonicalMembers a) = sort_key fst (canonicalMembers b)"
proof (rule sort_entries_eq)
  have sub: "set (canonicalMembers x) \<subseteq> set (canonicalMembers y)"
    if d: "distinct (map fst x)" "distinct (map fst y)" and k: "set (map fst x) = set (map fst y)"
      and c: "\<forall>k v w. obj_get x k = Some v \<longrightarrow> obj_get y k = Some w \<longrightarrow> canonicalize v = canonicalize w" for x y
  proof
    fix p assume "p \<in> set (canonicalMembers x)"
    then obtain q v where p: "p = (q, canonicalize v)" "(q, v) \<in> set x" "q \<noteq> U ''__proto__''"
      by (auto simp: canonicalMembers_eq)
    then have "q \<in> set (map fst y)" using k by force
    then obtain w where w: "(q, w) \<in> set y" by auto
    then have "canonicalize v = canonicalize w" using c d p(2) by (meson map_of_eq_Some_iff)
    then show "p \<in> set (canonicalMembers y)" using p w by (force simp: canonicalMembers_eq)
  qed
  have c': "\<forall>k v w. obj_get b k = Some v \<longrightarrow> obj_get a k = Some w \<longrightarrow> canonicalize v = canonicalize w"
    using assms(4) by metis
  show "set (canonicalMembers a) = set (canonicalMembers b)"
    using sub [OF assms] sub [OF assms(2,1) assms(3) [symmetric] c'] by blast
  have "map fst (canonicalMembers x) = filter (\<lambda>k. k \<noteq> U ''__proto__'') (map fst x)" for x by (induction x) auto
  then show "distinct (map fst (canonicalMembers a))" "distinct (map fst (canonicalMembers b))"
    using assms(1,2) by simp_all
qed

lemma canonicalize_same: "sameStruct v w \<Longrightarrow> canonicalize v = canonicalize w"
proof (induction rule: sameStruct.induct)
  case (arr vs ws)
  then have "list_all2 (\<lambda>v w. canonicalize v = canonicalize w) vs ws" by (rule list.rel_mono_strong) simp
  then have "map canonicalize vs = map canonicalize ws" by (induction rule: list_all2_induct) simp_all
  then show ?case by (simp add: canonicalElements_eq)
next
  case (obj a b)
  then show ?case using ownMembers [of a b] by simp
qed simp

text \<open>C32: A structured output renders to the same bytes whatever key order its producer emitted: two values that differ
  only in the order of their keys, at any depth, have the same rendering.\<close>

theorem rendering_ignores_key_order:
  assumes "sameStruct v w"
  shows "renderOutputValue v = renderOutputValue w"
  using assms canonicalize_same [OF assms]
  by (cases rule: sameStruct.cases) (simp_all add: canonicalJson_def)

theorem rendering_ignores_key_order_witness:
  "renderOutputValue (JObj [(U ''a'', JNull), (U ''b'', JArr [])]) = renderOutputValue (JObj [(U ''b'', JArr []), (U ''a'', JNull)])"
  by (rule rendering_ignores_key_order, rule obj) (auto intro: sameStruct.leaf)

section \<open>Examples\<close>

lemma inputText: "U ''${{inputs.v}}'' = [36, 123, 123, 105, 110, 112, 117, 116, 115, 46, 118, 125, 125]"
  by (simp add: ustr)

lemmas match_defs = matchToken_def combinedBody_def inputBody_def matchLit_def startsWith_def matchPath_def matchIdent_def
  isLetter_def isInputChar_def isWordChar_def isSpace_def ustr

lemma inputToken: "COMBINED_REF_RE (U ''${{inputs.v}}'') = Some (InputRef [118], [])"
  unfolding inputText by (simp add: match_defs matchMore.simps)

lemma inputSplit: "splitRefs COMBINED_REF_RE n (U ''${{inputs.v}}'') = [Ref n (U ''${{inputs.v}}'') (InputRef [118])]"
proof -
  have "COMBINED_REF_RE (U ''${{inputs.v}}'' @ []) = Some (InputRef [118], [])" using inputToken by (simp only: append_Nil2)
  from splitRefs_ref(2) [OF refMatchers(3) this, of n] show ?thesis by (simp only: append_Nil2 splitRefs.simps(1))
qed

lemma inputStep:
  "tokenTable COMBINED_REF_RE (U ''${{inputs.v}}'') = [(0, U ''${{inputs.v}}'')]"
  "scanStep (U ''${{inputs.v}}'') [(0, U ''${{inputs.v}}'')] scanStart = scanStart\<lparr>sc_i := 13, sc_out := [(0, SafeCtx Q_bare)]\<rparr>"
proof -
  let ?t = "U ''${{inputs.v}}''"
  show "tokenTable COMBINED_REF_RE ?t = [(0, ?t)]" by (simp add: tokenTable_def matchAll_def inputSplit)
  have "tokenEnd [(0, ?t)] 0 = Some 13" by (simp add: tokenEnd_def inputText)
  then show "scanStep ?t [(0, ?t)] scanStart = scanStart\<lparr>sc_i := 13, sc_out := [(0, SafeCtx Q_bare)]\<rparr>"
    by (simp add: scanStep_def scanStart_def topFrame_def root_def prevChar_def Let_def)
qed

lemma inputScan: "scanTemplate COMBINED_REF_RE (U ''${{inputs.v}}'') = [(0, SafeCtx Q_bare)]"
proof -
  let ?t = "U ''${{inputs.v}}''" and ?s = "scanStart\<lparr>sc_i := 13, sc_out := [(0, SafeCtx Q_bare)]\<rparr>"
  have "scanLoop ?t [(0, ?t)] scanStart = scanLoop ?t [(0, ?t)] ?s"
    by (subst scanLoop.simps) (simp add: scanStart_def inputStep(2) [unfolded scanStart_def])
  also have "... = ?s" by (subst scanLoop.simps) (simp add: scanStart_def)
  finally show ?thesis by (simp add: scanTemplate_def inputStep(1) scanShellTokenContexts_def)
qed

lemma inputSubstituted: "substitute sha256Hex (U ''${{inputs.v}}'') [([118], JStr [39])] [] True False = Inr [39, 39, 92, 39, 39, 39]"
  by (simp add: substitute_def inputScan inputSplit replaceRef_def Let_def fmtValue_def shellContextAt_def resolveInputRef_def finishReplace_def)

theorem substitute_shell_inert_witness:
  "let ctx = shellContextAt (scanTemplate COMBINED_REF_RE (U ''${{inputs.v}}'')) in
     \<exists>p1 p2 s'. templatePieces [([118], JStr [39])] [] (U ''${{inputs.v}}'') = p1 @ p2
     \<and> textOf (p1 @ p2) = U ''${{inputs.v}}'' \<and> rendered ctx 0 (p1 @ p2) = [39, 39, 92, 39, 39, 39]
     \<and> 13 = length (textOf p1) \<and> sc_i s' = length (rendered ctx 0 p1)
     \<and> scan_reach [39, 39, 92, 39, 39, 39] [] scanStart s' \<and> sc_stack s' = [root] \<and> sc_pending s' = []"
proof -
  let ?t = "U ''${{inputs.v}}''" and ?s = "scanStart\<lparr>sc_i := 13, sc_out := [(0, SafeCtx Q_bare)]\<rparr>"
  have "scan_reach ?t (tokenTable COMBINED_REF_RE ?t) scanStart ?s"
    unfolding inputStep(1) by (subst inputStep(2) [symmetric]) (rule scan_reach.more [OF scan_reach.here], simp add: scanStart_def)
  from substitute_shell_inert [OF inputSubstituted this] show ?thesis by (simp add: scanStart_def)
qed

lemma outputText: "U ''${{outputs.p.f}}'' = [36, 123, 123, 111, 117, 116, 112, 117, 116, 115, 46, 112, 46, 102, 125, 125]"
  by (simp add: ustr)

lemma outputToken: "COMBINED_REF_RE (U ''${{outputs.p.f}}'') = Some (OutputRef [112] [102], [])"
  unfolding outputText by (simp add: match_defs outputBody_def matchMore.simps)

lemma outputSplit: "splitRefs COMBINED_REF_RE n (U ''${{outputs.p.f}}'') = [Ref n (U ''${{outputs.p.f}}'') (OutputRef [112] [102])]"
proof -
  have "COMBINED_REF_RE (U ''${{outputs.p.f}}'' @ []) = Some (OutputRef [112] [102], [])" using outputToken by (simp only: append_Nil2)
  from splitRefs_ref(2) [OF refMatchers(3) this, of n] show ?thesis by (simp only: append_Nil2 splitRefs.simps(1))
qed

theorem substituteOutputs_agrees_witness:
  "substituteOutputs (U ''${{outputs.p.f}}'') [([112], JObj [([102], JBool True)])] False = Inr (U ''true'')"
proof -
  have "\<not> hasInputRef (U ''${{outputs.p.f}}'')" by (simp add: hasInputRef_def matchAll_def outputSplit)
  from substituteOutputs_agrees [OF this, of _ False "\<lambda>s. s" "[]"] show ?thesis
    by (simp add: substitute_def outputSplit replaceRef_def classifyOutputRef_def getProp_def fmtValue_def finishReplace_def)
qed

end
