(* ===== verification/Output_Types.thy ===== *)
theory Output_Types
  imports Js_Objects
begin

text \<open>
  Typed structured values, \<open>packages/core/src/types/outputs.ts\<close>: the profile an \<open>outputs:\<close> block or a
  structured input declares, the path lookup in it, its canonical form and the runtime validation of a value.
  The lowering of a profile to a provider schema builds values of a package and is not modelled.
\<close>

section \<open>Profiles\<close>

datatype (plugins only: code size) OutputProfile =
    OP_string
  | OP_number
  | OP_boolean
  | OP_choice "ustring list"
  | OP_record "(ustring \<times> OutputProfile) list" "ustring list" \<comment> \<open>\<open>fields\<close> and \<open>required\<close>\<close>
  | OP_array OutputProfile

type_synonym OutputsDecl = "(ustring \<times> OutputProfile) list"

fun isOutputScalar :: "OutputProfile \<Rightarrow> bool" where
  "isOutputScalar (OP_record f r) = False"
| "isOutputScalar (OP_array p) = False"
| "isOutputScalar p = True"

fun isOutputRecord :: "OutputProfile \<Rightarrow> bool" where
  "isOutputRecord (OP_record f r) = True"
| "isOutputRecord p = False"

fun isOutputArray :: "OutputProfile \<Rightarrow> bool" where
  "isOutputArray (OP_array p) = True"
| "isOutputArray p = False"

fun resolveProfile :: "OutputProfile Resolved \<Rightarrow> ustring list \<Rightarrow> OutputProfile Resolved" where
  \<comment> \<open>the loop of \<open>resolveOutputProfile\<close>\<close>
  "resolveProfile cur [] = cur"
| "resolveProfile (RV_val (OP_record flds req)) (seg # segs) = resolveProfile (getProp flds seg) segs"
| "resolveProfile cur (seg # segs) = RV_undefined"

definition resolveOutputProfile :: "OutputsDecl \<Rightarrow> ustring list \<Rightarrow> OutputProfile Resolved" where
  "resolveOutputProfile decl path =
     (case path of [] \<Rightarrow> RV_undefined | t # rest \<Rightarrow> resolveProfile (getProp decl t) rest)"

section \<open>Canonical form\<close>

fun canonicalizeProfile :: "OutputProfile \<Rightarrow> OutputProfile" and canonicalizeFields :: "OutputsDecl \<Rightarrow> OutputsDecl" where
  "canonicalizeProfile (OP_choice options) = OP_choice (sort options)"
| "canonicalizeProfile (OP_record flds required) = OP_record (ownOrder (sort_key fst (canonicalizeFields flds))) (sort required)"
| "canonicalizeProfile (OP_array items) = OP_array (canonicalizeProfile items)"
| "canonicalizeProfile p = p"
| "canonicalizeFields [] = []"
| "canonicalizeFields ((k, p) # fs) =
     (if k = U ''__proto__'' then canonicalizeFields fs else (k, canonicalizeProfile p) # canonicalizeFields fs)"

definition canonicalizeOutputsDecl :: "OutputsDecl \<Rightarrow> OutputsDecl" where
  "canonicalizeOutputsDecl decl = ownOrder (sort_key fst (canonicalizeFields decl))"

section \<open>Runtime validation\<close>

definition quoted :: "ustring \<Rightarrow> ustring" where
  \<comment> \<open>\<open>"${s}"\<close> in a message\<close>
  "quoted s = [0x22] @ s @ [0x22]"

definition mustBe :: "ustring \<Rightarrow> string \<Rightarrow> jsval \<Rightarrow> ustring option" where
  "mustBe path what v = Some (U ''field '' @ quoted path @ U '' must be a '' @ U what @ U '', got '' @ typeof v)"

definition notDeclared :: "ustring \<Rightarrow> (ustring \<times> 'p) list \<Rightarrow> jsobj \<Rightarrow> ustring option" where
  \<comment> \<open>the first key of the value that the profile does not list\<close>
  "notDeclared path flds ob =
     (case filter (\<lambda>k. obj_get flds k = None) (map fst ob) of
        [] \<Rightarrow> None
      | k # _ \<Rightarrow> Some (U ''field '' @ quoted (path @ [46] @ k) @ U '' is not a declared field''))"

definition firstMissing :: "ustring \<Rightarrow> ustring list \<Rightarrow> jsobj \<Rightarrow> ustring option" where
  "firstMissing path required ob =
     (case filter (\<lambda>k. obj_get ob k = None) required of
        [] \<Rightarrow> None
      | k # _ \<Rightarrow> Some (U ''field '' @ quoted (path @ [46] @ k) @ U '' is required but missing''))"

function validateValueAgainstProfile :: "OutputProfile \<Rightarrow> jsval \<Rightarrow> ustring \<Rightarrow> ustring option"
  and validateFields :: "(ustring \<times> OutputProfile) list \<Rightarrow> ustring list \<Rightarrow> jsobj \<Rightarrow> ustring \<Rightarrow> ustring option"
  and validateItems :: "OutputProfile \<Rightarrow> nat \<Rightarrow> jsval list \<Rightarrow> ustring \<Rightarrow> ustring option" where
  "validateValueAgainstProfile OP_string v path = (case v of JStr s \<Rightarrow> None | _ \<Rightarrow> mustBe path ''string'' v)"
| "validateValueAgainstProfile OP_number v path =
     (case v of
        JNum n \<Rightarrow>
          if isFinite n then None
          else Some (U ''field '' @ quoted path @ U '' must be a finite number, got '' @ String_number n
                 @ U '' (Infinity/NaN are not JSON-representable and would degrade to null)'')
      | _ \<Rightarrow> mustBe path ''number'' v)"
| "validateValueAgainstProfile OP_boolean v path = (case v of JBool b \<Rightarrow> None | _ \<Rightarrow> mustBe path ''boolean'' v)"
| "validateValueAgainstProfile (OP_choice options) v path =
     (case v of
        JStr s \<Rightarrow>
          if s \<in> set options then None
          else Some (U ''field '' @ quoted path @ U '' value '' @ JSON_quote s @ U '' not in choices ''
                 @ JSON_stringify (JArr (map JStr options)))
      | _ \<Rightarrow> Some (U ''field '' @ quoted path @ U '' must be a string (choice), got '' @ typeof v))"
| "validateValueAgainstProfile (OP_record flds required) v path =
     (case v of
        JObj ob \<Rightarrow>
          orOption (firstMissing path required ob)
            (orOption (validateFields flds required ob path) (notDeclared path flds ob))
      | _ \<Rightarrow> Some (U ''field '' @ quoted path @ U '' must be a plain object''))"
| "validateValueAgainstProfile (OP_array items) v path =
     (case v of
        JArr vs \<Rightarrow> validateItems items 0 vs path
      | _ \<Rightarrow> Some (U ''field '' @ quoted path @ U '' must be an array''))"
| "validateFields [] required ob path = None"
| "validateFields ((k, p) # flds) required ob path =
     (case obj_get ob k of
        None \<Rightarrow> validateFields flds required ob path
      | Some v \<Rightarrow>
          if v = JNull \<and> k \<notin> set required then validateFields flds required ob path
          else orOption (validateValueAgainstProfile p v (path @ [46] @ k)) (validateFields flds required ob path))"
| "validateItems items i [] path = None"
| "validateItems items i (v # vs) path =
     orOption (validateValueAgainstProfile items v (path @ [91] @ nat_digits i @ [93])) (validateItems items (i + 1) vs path)"
  by pat_completeness auto
termination
  by (relation "measures [\<lambda>x. case x of Inl (p, v, s) \<Rightarrow> size p | Inr (Inl (f, r, ob, s)) \<Rightarrow> size_list (size_prod (\<lambda>_. 0) size) f | Inr (Inr (p, i, vs, s)) \<Rightarrow> size p,
       \<lambda>x. case x of Inl _ \<Rightarrow> 0 | Inr (Inl _) \<Rightarrow> 0 | Inr (Inr (p, i, vs, s)) \<Rightarrow> Suc (length vs)]") auto

fun builtinError :: "OutputProfile \<Rightarrow> ustring \<Rightarrow> ustring" where
  \<comment> \<open>\<open>validateValueAgainstProfile\<close> of a function\<close>
  "builtinError OP_string path = U ''field '' @ quoted path @ U '' must be a string, got function''"
| "builtinError OP_number path = U ''field '' @ quoted path @ U '' must be a number, got function''"
| "builtinError OP_boolean path = U ''field '' @ quoted path @ U '' must be a boolean, got function''"
| "builtinError (OP_choice options) path = U ''field '' @ quoted path @ U '' must be a string (choice), got function''"
| "builtinError (OP_record flds required) path = U ''field '' @ quoted path @ U '' must be a plain object''"
| "builtinError (OP_array items) path = U ''field '' @ quoted path @ U '' must be an array''"

definition inObject :: "(ustring \<times> 'v) list \<Rightarrow> ustring \<Rightarrow> bool" where
  \<comment> \<open>\<open>k in ob\<close>: own properties and all the members of the prototype\<close>
  "inObject ob k = (obj_get ob k \<noteq> None \<or> k \<in> set OBJECT_PROTOTYPE \<or> k \<in> set PROTOTYPE_ACCESSORS)"

fun validateDeclared :: "OutputsDecl \<Rightarrow> jsobj \<Rightarrow> ustring option" where
  \<comment> \<open>the loop of \<open>validateOutputsValue\<close> over the declared fields; a function read off the prototype is of no
    declared type\<close>
  "validateDeclared [] ob = None"
| "validateDeclared ((key, p) # decl) ob =
     (case getProp ob key of
        RV_undefined \<Rightarrow> Some (U ''missing required output field '' @ quoted key)
      | RV_builtin \<Rightarrow> Some (builtinError p key)
      | RV_val v \<Rightarrow> orOption (validateValueAgainstProfile p v key) (validateDeclared decl ob))"

definition validateOutputsValue :: "OutputsDecl \<Rightarrow> jsval \<Rightarrow> ustring option" where
  "validateOutputsValue decl v =
     (case v of
        JObj ob \<Rightarrow>
          orOption (validateDeclared decl ob)
            (case filter (\<lambda>k. \<not> inObject decl k) (map fst ob) of
               [] \<Rightarrow> None
             | key # _ \<Rightarrow> Some (U ''unexpected output field '' @ quoted key @ U '' (not declared)''))
      | _ \<Rightarrow> Some (U ''outputs value must be a plain object''))"

end
