(* ===== verification/Run_Inputs.thy ===== *)
theory Run_Inputs
  imports Output_Types
begin

text \<open>
  Binding and validation of the inputs of a run, \<open>packages/core/src/engine/inputs.ts\<close>: coercion of the strings a
  client sends to their declared types, the map the substitution reads, and the errors of a set of bindings.
  \<open>JSON.parse\<close>, whose error texts depend on the engine, is the parameter \<open>jsonParse\<close>.
\<close>

section \<open>Declarations\<close>

datatype (plugins only: code size) InputType = TY_string | TY_boolean | TY_number | TY_choice | TY_object | TY_array

fun typeName :: "InputType \<Rightarrow> ustring" where
  "typeName TY_string = U ''string''"
| "typeName TY_boolean = U ''boolean''"
| "typeName TY_number = U ''number''"
| "typeName TY_choice = U ''choice''"
| "typeName TY_object = U ''object''"
| "typeName TY_array = U ''array''"

record InputDecl =
  in_name :: ustring
  in_type :: InputType
  in_required :: bool
  in_description :: "ustring option"
  in_default :: "jsval option" \<comment> \<open>a string, a number or a boolean\<close>
  in_options :: "ustring list option"
  in_profile :: "OutputProfile option"

datatype (plugins only: code size) InputErrorCode = IE_missing_required | IE_invalid_choice | IE_unknown_input | IE_invalid_shape

record InputBindingError =
  ie_code :: InputErrorCode
  ie_name :: ustring
  ie_message :: ustring

definition isStructuredInput :: "InputDecl \<Rightarrow> bool" where
  "isStructuredInput d = ((in_type d = TY_object \<or> in_type d = TY_array) \<and> in_profile d \<noteq> None)"

section \<open>Numbers\<close>

definition isDigit :: "16 word \<Rightarrow> bool" where
  "isDigit c = (48 \<le> c \<and> c \<le> 57)"

definition digitsValue :: "ustring \<Rightarrow> nat" where
  "digitsValue ds = foldl (\<lambda>a c. 10 * a + (unat c - 48)) 0 ds"

definition splitSign :: "ustring \<Rightarrow> bool \<times> ustring" where
  \<comment> \<open>\<open>[+-]?\<close>: whether the sign is a minus, and the rest\<close>
  "splitSign s = (case s of [] \<Rightarrow> (False, s) | c # r \<Rightarrow> if c = 43 then (False, r) else if c = 45 then (True, r) else (False, s))"

definition parseExponent :: "ustring \<Rightarrow> int option" where
  \<comment> \<open>\<open>([eE][+-]?\d+)?$\<close>\<close>
  "parseExponent s =
     (case s of
        [] \<Rightarrow> Some 0
      | c # r \<Rightarrow>
          (case splitSign r of
             (neg, ds) \<Rightarrow>
               if (c = 101 \<or> c = 69) \<and> ds \<noteq> [] \<and> list_all isDigit ds
               then Some (if neg then - int (digitsValue ds) else int (digitsValue ds)) else None))"

definition powerOfTen :: "int \<Rightarrow> number" where
  "powerOfTen e = (if 0 \<le> e then 10 ^ nat e else 1 / 10 ^ nat (- e))"

definition parseDecimal :: "ustring \<Rightarrow> number option" where
  \<comment> \<open>\<open>DECIMAL_NUMBER\<close> and the value \<open>Number\<close> gives to a match\<close>
  "parseDecimal s =
     (case splitSign s of
        (neg, s1) \<Rightarrow>
          (let ip = takeWhile isDigit s1; s2 = dropWhile isDigit s1; point = (s2 \<noteq> [] \<and> hd s2 = 46);
               fp = (if point then takeWhile isDigit (tl s2) else []); s3 = (if point then dropWhile isDigit (tl s2) else s2)
           in if ip = [] \<and> fp = [] then None
              else (case parseExponent s3 of
                      None \<Rightarrow> None
                    | Some e \<Rightarrow>
                        let m = of_nat (digitsValue (ip @ fp)) * powerOfTen (e - int (length fp))
                        in Some (if neg then - m else m))))"

definition overflows :: "number \<Rightarrow> bool" where
  \<comment> \<open>rounds to an infinity\<close>
  "overflows x = (2 ^ 1024 - 2 ^ 970 \<le> \<bar>x\<bar>)"

definition inputNamed :: "ustring \<Rightarrow> ustring" where
  "inputNamed name = U ''input '' @ quoted name"

definition coerceNumberInput :: "ustring \<Rightarrow> ustring \<Rightarrow> ustring + number" where
  \<comment> \<open>\<open>Inl\<close> is the message of the error thrown\<close>
  "coerceNumberInput name value =
     (if utrim value = [] then Inl (inputNamed name @ U '' (type number) must not be blank'')
      else case parseDecimal (utrim value) of
        None \<Rightarrow> Inl (inputNamed name @ U '' (type number) is not a decimal number: '' @ JSON_quote value)
      | Some n \<Rightarrow>
          if overflows n then Inl (inputNamed name @ U '' (type number) is not a finite number: '' @ JSON_quote value)
          else Inr n)"

section \<open>Coercion\<close>

definition declByName :: "InputDecl list \<Rightarrow> (ustring \<times> InputDecl) list" where
  \<comment> \<open>\<open>new Map(decls.map((d) => [d.name, d]))\<close>\<close>
  "declByName decls = foldl (\<lambda>m d. obj_set (in_name d) d m) [] decls"

definition invalidShape :: "ustring \<Rightarrow> ustring \<Rightarrow> InputBindingError" where
  "invalidShape name message = \<lparr>ie_code = IE_invalid_shape, ie_name = name, ie_message = message\<rparr>"

definition coerceString :: "(ustring \<Rightarrow> ustring + jsval) \<Rightarrow> InputDecl \<Rightarrow> ustring \<Rightarrow> ustring \<Rightarrow> jsval \<times> InputBindingError list" where
  \<comment> \<open>a declared string value: what is stored for it, and the errors it adds\<close>
  "coerceString jsonParse decl name v =
     (if isStructuredInput decl then
        case jsonParse v of
          Inr x \<Rightarrow> (x, [])
        | Inl msg \<Rightarrow>
            (JStr v, [invalidShape name (inputNamed name @ U '' (type '' @ typeName (in_type decl) @ U '') is not valid JSON: '' @ msg)])
      else if in_type decl = TY_number then
        case coerceNumberInput name v of
          Inr n \<Rightarrow> (JFin n, [])
        | Inl msg \<Rightarrow> (JStr v, [invalidShape name msg])
      else if in_type decl = TY_boolean then
        if v \<noteq> U ''true'' \<and> v \<noteq> U ''false''
        then (JStr v, [invalidShape name (inputNamed name @ U '' (type boolean) must be '' @ quoted (U ''true'') @ U '' or ''
                @ quoted (U ''false'') @ U '', got '' @ JSON_quote v)])
        else (JBool (v = U ''true''), [])
      else (JStr v, []))"

definition coerceEntry ::
  "(ustring \<Rightarrow> ustring + jsval) \<Rightarrow> (ustring \<times> InputDecl) list \<Rightarrow> jsobj \<times> InputBindingError list \<Rightarrow> ustring \<times> jsval
     \<Rightarrow> jsobj \<times> InputBindingError list" where
  "coerceEntry jsonParse byName acc e =
     (case acc of (vs, errs) \<Rightarrow> case e of (name, v) \<Rightarrow>
        if name = U ''__proto__'' then (vs, errs)
        else case obj_get byName name of
          None \<Rightarrow> (obj_set name v vs, errs)
        | Some decl \<Rightarrow>
            (case v of
               JStr s \<Rightarrow> (case coerceString jsonParse decl name s of (x, es) \<Rightarrow> (obj_set name x vs, errs @ es))
             | _ \<Rightarrow> (obj_set name v vs, errs)))"

definition coerceInputBindings ::
  "(ustring \<Rightarrow> ustring + jsval) \<Rightarrow> InputDecl list \<Rightarrow> jsobj \<Rightarrow> jsobj \<times> InputBindingError list" where
  "coerceInputBindings jsonParse decls provided = foldl (coerceEntry jsonParse (declByName decls)) ([], []) provided"

section \<open>The resolved map\<close>

definition isUndefined :: "jsval option \<Rightarrow> bool" where
  \<comment> \<open>\<open>v === undefined || v === null\<close>\<close>
  "isUndefined v = (v = None \<or> v = Some JNull)"

definition bound :: "InputDecl \<Rightarrow> jsval \<Rightarrow> jsval" where
  "bound d v = (if isStructuredInput d then v else JStr (String_value v))"

definition resolveInputBindings :: "InputDecl list \<Rightarrow> jsobj \<Rightarrow> jsobj" where
  "resolveInputBindings decls provided =
     (let defaults = foldl (\<lambda>out d. case in_default d of None \<Rightarrow> out | Some v \<Rightarrow> obj_set (in_name d) (bound d v) out) [] decls
      in foldl (\<lambda>out d.
           let v = obj_get provided (in_name d) in
           if isUndefined v then out else obj_set (in_name d) (bound d (the v)) out) defaults decls)"

section \<open>Validation\<close>

definition shapeMismatch :: "InputType \<Rightarrow> jsval \<Rightarrow> bool" where
  "shapeMismatch ty v =
     (case ty of
        TY_string \<Rightarrow> (case v of JStr _ \<Rightarrow> False | _ \<Rightarrow> True)
      | TY_number \<Rightarrow> (case v of JNum n \<Rightarrow> \<not> isFinite n | _ \<Rightarrow> True)
      | TY_boolean \<Rightarrow> (case v of JBool _ \<Rightarrow> False | _ \<Rightarrow> True)
      | _ \<Rightarrow> False)"

definition validateDecl :: "jsobj \<Rightarrow> InputDecl \<Rightarrow> InputBindingError list" where
  \<comment> \<open>one round of the loop over the declarations\<close>
  "validateDecl provided d =
     (let v = obj_get provided (in_name d); name = in_name d in
      if isUndefined v then
        if in_required d \<and> in_default d = None
        then [\<lparr>ie_code = IE_missing_required, ie_name = name,
               ie_message = U ''required input '' @ quoted name @ U '' was not provided''\<rparr>]
        else []
      else if in_type d = TY_choice \<and> in_options d \<noteq> None then
        if (case the v of JStr s \<Rightarrow> s \<in> set (the (in_options d)) | _ \<Rightarrow> False) then []
        else [\<lparr>ie_code = IE_invalid_choice, ie_name = name,
               ie_message = inputNamed name @ U '' = '' @ JSON_stringify (the v) @ U '' is not one of ''
                 @ ujoin (U '', '') (map JSON_quote (the (in_options d)))\<rparr>]
      else if shapeMismatch (in_type d) (the v) then
        [invalidShape name (inputNamed name @ U '' expects a '' @ typeName (in_type d) @ U '' but got '' @ JSON_stringify (the v))]
      else if isStructuredInput d then
        case validateValueAgainstProfile (the (in_profile d)) (the v) name of
          None \<Rightarrow> []
        | Some msg \<Rightarrow> [invalidShape name (inputNamed name @ U '': '' @ msg)]
      else [])"

definition validateInputBindings :: "InputDecl list \<Rightarrow> jsobj \<Rightarrow> InputBindingError list" where
  "validateInputBindings decls provided =
     concat (map (validateDecl provided) decls)
     @ map (\<lambda>name. \<lparr>ie_code = IE_unknown_input, ie_name = name,
             ie_message = inputNamed name @ U '' is not declared in the workflow'' @ [39] @ U ''s inputs: block''\<rparr>)
         (filter (\<lambda>name. obj_get (declByName decls) name = None) (map fst provided))"

end
