(* ===== verification/Typed_References.thy ===== *)
theory Typed_References
  imports Substitution Run_Inputs
begin

text \<open>
  Typed values and the references that read them: a validated output has a value of the declared type at every path
  the declaration guarantees, a validated set of inputs binds every required one, and the coercion of a client's
  strings gives values the validation accepts.
\<close>

section \<open>Outputs\<close>

fun guaranteedFrom :: "OutputProfile \<Rightarrow> ustring list \<Rightarrow> OutputProfile option" where
  \<comment> \<open>the profile a path lands on when every field on the way is required\<close>
  "guaranteedFrom p [] = Some p"
| "guaranteedFrom (OP_record flds required) (seg # segs) =
     (if seg \<in> set required then case obj_get flds seg of None \<Rightarrow> None | Some p \<Rightarrow> guaranteedFrom p segs else None)"
| "guaranteedFrom p (seg # segs) = None"

definition guaranteedPath :: "OutputsDecl \<Rightarrow> ustring list \<Rightarrow> OutputProfile option" where
  "guaranteedPath decl path =
     (case path of [] \<Rightarrow> None | t # rest \<Rightarrow> (case obj_get decl t of None \<Rightarrow> None | Some p \<Rightarrow> guaranteedFrom p rest))"

lemma orOption_None: "(orOption a b = None) = (a = None \<and> b = None)"
  by (cases a) simp_all

lemma validateFields_entry:
  "validateFields flds req ob path = None \<Longrightarrow> (k, p) \<in> set flds \<Longrightarrow> obj_get ob k = Some v \<Longrightarrow> k \<in> set req
     \<Longrightarrow> validateValueAgainstProfile p v (path @ [46] @ k) = None"
  by (induction flds) (auto simp: orOption_None split: option.splits if_splits)

lemma validated_not_null: "validateValueAgainstProfile p v path = None \<Longrightarrow> v \<noteq> JNull"
  by (cases p) (auto simp: mustBe_def)

lemma validated_record:
  assumes "validateValueAgainstProfile (OP_record flds req) v path = None" and "seg \<in> set req" and "obj_get flds seg = Some p"
  shows "\<exists>ob w. v = JObj ob \<and> obj_get ob seg = Some w \<and> validateValueAgainstProfile p w (path @ [46] @ seg) = None"
proof -
  obtain ob where v: "v = JObj ob" using assms(1) by (cases v) simp_all
  have "firstMissing path req ob = None" and vf: "validateFields flds req ob path = None"
    using assms(1) v by (simp_all add: orOption_None)
  then have "filter (\<lambda>k. obj_get ob k = None) req = []" by (auto simp: firstMissing_def split: list.splits)
  then obtain w where w: "obj_get ob seg = Some w" using assms(2) by (fastforce simp: filter_empty_conv)
  then show ?thesis using v validateFields_entry [OF vf _ w assms(2)] assms(3) by (blast dest: map_of_SomeD)
qed

lemma guaranteed_value:
  "validateValueAgainstProfile p v path = None \<Longrightarrow> guaranteedFrom p segs = Some p'
     \<Longrightarrow> \<exists>w there. resolveSegments (RV_val v) segs = RV_val w \<and> validateValueAgainstProfile p' w there = None"
proof (induction p segs arbitrary: v path rule: guaranteedFrom.induct)
  case (2 flds req seg segs)
  then obtain p where p: "seg \<in> set req" "obj_get flds seg = Some p" "guaranteedFrom p segs = Some p'"
    by (auto split: if_splits option.splits)
  from validated_record [OF 2(2) p(1,2)] obtain ob w where
    "v = JObj ob" "obj_get ob seg = Some w" "validateValueAgainstProfile p w (path @ [46] @ seg) = None" by blast
  then show ?case using 2(1) [OF p(1,2) _ p(3)] by (simp add: getProp_def)
qed auto

lemma validateDeclared_entry:
  "validateDeclared decl ob = None \<Longrightarrow> (k, p) \<in> set decl \<Longrightarrow> \<exists>v. getProp ob k = RV_val v \<and> validateValueAgainstProfile p v k = None"
  by (induction decl ob rule: validateDeclared.induct) (auto simp: orOption_None split: Resolved.splits)

text \<open>C10: A reference whose path is guaranteed by its producer's declaration never fails: when the emitted struct passed the
  runtime validation, every path of required fields resolves to a value of the declared type.\<close>

theorem typed_reference_resolves:
  assumes valid: "validateOutputsValue decl (JObj ob) = None" and path: "guaranteedPath decl path = Some p"
    and emitted: "obj_get outputs producer = Some (JObj ob)"
  shows "\<exists>v there. classifyOutputRef outputs producer path = OC_value (Some (renderOutputValue v))
     \<and> validateValueAgainstProfile p v there = None"
proof -
  obtain t rest p0 where t: "path = t # rest" "obj_get decl t = Some p0" "guaranteedFrom p0 rest = Some p"
    using path by (auto simp: guaranteedPath_def split: list.splits option.splits)
  have "validateDeclared decl ob = None" using valid by (simp add: validateOutputsValue_def orOption_None)
  then obtain v where v: "getProp ob t = RV_val v" "validateValueAgainstProfile p0 v t = None"
    using validateDeclared_entry map_of_SomeD [OF t(2)] by blast
  obtain w there where w: "resolveSegments (RV_val v) rest = RV_val w" "validateValueAgainstProfile p w there = None"
    using guaranteed_value [OF v(2) t(3)] by blast
  have "w \<noteq> JNull" using validated_not_null [OF w(2)] .
  then have "classifyOutputRef outputs producer path = OC_value (Some (renderOutputValue w))"
    using emitted t(1) v(1) w(1) by (simp add: classifyOutputRef_def getProp_def split: option.splits if_splits)
  then show ?thesis using w(2) by blast
qed

theorem typed_reference_resolves_witness:
  "\<exists>v there. classifyOutputRef [(U ''scope'', JObj [(U ''ok'', JBool False)])] (U ''scope'') [U ''ok'']
      = OC_value (Some (renderOutputValue v)) \<and> validateValueAgainstProfile OP_boolean v there = None"
  by (rule typed_reference_resolves [of "[(U ''ok'', OP_boolean)]" "[(U ''ok'', JBool False)]"])
    (simp_all add: validateOutputsValue_def getProp_def inObject_def guaranteedPath_def)

text \<open>The validation accepts an undeclared field whose name is a member of the object prototype.\<close>

lemma undeclared_builtin_accepted:
  "validateOutputsValue [(U ''ok'', OP_boolean)] (JObj [(U ''ok'', JBool True), (U ''constructor'', JStr (U ''x''))]) = None"
  by (simp add: validateOutputsValue_def getProp_def inObject_def OBJECT_PROTOTYPE_def)

section \<open>Inputs\<close>

lemma foldl_set_lookup:
  "distinct (map key ds) \<Longrightarrow>
   obj_get (foldl (\<lambda>out d. case f d of None \<Rightarrow> out | Some v \<Rightarrow> obj_set (key d) v out) acc ds) k
     = (case List.find (\<lambda>d. key d = k) ds of None \<Rightarrow> obj_get acc k | Some d \<Rightarrow> orOption (f d) (obj_get acc k))"
proof (induction ds arbitrary: acc)
  case (Cons d ds)
  have "List.find (\<lambda>e. key e = key d) ds = None" using Cons.prems by (auto simp: find_None_iff) (metis image_eqI)
  then show ?case using Cons by (auto simp: obj_simps orOption_def split: option.splits)
qed simp

lemma find_decl: "distinct (map in_name decls) \<Longrightarrow> d \<in> set decls \<Longrightarrow> List.find (\<lambda>e. in_name e = in_name d) decls = Some d"
  by (induction decls) auto

lemma resolved_lookup:
  assumes "distinct (map in_name decls)" and "d \<in> set decls"
  shows "obj_get (resolveInputBindings decls provided) (in_name d)
     = (if isUndefined (obj_get provided (in_name d)) then map_option (bound d) (in_default d)
        else Some (bound d (the (obj_get provided (in_name d)))))"
proof -
  let ?f = "\<lambda>d. map_option (bound d) (in_default d)"
  let ?g = "\<lambda>d. if isUndefined (obj_get provided (in_name d)) then None else Some (bound d (the (obj_get provided (in_name d))))"
  have "resolveInputBindings decls provided
      = foldl (\<lambda>out d. case ?g d of None \<Rightarrow> out | Some v \<Rightarrow> obj_set (in_name d) v out)
          (foldl (\<lambda>out d. case ?f d of None \<Rightarrow> out | Some v \<Rightarrow> obj_set (in_name d) v out) [] decls) decls"
    unfolding resolveInputBindings_def Let_def
    by (intro foldl_cong) (auto split: option.splits)
  then show ?thesis using foldl_set_lookup [OF assms(1), of ?g] foldl_set_lookup [OF assms(1), of ?f] find_decl [OF assms]
    by (cases "in_default d") (simp_all add: orOption_def)
qed

text \<open>C33: A run whose bindings validate has every required input: it is bound to the provided value, or to the
  declared default when none (or \<open>null\<close>) was provided, and a scalar is bound to a text.\<close>

theorem required_inputs_are_bound:
  assumes "validateInputBindings decls provided = []" and "distinct (map in_name decls)"
    and "d \<in> set decls" and "in_required d"
  shows "\<exists>v. obj_get (resolveInputBindings decls provided) (in_name d) = Some (bound d v)
     \<and> (if isUndefined (obj_get provided (in_name d)) then in_default d = Some v else obj_get provided (in_name d) = Some v)
     \<and> (\<not> isStructuredInput d \<longrightarrow> bound d v = JStr (String_value v))"
proof -
  have "validateDecl provided d = []" using assms(1,3) by (auto simp: validateInputBindings_def)
  then have "isUndefined (obj_get provided (in_name d)) \<Longrightarrow> in_default d \<noteq> None"
    using assms(4) by (auto simp: validateDecl_def Let_def split: if_splits)
  then show ?thesis using resolved_lookup [OF assms(2,3), of provided]
    by (auto simp: bound_def isUndefined_def)
qed

definition issueDecl :: InputDecl where
  "issueDecl = \<lparr>in_name = U ''issue'', in_type = TY_string, in_required = True, in_description = None, in_default = None,
     in_options = None, in_profile = None\<rparr>"

theorem required_inputs_are_bound_witness:
  "obj_get (resolveInputBindings [issueDecl] [(U ''issue'', JStr (U ''42''))]) (U ''issue'') = Some (JStr (U ''42''))"
proof -
  have "validateInputBindings [issueDecl] [(U ''issue'', JStr (U ''42''))] = []"
    by (simp add: validateInputBindings_def validateDecl_def issueDecl_def isUndefined_def shapeMismatch_def isStructuredInput_def declByName_def)
  from required_inputs_are_bound [OF this, of issueDecl] show ?thesis
    by (simp add: issueDecl_def isUndefined_def bound_def isStructuredInput_def)
qed

subsection \<open>Coercion\<close>

definition storedValue :: "(ustring \<Rightarrow> ustring + jsval) \<Rightarrow> (ustring \<times> InputDecl) list \<Rightarrow> ustring \<Rightarrow> jsval \<Rightarrow> jsval \<times> InputBindingError list" where
  \<comment> \<open>what the coercion stores for one binding, and the errors it adds\<close>
  "storedValue jsonParse byName name v =
     (case obj_get byName name of
        None \<Rightarrow> (v, [])
      | Some decl \<Rightarrow> (case v of JStr s \<Rightarrow> coerceString jsonParse decl name s | _ \<Rightarrow> (v, [])))"

lemma coerceEntry_stored:
  "coerceEntry jsonParse byName (vs, errs) (name, v)
     = (if name = U ''__proto__'' then (vs, errs)
        else (obj_set name (fst (storedValue jsonParse byName name v)) vs, errs @ snd (storedValue jsonParse byName name v)))"
  by (simp add: coerceEntry_def storedValue_def split_beta split: option.split jsval.split)

lemma coerce_fold:
  "foldl (coerceEntry jsonParse byName) (vs, errs) ps
     = (foldl (\<lambda>out p. case (if fst p = U ''__proto__'' then None else Some (fst (storedValue jsonParse byName (fst p) (snd p)))) of
           None \<Rightarrow> out | Some v \<Rightarrow> obj_set (fst p) v out) vs ps,
        errs @ concat (map (\<lambda>(k, v). if k = U ''__proto__'' then [] else snd (storedValue jsonParse byName k v)) ps))"
  by (induction ps arbitrary: vs errs) (auto simp: coerceEntry_stored)

lemma find_entry: "distinct (map fst ps) \<Longrightarrow> (k, v) \<in> set ps \<Longrightarrow> List.find (\<lambda>p. fst p = k) ps = Some (k, v)"
  by (induction ps) (auto simp: image_iff)

lemma coerced_lookup:
  assumes "distinct (map fst provided)" and "obj_get provided k = Some v" and "k \<noteq> U ''__proto__''"
  shows "obj_get (fst (coerceInputBindings jsonParse decls provided)) k = Some (fst (storedValue jsonParse (declByName decls) k v))"
    and "set (snd (storedValue jsonParse (declByName decls) k v)) \<subseteq> set (snd (coerceInputBindings jsonParse decls provided))"
proof -
  have e: "(k, v) \<in> set provided" by (rule map_of_SomeD [OF assms(2)])
  show "obj_get (fst (coerceInputBindings jsonParse decls provided)) k = Some (fst (storedValue jsonParse (declByName decls) k v))"
    using assms(3) by (simp add: coerceInputBindings_def coerce_fold foldl_set_lookup [OF assms(1)] find_entry [OF assms(1) e])
  show "set (snd (storedValue jsonParse (declByName decls) k v)) \<subseteq> set (snd (coerceInputBindings jsonParse decls provided))"
    using e assms(3) by (force simp: coerceInputBindings_def coerce_fold)
qed

lemma declByName_lookup:
  assumes "distinct (map in_name decls)" and "d \<in> set decls"
  shows "obj_get (declByName decls) (in_name d) = Some d"
  using foldl_set_lookup [OF assms(1), of Some "[]"] find_decl [OF assms] by (simp add: declByName_def)

text \<open>C34: Coerced strings are well typed: when the coercion of a run's bindings reports no error, the value it stores for a
  string, number or boolean input that was sent as a string passes the validation.\<close>

theorem coerced_strings_validate:
  assumes ok: "coerceInputBindings jsonParse decls provided = (stored, [])" and names: "distinct (map in_name decls)"
    and d: "d \<in> set decls" "in_type d = TY_string \<or> in_type d = TY_number \<or> in_type d = TY_boolean" "in_name d \<noteq> U ''__proto__''"
    and sent: "distinct (map fst provided)" "obj_get provided (in_name d) = Some (JStr s)"
  shows "validateDecl stored d = []"
proof -
  note lk = coerced_lookup [OF sent d(3), of jsonParse decls]
  have st: "storedValue jsonParse (declByName decls) (in_name d) (JStr s) = coerceString jsonParse d (in_name d) s"
    by (simp add: storedValue_def declByName_lookup [OF names d(1)])
  have none: "snd (coerceString jsonParse d (in_name d) s) = []" and
    v: "obj_get stored (in_name d) = Some (fst (coerceString jsonParse d (in_name d) s))"
    using lk ok by (simp_all add: st)
  have "\<not> isStructuredInput d" using d(2) by (auto simp: isStructuredInput_def)
  then show ?thesis using d(2) none v
    by (auto simp: validateDecl_def coerceString_def isUndefined_def shapeMismatch_def isFinite_def Let_def
        split: sum.splits if_splits)
qed

definition limitDecl :: InputDecl where
  "limitDecl = issueDecl\<lparr>in_name := U ''limit'', in_type := TY_number\<rparr>"

theorem coerced_strings_validate_witness:
  "validateDecl [(U ''limit'', JFin 7)] limitDecl = []"
proof -
  have num: "coerceNumberInput (U ''limit'') [55] = Inr 7"
    by (simp add: coerceNumberInput_def utrim_def isSpace_def parseDecimal_def splitSign_def isDigit_def parseExponent_def digitsValue_def
        powerOfTen_def overflows_def)
  have "coerceInputBindings (\<lambda>_. Inr JNull) [limitDecl] [(U ''limit'', JStr [55])] = ([(U ''limit'', JFin 7)], [])"
    by (simp add: coerceInputBindings_def coerceEntry_def declByName_def coerceString_def limitDecl_def issueDecl_def isStructuredInput_def num)
  from coerced_strings_validate [OF this, of limitDecl "[55]"] show ?thesis
    by (simp add: limitDecl_def issueDecl_def)
qed

end
