(* ===== verification/Run_Dominance.thy ===== *)
theory Run_Dominance
  imports Graph_Model
begin

text \<open>
  The run-dominance oracle of the validator, \<open>buildRunDominance\<close> in \<open>packages/core/src/engine/validator.ts\<close>:
  the depth-first numbering of the nodes reachable from the start, the immediate dominators by the
  iteration of Cooper, Harvey and Kennedy, and the intervals of a walk over the dominator tree. A \<open>Map\<close> is the
  list of its entries in insertion order; a stack has its top at the head. A loop whose end the
  code does not show is a partial function, with \<open>None\<close> for a loop that does not end, and \<open>Map.get\<close> of a missing key is
  \<open>undefined\<close>, that is \<open>None\<close> again, on which a comparison of numbers is false.
\<close>

section \<open>Successors and the start\<close>

definition succMap :: "Graph \<Rightarrow> (ustring \<times> ustring list) list" where
  "succMap graph =
     foldl (\<lambda>succ e. obj_set (ed_from e) (orElse (obj_get succ (ed_from e)) [] @ [ed_to e]) succ)
       (map (\<lambda>p. (fst p, [])) (gr_nodes graph)) (gr_edges graph)"

definition neighbors :: "(ustring \<times> ustring list) list \<Rightarrow> ustring \<Rightarrow> ustring list" where
  "neighbors succ n = orElse (obj_get succ n) []"

definition dominanceStart :: "Graph \<Rightarrow> ustring option" where
  "dominanceStart graph =
     (case find (\<lambda>p. nd_type (snd p) = NT_start) (gr_nodes graph) of
        Some p \<Rightarrow> Some (fst p)
      | None \<Rightarrow> (case gr_nodes graph of [] \<Rightarrow> None | p # _ \<Rightarrow> Some (fst p)))"

section \<open>Postorder\<close>

record Dfs =
  df_visited :: "ustring list"
  df_stack :: "(ustring \<times> nat) list"
  df_postNum :: "(ustring \<times> nat) list"
  df_rpo :: "ustring list" \<comment> \<open>in the order of the pushes\<close>

definition dfsStep :: "(ustring \<times> ustring list) list \<Rightarrow> Dfs \<Rightarrow> Dfs" where
  \<comment> \<open>the body of the loop\<close>
  "dfsStep succ s =
     (case df_stack s of
        [] \<Rightarrow> s
      | (node, i) # rest \<Rightarrow>
          if i < length (neighbors succ node) then
            let next' = neighbors succ node ! i in
            if next' \<notin> set (df_visited s)
            then s\<lparr>df_visited := df_visited s @ [next'], df_stack := (next', 0) # (node, i + 1) # rest\<rparr>
            else s\<lparr>df_stack := (node, i + 1) # rest\<rparr>
          else s\<lparr>df_postNum := obj_set node (length (df_postNum s)) (df_postNum s), df_rpo := df_rpo s @ [node], df_stack := rest\<rparr>)"

definition unvisited :: "(ustring \<times> ustring list) list \<Rightarrow> Dfs \<Rightarrow> nat" where
  "unvisited succ s = card (set (concat (map snd succ)) - set (df_visited s))"

definition stackWork :: "(ustring \<times> ustring list) list \<Rightarrow> Dfs \<Rightarrow> nat" where
  "stackWork succ s = (\<Sum>(n, i)\<leftarrow>df_stack s. Suc (length (neighbors succ n) - i))"

lemma neighbors_target: "x \<in> set (neighbors succ n) \<Longrightarrow> x \<in> set (concat (map snd succ))"
  by (cases "obj_get succ n") (use map_of_SomeD in \<open>force simp: neighbors_def\<close>)+

lemma dfsStep_measure:
  assumes "df_stack s \<noteq> []"
  shows "(dfsStep succ s, s) \<in> measures [unvisited succ, stackWork succ]"
proof -
  obtain n i rest where st: "df_stack s = (n, i) # rest" using assms by (cases "df_stack s") auto
  show ?thesis
  proof (cases "i < length (neighbors succ n) \<and> neighbors succ n ! i \<notin> set (df_visited s)")
    case True
    let ?x = "neighbors succ n ! i" and ?U = "set (concat (map snd succ)) - set (df_visited s)"
    have "?x \<in> ?U" using True neighbors_target [of ?x succ n] nth_mem by simp
    moreover have "set (concat (map snd succ)) - set (df_visited s @ [?x]) = ?U - {?x}" by auto
    moreover have "card (?U - {?x}) < card ?U" if "?x \<in> ?U" by (rule card_Diff1_less) (use that in auto)
    ultimately have "unvisited succ (dfsStep succ s) < unvisited succ s"
      using True st unfolding unvisited_def by (simp add: dfsStep_def Let_def del: set_concat)
    then show ?thesis by simp
  next
    case False
    then show ?thesis using st by (auto simp: unvisited_def stackWork_def dfsStep_def Let_def)
  qed
qed

function dfsLoop :: "(ustring \<times> ustring list) list \<Rightarrow> Dfs \<Rightarrow> Dfs" where
  "dfsLoop succ s = (if df_stack s \<noteq> [] then dfsLoop succ (dfsStep succ s) else s)"
  by pat_completeness auto
termination
  by (relation "inv_image (measures [\<lambda>(succ, s). unvisited succ s, \<lambda>(succ, s). stackWork succ s]) (\<lambda>x. x)")
    (use dfsStep_measure in \<open>auto simp: measures_def\<close>)

declare dfsLoop.simps [simp del]

definition dfsFrom :: "(ustring \<times> ustring list) list \<Rightarrow> ustring \<Rightarrow> Dfs" where
  "dfsFrom succ start =
     dfsLoop succ \<lparr>df_visited = [start], df_stack = [(start, 0)], df_postNum = [], df_rpo = []\<rparr>"

definition predMap :: "(ustring \<times> ustring list) list \<Rightarrow> ustring list \<Rightarrow> (ustring \<times> ustring list) list" where
  "predMap succ visited =
     foldl (\<lambda>m (u, vs).
        if u \<notin> set visited then m
        else foldl (\<lambda>m v. if v \<in> set visited then obj_set v (orElse (obj_get m v) [] @ [u]) m else m) m vs)
       (map (\<lambda>n. (n, [])) visited) succ"

section \<open>Immediate dominators\<close>

definition numLess :: "nat option \<Rightarrow> nat option \<Rightarrow> bool" where
  "numLess a b = (case a of Some x \<Rightarrow> (case b of Some y \<Rightarrow> x < y | None \<Rightarrow> False) | None \<Rightarrow> False)"

partial_function (option) climb ::
  "(ustring \<times> nat) list \<Rightarrow> (ustring \<times> ustring) list \<Rightarrow> ustring option \<Rightarrow> ustring option \<Rightarrow> ustring option option" where
  \<comment> \<open>\<open>while (postNum.get(f1)! < postNum.get(f2)!) f1 = idom.get(f1)!\<close>\<close>
  "climb postNum idom f1 f2 =
     (if numLess (Option.bind f1 (obj_get postNum)) (Option.bind f2 (obj_get postNum))
      then climb postNum idom (Option.bind f1 (obj_get idom)) f2 else Some f1)"

partial_function (option) intersect ::
  "(ustring \<times> nat) list \<Rightarrow> (ustring \<times> ustring) list \<Rightarrow> ustring option \<Rightarrow> ustring option \<Rightarrow> ustring option option" where
  "intersect postNum idom f1 f2 =
     (if f1 \<noteq> f2 then
        Option.bind (climb postNum idom f1 f2) (\<lambda>g1.
        Option.bind (climb postNum idom f2 g1) (\<lambda>g2. intersect postNum idom g1 g2))
      else Some f1)"

fun newIdom ::
  "(ustring \<times> nat) list \<Rightarrow> (ustring \<times> ustring) list \<Rightarrow> ustring list \<Rightarrow> ustring option \<Rightarrow> ustring option option" where
  \<comment> \<open>the loop over the predecessors\<close>
  "newIdom postNum idom [] acc = Some acc"
| "newIdom postNum idom (p # ps) acc =
     (if obj_get idom p = None then newIdom postNum idom ps acc
      else case acc of
        None \<Rightarrow> newIdom postNum idom ps (Some p)
      | Some a \<Rightarrow> Option.bind (intersect postNum idom (Some p) (Some a)) (\<lambda>r. newIdom postNum idom ps r))"

fun idomPass ::
  "(ustring \<times> nat) list \<Rightarrow> (ustring \<times> ustring list) list \<Rightarrow> ustring \<Rightarrow> ustring list \<Rightarrow> (ustring \<times> ustring) list \<Rightarrow> bool
     \<Rightarrow> ((ustring \<times> ustring) list \<times> bool) option" where
  \<comment> \<open>one pass over the nodes in reverse postorder: \<open>(idom, changed)\<close>\<close>
  "idomPass postNum preds start [] idom changed = Some (idom, changed)"
| "idomPass postNum preds start (b # bs) idom changed =
     (if b = start then idomPass postNum preds start bs idom changed
      else Option.bind (newIdom postNum idom (orElse (obj_get preds b) []) None) (\<lambda>d.
        if d \<noteq> None \<and> obj_get idom b \<noteq> d
        then idomPass postNum preds start bs (obj_set b (the d) idom) True
        else idomPass postNum preds start bs idom changed))"

partial_function (option) idomFixpoint ::
  "(ustring \<times> nat) list \<Rightarrow> (ustring \<times> ustring list) list \<Rightarrow> ustring \<Rightarrow> ustring list \<Rightarrow> (ustring \<times> ustring) list
     \<Rightarrow> (ustring \<times> ustring) list option" where
  "idomFixpoint postNum preds start rpo idom =
     Option.bind (idomPass postNum preds start rpo idom False) (\<lambda>r.
       if snd r then idomFixpoint postNum preds start rpo (fst r) else Some (fst r))"

section \<open>Intervals of the dominator tree\<close>

definition childMap :: "ustring list \<Rightarrow> (ustring \<times> ustring) list \<Rightarrow> (ustring \<times> ustring list) list" where
  "childMap visited idom =
     foldl (\<lambda>children (n, d). if n \<noteq> d then obj_set d (orElse (obj_get children d) [] @ [n]) children else children)
       (map (\<lambda>n. (n, [])) visited) idom"

record Intervals =
  iv_clock :: nat
  iv_enter :: "(ustring \<times> nat) list"
  iv_exit :: "(ustring \<times> nat) list"

partial_function (option) treeWalk ::
  "(ustring \<times> ustring list) list \<Rightarrow> (ustring \<times> nat) list \<Rightarrow> Intervals \<Rightarrow> Intervals option" where
  "treeWalk children stack s =
     (case stack of
        [] \<Rightarrow> Some s
      | (node, i) # rest \<Rightarrow>
          if i < length (neighbors children node) then
            let c = neighbors children node ! i in
            treeWalk children ((c, 0) # (node, i + 1) # rest)
              (s\<lparr>iv_enter := obj_set c (iv_clock s) (iv_enter s), iv_clock := iv_clock s + 1\<rparr>)
          else
            treeWalk children rest (s\<lparr>iv_exit := obj_set node (iv_clock s) (iv_exit s), iv_clock := iv_clock s + 1\<rparr>))"

definition dominates :: "Intervals \<Rightarrow> ustring \<Rightarrow> ustring \<Rightarrow> bool" where
  "dominates s producer consumer =
     (if producer = consumer then False
      else case (obj_get (iv_enter s) producer, obj_get (iv_exit s) producer, obj_get (iv_enter s) consumer, obj_get (iv_exit s) consumer) of
        (Some ea, Some xa, Some en, Some xn) \<Rightarrow> ea \<le> en \<and> xn \<le> xa
      | _ \<Rightarrow> False)"

definition buildRunDominance :: "Graph \<Rightarrow> (ustring \<Rightarrow> ustring \<Rightarrow> bool) option" where
  \<comment> \<open>the oracle, or \<open>None\<close> when a loop does not end\<close>
  "buildRunDominance graph =
     (case dominanceStart graph of
        None \<Rightarrow> Some (\<lambda>producer consumer. False)
      | Some start \<Rightarrow>
          (let succ = succMap graph; d = dfsFrom succ start; preds = predMap succ (df_visited d) in
           Option.bind (idomFixpoint (df_postNum d) preds start (rev (df_rpo d)) [(start, start)]) (\<lambda>idom.
             map_option dominates
               (treeWalk (childMap (df_visited d) idom) [(start, 0)] \<lparr>iv_clock = 1, iv_enter = [(start, 0)], iv_exit = []\<rparr>))))"

end
