(* ===== verification/Dominance_Dfs.thy ===== *)
theory Dominance_Dfs
  imports Run_Dominance
begin

text \<open>
  The depth-first search behind the dominators: what its loop keeps of the visited nodes, the stack and the numbering,
  with the tree of discoveries as a ghost, and what follows at its end. The result is stated as an instance of the
  interface \<open>dfs_numbering\<close>, the only thing the proof of the dominators knows of the search.
\<close>

section \<open>Interface: a postorder numbering of the nodes reachable from a start\<close>

definition treeOf :: "'a set \<Rightarrow> 'a \<Rightarrow> ('a \<Rightarrow> 'a) \<Rightarrow> ('a \<times> 'a) set" where
  "treeOf V s par = {(par y, y) | y. y \<in> V \<and> y \<noteq> s}"

locale dfs_numbering =
  fixes E :: "('a \<times> 'a) set" and s :: 'a and V :: "'a set" and post :: "'a \<Rightarrow> nat" and par :: "'a \<Rightarrow> 'a"
  assumes start: "s \<in> V" and finite_nodes: "finite V"
    and closed: "x \<in> V \<Longrightarrow> (x, b) \<in> E \<Longrightarrow> b \<in> V"
    and reached: "x \<in> V \<Longrightarrow> (s, x) \<in> E\<^sup>*"
    and parent: "b \<in> V \<Longrightarrow> b \<noteq> s \<Longrightarrow> par b \<in> V \<and> (par b, b) \<in> E \<and> post b < post (par b)"
    and numbers: "inj_on post V"
    and edges: "x \<in> V \<Longrightarrow> (x, b) \<in> E \<Longrightarrow> post b < post x \<or> (b, x) \<in> (treeOf V s par)\<^sup>*"

section \<open>What the loop keeps\<close>

definition edgesOf :: "(ustring \<times> ustring list) list \<Rightarrow> (ustring \<times> ustring) set" where
  "edgesOf succ = {(u, v). v \<in> set (neighbors succ u)}"

abbreviation stackNodes :: "Dfs \<Rightarrow> ustring list" where "stackNodes s \<equiv> map fst (df_stack s)"

definition stackPath :: "ustring \<Rightarrow> (ustring \<Rightarrow> ustring) \<Rightarrow> ustring list \<Rightarrow> bool" where
  "stackPath start par stk =
     ((stk \<noteq> [] \<longrightarrow> last stk = start) \<and> (\<forall>k. Suc k < length stk \<longrightarrow> par (stk ! k) = stk ! Suc k))"

definition nodesInv :: "(ustring \<times> ustring list) list \<Rightarrow> ustring \<Rightarrow> (ustring \<Rightarrow> ustring) \<Rightarrow> Dfs \<Rightarrow> bool" where
  "nodesInv succ start par s =
     (distinct (stackNodes s) \<and> distinct (df_rpo s) \<and> set (df_visited s) = set (stackNodes s) \<union> set (df_rpo s)
      \<and> set (stackNodes s) \<inter> set (df_rpo s) = {} \<and> start \<in> set (df_visited s)
      \<and> (\<forall>x \<in> set (df_visited s). (start, x) \<in> (edgesOf succ)\<^sup>*)
      \<and> (\<forall>x \<in> set (df_visited s) - {start}. (par x, x) \<in> edgesOf succ \<and> par x \<in> set (df_visited s) \<and> par x \<noteq> x)
      \<and> stackPath start par (stackNodes s))"

definition numberInv :: "ustring \<Rightarrow> (ustring \<Rightarrow> ustring) \<Rightarrow> Dfs \<Rightarrow> bool" where
  "numberInv start par s =
     (df_postNum s = zip (df_rpo s) [0..<length (df_rpo s)]
      \<and> (\<forall>i < length (df_rpo s). df_rpo s ! i \<noteq> start \<longrightarrow> par (df_rpo s ! i) \<notin> set (take i (df_rpo s))))"

definition edgeInv :: "(ustring \<times> ustring list) list \<Rightarrow> ustring \<Rightarrow> (ustring \<Rightarrow> ustring) \<Rightarrow> Dfs \<Rightarrow> bool" where
  "edgeInv succ start par s =
     ((\<forall>i < length (df_rpo s). \<forall>b. (df_rpo s ! i, b) \<in> edgesOf succ \<longrightarrow>
         b \<in> set (take i (df_rpo s)) \<or> (b, df_rpo s ! i) \<in> (treeOf (set (df_visited s)) start par)\<^sup>*)
      \<and> (\<forall>(x, i) \<in> set (df_stack s). \<forall>j < i. j < length (neighbors succ x) \<longrightarrow> neighbors succ x ! j \<in> set (df_visited s)))"

definition dfsInv :: "(ustring \<times> ustring list) list \<Rightarrow> ustring \<Rightarrow> (ustring \<Rightarrow> ustring) \<Rightarrow> Dfs \<Rightarrow> bool" where
  "dfsInv succ start par s = (nodesInv succ start par s \<and> numberInv start par s \<and> edgeInv succ start par s)"

lemma treeOf_mono: "V \<subseteq> W \<Longrightarrow> (\<And>y. y \<in> V \<Longrightarrow> par' y = par y) \<Longrightarrow> treeOf V s par \<subseteq> treeOf W s par'"
  by (force simp: treeOf_def)

lemma stackPath_Cons:
  "stackPath start par (x # y # zs) = (par x = y \<and> stackPath start par (y # zs))"
  unfolding stackPath_def by (auto simp: nth_Cons less_Suc_eq_0_disj split: nat.splits)

lemma stackPath_tl: "stackPath start par (x # zs) \<Longrightarrow> stackPath start par zs"
  by (cases zs) (simp_all add: stackPath_Cons, simp add: stackPath_def)

lemma stackPath_cong: "(\<And>x. x \<in> set stk \<Longrightarrow> par' x = par x) \<Longrightarrow> stackPath start par stk \<Longrightarrow> stackPath start par' stk"
  by (simp add: stackPath_def)

lemma stack_ancestors:
  assumes "stackPath start par (x # stk)" and "distinct (x # stk)" and "b \<in> set (x # stk)" and "set (x # stk) \<subseteq> V"
  shows "(b, x) \<in> (treeOf V start par)\<^sup>*"
  using assms
proof (induction stk arbitrary: x)
  case (Cons y zs)
  show ?case
  proof (cases "b = x")
    case False
    have "last (y # zs) = start" using Cons.prems(1) by (simp add: stackPath_def)
    then have "x \<noteq> start" using Cons.prems(2) last_in_set [of "y # zs"] by auto
    moreover have "par x = y" "stackPath start par (y # zs)" using Cons.prems(1) by (simp_all add: stackPath_Cons)
    ultimately have "(y, x) \<in> treeOf V start par" "(b, y) \<in> (treeOf V start par)\<^sup>*"
      using Cons.IH [of y] Cons.prems False by (auto simp: treeOf_def)
    then show ?thesis by (rule rtrancl_into_rtrancl [rotated])
  qed simp
qed auto

lemma neighbors_edge: "i < length (neighbors succ n) \<Longrightarrow> (n, neighbors succ n ! i) \<in> edgesOf succ"
  by (simp add: edgesOf_def)

lemma nodesInvD:
  assumes "nodesInv succ start par s"
  shows "distinct (stackNodes s)" "distinct (df_rpo s)" "set (df_visited s) = set (stackNodes s) \<union> set (df_rpo s)"
    "set (stackNodes s) \<inter> set (df_rpo s) = {}" "start \<in> set (df_visited s)"
    "\<forall>x \<in> set (df_visited s). (start, x) \<in> (edgesOf succ)\<^sup>*"
    "\<forall>x \<in> set (df_visited s) - {start}. (par x, x) \<in> edgesOf succ \<and> par x \<in> set (df_visited s) \<and> par x \<noteq> x"
    "stackPath start par (stackNodes s)"
  using assms unfolding nodesInv_def by blast+

lemma discover_inv:
  assumes inv: "dfsInv succ start par s" and st: "df_stack s = (n, i) # rest" and i: "i < length (neighbors succ n)"
    and new: "neighbors succ n ! i \<notin> set (df_visited s)"
  shows "dfsInv succ start (par(neighbors succ n ! i := n)) (dfsStep succ s)"
proof -
  define x where "x = neighbors succ n ! i"
  let ?par = "par(x := n)"
  have s': "dfsStep succ s = s\<lparr>df_visited := df_visited s @ [x], df_stack := (x, 0) # (n, i + 1) # rest\<rparr>"
    using st i new by (simp add: dfsStep_def Let_def x_def)
  have nodes: "nodesInv succ start par s" and num: "numberInv start par s" and edge: "edgeInv succ start par s"
    using inv by (simp_all add: dfsInv_def)
  note nd = nodesInvD [OF nodes]
  have new': "x \<notin> set (df_visited s)" and e: "(n, x) \<in> edgesOf succ" using new neighbors_edge [OF i] by (simp_all add: x_def)
  have n: "n \<in> set (df_visited s)" using nd(3) st by simp
  have same: "?par y = par y" if "y \<in> set (df_visited s)" for y using that new' by auto
  have "stackPath start ?par (stackNodes s)"
    by (rule stackPath_cong [OF _ nd(8)]) (rule same, use nd(3) in simp)
  then have path: "stackPath start ?par (x # stackNodes s)" using st by (simp add: stackPath_Cons)
  have reach: "(start, x) \<in> (edgesOf succ)\<^sup>*" using nd(6) n e by (blast intro: rtrancl_into_rtrancl)
  have "nodesInv succ start ?par (dfsStep succ s)"
    unfolding nodesInv_def
  proof (intro conjI)
    show "distinct (stackNodes (dfsStep succ s))" using nd(1,3) st new' by (simp add: s')
    show "set (df_visited (dfsStep succ s)) = set (stackNodes (dfsStep succ s)) \<union> set (df_rpo (dfsStep succ s))"
      using nd(3) st by (simp add: s')
    show "set (stackNodes (dfsStep succ s)) \<inter> set (df_rpo (dfsStep succ s)) = {}" using nd(3,4) st new' by (simp add: s')
    show "\<forall>x \<in> set (df_visited (dfsStep succ s)). (start, x) \<in> (edgesOf succ)\<^sup>*" using nd(6) reach by (simp add: s')
    show "\<forall>y \<in> set (df_visited (dfsStep succ s)) - {start}.
        (?par y, y) \<in> edgesOf succ \<and> ?par y \<in> set (df_visited (dfsStep succ s)) \<and> ?par y \<noteq> y"
      using nd(7) n e new' by (auto simp: s')
    show "stackPath start ?par (stackNodes (dfsStep succ s))" using path st by (simp add: s')
  qed (use nd(2,5) in \<open>simp_all add: s'\<close>)
  moreover have "numberInv start ?par (dfsStep succ s)"
    unfolding numberInv_def
  proof (intro conjI allI impI)
    fix k assume k: "k < length (df_rpo (dfsStep succ s))" "df_rpo (dfsStep succ s) ! k \<noteq> start"
    then have "df_rpo s ! k \<in> set (df_visited s)" using nd(3) by (simp add: s')
    from same [OF this] show "?par (df_rpo (dfsStep succ s) ! k) \<notin> set (take k (df_rpo (dfsStep succ s)))"
      using num k by (simp add: numberInv_def s')
  qed (use num in \<open>simp add: numberInv_def s'\<close>)
  moreover have "edgeInv succ start ?par (dfsStep succ s)"
  proof -
    have sub: "treeOf (set (df_visited s)) start par \<subseteq> treeOf (set (df_visited (dfsStep succ s))) start ?par"
      by (rule treeOf_mono) (use same in \<open>simp_all add: s' subset_iff\<close>)
    have fin: "\<forall>k < length (df_rpo s). \<forall>b. (df_rpo s ! k, b) \<in> edgesOf succ \<longrightarrow>
         b \<in> set (take k (df_rpo s)) \<or> (b, df_rpo s ! k) \<in> (treeOf (set (df_visited (dfsStep succ s))) start ?par)\<^sup>*"
      using edge rtrancl_mono [OF sub] unfolding edgeInv_def by blast
    have "\<forall>(y, k) \<in> set (df_stack (dfsStep succ s)). \<forall>j < k. j < length (neighbors succ y)
        \<longrightarrow> neighbors succ y ! j \<in> set (df_visited (dfsStep succ s))"
      using edge st by (auto simp: edgeInv_def s' less_Suc_eq x_def)
    then show ?thesis using fin by (simp add: edgeInv_def s')
  qed
  ultimately show ?thesis by (simp add: dfsInv_def x_def)
qed

lemma skip_inv:
  assumes inv: "dfsInv succ start par s" and st: "df_stack s = (n, i) # rest" and i: "i < length (neighbors succ n)"
    and old: "neighbors succ n ! i \<in> set (df_visited s)"
  shows "dfsInv succ start par (dfsStep succ s)"
proof -
  have s': "dfsStep succ s = s\<lparr>df_stack := (n, i + 1) # rest\<rparr>" using st i old by (simp add: dfsStep_def Let_def)
  have nodes: "stackNodes (dfsStep succ s) = stackNodes s" by (simp add: s' st)
  have same: "df_visited (dfsStep succ s) = df_visited s" "df_rpo (dfsStep succ s) = df_rpo s" by (simp_all add: s')
  have "nodesInv succ start par (dfsStep succ s)" using inv unfolding dfsInv_def nodesInv_def nodes same by blast
  moreover have "numberInv start par (dfsStep succ s)" using inv by (simp add: dfsInv_def numberInv_def s')
  moreover have "\<forall>(y, k) \<in> set (df_stack (dfsStep succ s)). \<forall>j < k. j < length (neighbors succ y)
        \<longrightarrow> neighbors succ y ! j \<in> set (df_visited s)"
    using inv st old by (auto simp: dfsInv_def edgeInv_def s' less_Suc_eq)
  then have "edgeInv succ start par (dfsStep succ s)" using inv by (simp add: dfsInv_def edgeInv_def s')
  ultimately show ?thesis by (simp add: dfsInv_def)
qed

lemma obj_set_fresh: "n \<notin> fst ` set xs \<Longrightarrow> obj_set n v xs = xs @ [(n, v)]"
  by (induction xs) auto

lemma finish_inv:
  assumes inv: "dfsInv succ start par s" and st: "df_stack s = (n, i) # rest" and i: "\<not> i < length (neighbors succ n)"
  shows "dfsInv succ start par (dfsStep succ s)"
proof -
  have nodes: "nodesInv succ start par s" and num: "numberInv start par s" and edge: "edgeInv succ start par s"
    using inv by (simp_all add: dfsInv_def)
  note nd = nodesInvD [OF nodes]
  have n: "n \<notin> set (df_rpo s)" using nd(4) st by auto
  then have "n \<notin> fst ` set (df_postNum s)" using num by (auto simp: numberInv_def dest: set_zip_leftD)
  then have s': "dfsStep succ s = s\<lparr>df_postNum := df_postNum s @ [(n, length (df_postNum s))], df_rpo := df_rpo s @ [n], df_stack := rest\<rparr>"
    using st i by (simp add: dfsStep_def obj_set_fresh)
  have "nodesInv succ start par (dfsStep succ s)"
    unfolding nodesInv_def
  proof (intro conjI)
    show "distinct (stackNodes (dfsStep succ s))" "distinct (df_rpo (dfsStep succ s))"
      using nd(1,2) st n by (simp_all add: s')
    show "set (df_visited (dfsStep succ s)) = set (stackNodes (dfsStep succ s)) \<union> set (df_rpo (dfsStep succ s))"
      using nd(3) st by (auto simp: s')
    show "set (stackNodes (dfsStep succ s)) \<inter> set (df_rpo (dfsStep succ s)) = {}" using nd(1,4) st by (auto simp: s')
    show "stackPath start par (stackNodes (dfsStep succ s))" using stackPath_tl nd(8) st by (simp add: s')
  qed (use nd(5,6,7) in \<open>simp_all add: s'\<close>)
  moreover have "numberInv start par (dfsStep succ s)"
    unfolding numberInv_def
  proof (intro conjI allI impI)
    show "df_postNum (dfsStep succ s) = zip (df_rpo (dfsStep succ s)) [0..<length (df_rpo (dfsStep succ s))]"
      using num by (simp add: numberInv_def s')
    fix k assume k: "k < length (df_rpo (dfsStep succ s))" "df_rpo (dfsStep succ s) ! k \<noteq> start"
    show "par (df_rpo (dfsStep succ s) ! k) \<notin> set (take k (df_rpo (dfsStep succ s)))"
    proof (cases "k < length (df_rpo s)")
      case True
      then show ?thesis using num k by (simp add: numberInv_def s' nth_append)
    next
      case False
      then have kn: "k = length (df_rpo s)" "n \<noteq> start" using k by (simp_all add: s' nth_append)
      then obtain m j zs where rest: "rest = (m, j) # zs" using nd(8) st by (cases rest) (auto simp: stackPath_def)
      then have "par n = m" "m \<notin> set (df_rpo s)" using nd(8,4) st by (auto simp: stackPath_Cons)
      then show ?thesis by (simp add: s' kn(1))
    qed
  qed
  moreover have "edgeInv succ start par (dfsStep succ s)"
  proof -
    have anc: "(b, n) \<in> (treeOf (set (df_visited s)) start par)\<^sup>*" if "b \<in> set (stackNodes s)" for b
    proof -
      have stk: "stackNodes s = n # map fst rest" using st by simp
      have "set (n # map fst rest) \<subseteq> set (df_visited s)" unfolding nd(3) stk [symmetric] by blast
      from stack_ancestors [OF nd(8) [unfolded stk] nd(1) [unfolded stk] that [unfolded stk] this] show ?thesis .
    qed
    have done': "b \<in> set (df_rpo s) \<or> (b, n) \<in> (treeOf (set (df_visited s)) start par)\<^sup>*" if "(n, b) \<in> edgesOf succ" for b
    proof -
      obtain j where "j < length (neighbors succ n)" "neighbors succ n ! j = b" using \<open>(n, b) \<in> edgesOf succ\<close>
        by (auto simp: edgesOf_def in_set_conv_nth)
      then have "b \<in> set (df_visited s)" using edge st i by (auto simp: edgeInv_def)
      then show ?thesis using nd(3) anc by blast
    qed
    have "\<forall>k < length (df_rpo s @ [n]). \<forall>b. ((df_rpo s @ [n]) ! k, b) \<in> edgesOf succ \<longrightarrow>
        b \<in> set (take k (df_rpo s @ [n])) \<or> (b, (df_rpo s @ [n]) ! k) \<in> (treeOf (set (df_visited s)) start par)\<^sup>*"
    proof (intro allI impI)
      fix k b assume k: "k < length (df_rpo s @ [n])" "((df_rpo s @ [n]) ! k, b) \<in> edgesOf succ"
      show "b \<in> set (take k (df_rpo s @ [n])) \<or> (b, (df_rpo s @ [n]) ! k) \<in> (treeOf (set (df_visited s)) start par)\<^sup>*"
      proof (cases "k < length (df_rpo s)")
        case True
        then show ?thesis using edge k unfolding edgeInv_def by (simp add: nth_append)
      next
        case False
        then have "k = length (df_rpo s)" using k(1) by simp
        then show ?thesis using done' [of b] k(2) by simp
      qed
    qed
    then show ?thesis using edge st by (simp add: edgeInv_def s')
  qed
  ultimately show ?thesis by (simp add: dfsInv_def)
qed

section \<open>The end of the search\<close>

lemma dfsLoop_inv: "dfsInv succ start par s \<Longrightarrow> \<exists>par'. dfsInv succ start par' (dfsLoop succ s) \<and> df_stack (dfsLoop succ s) = []"
proof (induction succ s arbitrary: par rule: dfsLoop.induct)
  case (1 succ s)
  show ?case
  proof (cases "df_stack s")
    case Nil
    then have "dfsLoop succ s = s" by (simp add: dfsLoop.simps [of succ s])
    then show ?thesis using "1.prems" Nil by auto
  next
    case (Cons p rest)
    obtain n i where st: "df_stack s = (n, i) # rest" using Cons by (cases p) simp
    have "\<exists>par'. dfsInv succ start par' (dfsStep succ s)"
      using discover_inv [OF "1.prems" st] skip_inv [OF "1.prems" st] finish_inv [OF "1.prems" st] by blast
    moreover have "dfsLoop succ s = dfsLoop succ (dfsStep succ s)" using st by (simp add: dfsLoop.simps [of succ s])
    ultimately show ?thesis using "1.IH" st by fastforce
  qed
qed

definition dfsParent :: "(ustring \<times> ustring list) list \<Rightarrow> ustring \<Rightarrow> ustring \<Rightarrow> ustring" where
  \<comment> \<open>a tree of discoveries; only proofs use it\<close>
  "dfsParent succ start = (SOME par. dfsInv succ start par (dfsFrom succ start))"

definition postOf :: "(ustring \<times> ustring list) list \<Rightarrow> ustring \<Rightarrow> ustring \<Rightarrow> nat" where
  "postOf succ start n = orElse (obj_get (df_postNum (dfsFrom succ start)) n) 0"

lemma dfsFrom_inv:
  "dfsInv succ start (dfsParent succ start) (dfsFrom succ start)" "df_stack (dfsFrom succ start) = []"
proof -
  let ?s = "\<lparr>df_visited = [start], df_stack = [(start, 0)], df_postNum = [], df_rpo = []\<rparr>"
  have "dfsInv succ start par ?s" for par
    by (simp add: dfsInv_def nodesInv_def numberInv_def edgeInv_def stackPath_def)
  from dfsLoop_inv [OF this] obtain par where "dfsInv succ start par (dfsFrom succ start)" and "df_stack (dfsFrom succ start) = []"
    unfolding dfsFrom_def by blast
  then show "dfsInv succ start (dfsParent succ start) (dfsFrom succ start)" "df_stack (dfsFrom succ start) = []"
    unfolding dfsParent_def using someI [of "\<lambda>par. dfsInv succ start par (dfsFrom succ start)" par] by blast+
qed

lemma dfs_rpo:
  "set (df_rpo (dfsFrom succ start)) = set (df_visited (dfsFrom succ start))" "distinct (df_rpo (dfsFrom succ start))"
  "start \<in> set (df_visited (dfsFrom succ start))"
proof -
  have "nodesInv succ start (dfsParent succ start) (dfsFrom succ start)" using dfsFrom_inv(1) by (simp add: dfsInv_def)
  note nd = nodesInvD [OF this]
  show "set (df_rpo (dfsFrom succ start)) = set (df_visited (dfsFrom succ start))" unfolding nd(3) dfsFrom_inv(2) by simp
  show "distinct (df_rpo (dfsFrom succ start))" by (rule nd(2))
  show "start \<in> set (df_visited (dfsFrom succ start))" by (rule nd(5))
qed

lemma postNum_zip:
  "df_postNum (dfsFrom succ start) = zip (df_rpo (dfsFrom succ start)) [0..<length (df_rpo (dfsFrom succ start))]"
  using dfsFrom_inv(1) [of succ start] by (simp add: dfsInv_def numberInv_def)

lemma postNum_nth: "i < length (df_rpo (dfsFrom succ start)) \<Longrightarrow> obj_get (df_postNum (dfsFrom succ start)) (df_rpo (dfsFrom succ start) ! i) = Some i"
  using dfs_rpo(2) [of succ start] by (simp add: postNum_zip map_of_zip_nth)

lemma postNum_dom: "obj_get (df_postNum (dfsFrom succ start)) n = None \<longleftrightarrow> n \<notin> set (df_visited (dfsFrom succ start))"
  by (simp add: postNum_zip map_of_zip_is_None dfs_rpo)

lemma postOf_Some: "n \<in> set (df_visited (dfsFrom succ start)) \<Longrightarrow> obj_get (df_postNum (dfsFrom succ start)) n = Some (postOf succ start n)"
  using postNum_dom [of succ start n] by (cases "obj_get (df_postNum (dfsFrom succ start)) n") (simp_all add: postOf_def)

lemma visited_nth:
  assumes "n \<in> set (df_visited (dfsFrom succ start))"
  shows "postOf succ start n < length (df_rpo (dfsFrom succ start))" "df_rpo (dfsFrom succ start) ! postOf succ start n = n"
proof -
  have "n \<in> set (df_rpo (dfsFrom succ start))" using assms by (simp add: dfs_rpo)
  then obtain i where i: "i < length (df_rpo (dfsFrom succ start))" "df_rpo (dfsFrom succ start) ! i = n"
    by (auto simp: in_set_conv_nth)
  then have "postOf succ start n = i" using postNum_nth [OF i(1)] by (simp add: postOf_def)
  then show "postOf succ start n < length (df_rpo (dfsFrom succ start))" "df_rpo (dfsFrom succ start) ! postOf succ start n = n"
    using i by simp_all
qed

lemma mem_take:
  "n \<in> set (take i (df_rpo (dfsFrom succ start))) \<Longrightarrow> n \<in> set (df_visited (dfsFrom succ start)) \<and> postOf succ start n < i"
proof -
  assume "n \<in> set (take i (df_rpo (dfsFrom succ start)))"
  then obtain j where j: "j < i" "j < length (df_rpo (dfsFrom succ start))" "df_rpo (dfsFrom succ start) ! j = n"
    by (auto simp: in_set_conv_nth)
  then have "postOf succ start n = j" using postNum_nth [OF j(2)] by (simp add: postOf_def)
  moreover have "n \<in> set (df_rpo (dfsFrom succ start))" using j by auto
  ultimately show ?thesis using j by (simp add: dfs_rpo)
qed

lemma not_mem_take: "n \<in> set (df_visited (dfsFrom succ start)) \<Longrightarrow> n \<notin> set (take i (df_rpo (dfsFrom succ start))) \<Longrightarrow> i \<le> postOf succ start n"
proof (rule ccontr)
  assume n: "n \<in> set (df_visited (dfsFrom succ start))" "n \<notin> set (take i (df_rpo (dfsFrom succ start)))" "\<not> i \<le> postOf succ start n"
  then have "take i (df_rpo (dfsFrom succ start)) ! postOf succ start n = n" "postOf succ start n < length (take i (df_rpo (dfsFrom succ start)))"
    using visited_nth [OF n(1)] by simp_all
  then show False using n(2) nth_mem by metis
qed

interpretation dfsn: dfs_numbering "edgesOf succ" start "set (df_visited (dfsFrom succ start))" "postOf succ start" "dfsParent succ start"
  for succ start
proof unfold_locales
  let ?d = "dfsFrom succ start" and ?par = "dfsParent succ start"
  have inv: "nodesInv succ start ?par ?d" "numberInv start ?par ?d" "edgeInv succ start ?par ?d"
    using dfsFrom_inv(1) [of succ start] by (simp_all add: dfsInv_def)
  note nd = nodesInvD [OF inv(1)]
  show "start \<in> set (df_visited ?d)" by (rule nd(5))
  show "finite (set (df_visited ?d))" by simp
  have fin: "b \<in> set (take (postOf succ start x) (df_rpo ?d)) \<or> (b, x) \<in> (treeOf (set (df_visited ?d)) start ?par)\<^sup>*"
    if "x \<in> set (df_visited ?d)" "(x, b) \<in> edgesOf succ" for x b
  proof -
    have "\<forall>b. (df_rpo ?d ! postOf succ start x, b) \<in> edgesOf succ \<longrightarrow> b \<in> set (take (postOf succ start x) (df_rpo ?d))
        \<or> (b, df_rpo ?d ! postOf succ start x) \<in> (treeOf (set (df_visited ?d)) start ?par)\<^sup>*"
      using inv(3) visited_nth(1) [OF that(1)] unfolding edgeInv_def by blast
    then show ?thesis using that(2) unfolding visited_nth(2) [OF that(1)] by blast
  qed
  show "postOf succ start b < postOf succ start x \<or> (b, x) \<in> (treeOf (set (df_visited ?d)) start ?par)\<^sup>*"
    if "x \<in> set (df_visited ?d)" "(x, b) \<in> edgesOf succ" for x b
    using fin [OF that] mem_take [of b "postOf succ start x" succ start] by blast
  show "b \<in> set (df_visited ?d)" if "x \<in> set (df_visited ?d)" "(x, b) \<in> edgesOf succ" for x b
  proof -
    note fin [OF that]
    moreover have "b = x \<or> b \<in> set (df_visited ?d)" if "(b, x) \<in> (treeOf (set (df_visited ?d)) start ?par)\<^sup>*"
      using that
    proof (cases rule: converse_rtranclE)
      case (step y)
      then have "b = ?par y" "y \<in> set (df_visited ?d) - {start}" by (auto simp: treeOf_def)
      then show ?thesis using nd(7) by blast
    qed simp
    ultimately show ?thesis using mem_take [of b _ succ start] that(1) by blast
  qed
  show "(start, x) \<in> (edgesOf succ)\<^sup>*" if "x \<in> set (df_visited ?d)" for x using nd(6) that by blast
  show "?par b \<in> set (df_visited ?d) \<and> (?par b, b) \<in> edgesOf succ \<and> postOf succ start b < postOf succ start (?par b)"
    if "b \<in> set (df_visited ?d)" "b \<noteq> start" for b
  proof -
    have p: "(?par b, b) \<in> edgesOf succ" "?par b \<in> set (df_visited ?d)" "?par b \<noteq> b" using nd(7) that by auto
    have "df_rpo ?d ! postOf succ start b \<noteq> start \<longrightarrow> ?par (df_rpo ?d ! postOf succ start b) \<notin> set (take (postOf succ start b) (df_rpo ?d))"
      using inv(2) visited_nth(1) [OF that(1)] unfolding numberInv_def by blast
    then have "?par b \<notin> set (take (postOf succ start b) (df_rpo ?d))" using that(2) unfolding visited_nth(2) [OF that(1)] by blast
    then have "postOf succ start b \<le> postOf succ start (?par b)" by (rule not_mem_take [OF p(2)])
    moreover have "postOf succ start b \<noteq> postOf succ start (?par b)" using p(3) visited_nth(2) that(1) p(2) by metis
    ultimately show ?thesis using p by simp
  qed
  show "inj_on (postOf succ start) (set (df_visited ?d))" by (rule inj_onI) (metis visited_nth(2))
qed

end
