(* ===== verification/Dominance_Tree.thy ===== *)
theory Dominance_Tree
  imports Dominance_Dfs
begin

text \<open>
  Why the iteration of Cooper, Harvey and Kennedy ends, and with the dominators. The pointers of the nodes form a
  tree over the depth-first tree; a chain is a way up the pointers. Two facts are kept by every update: a strict
  dominator of a node dominates what its pointer points to (so chains never lose a dominator), and within a pass
  the pointers of the nodes visited so far do not cross (so a pointer only ever moves up, and the passes end).
\<close>

section \<open>Paths and dominance\<close>

fun walk :: "('a \<times> 'a) set \<Rightarrow> 'a \<Rightarrow> 'a list \<Rightarrow> 'a \<Rightarrow> bool" where
  \<comment> \<open>a path from \<open>u\<close> over the listed nodes to \<open>v\<close>\<close>
  "walk E u [] v = (u = v)"
| "walk E u (x # xs) v = ((u, x) \<in> E \<and> walk E x xs v)"

definition onEveryPath :: "('a \<times> 'a) set \<Rightarrow> 'a \<Rightarrow> 'a \<Rightarrow> 'a \<Rightarrow> bool" where
  "onEveryPath E s a z = (\<forall>xs. walk E s xs z \<longrightarrow> a \<in> set (s # xs))"

lemma walk_snoc: "walk E u (xs @ [z]) v = (z = v \<and> (\<exists>p. walk E u xs p \<and> (p, v) \<in> E))"
  by (induction xs arbitrary: u) auto

lemma walk_last: "walk E u xs v \<Longrightarrow> v \<in> set (u # xs)"
  by (induction xs arbitrary: u) auto

lemma onEveryPath_self [simp]: "onEveryPath E s z z"
  unfolding onEveryPath_def by (intro allI impI) (rule walk_last)

lemma onEveryPath_start: "onEveryPath E s a s \<Longrightarrow> a = s"
  unfolding onEveryPath_def by (erule allE [of _ "[]"]) simp

lemma onEveryPath_pred: "onEveryPath E s a z \<Longrightarrow> a \<noteq> z \<Longrightarrow> (p, z) \<in> E \<Longrightarrow> onEveryPath E s a p"
  unfolding onEveryPath_def
proof (intro allI impI)
  fix xs assume all: "\<forall>xs. walk E s xs z \<longrightarrow> a \<in> set (s # xs)" and "a \<noteq> z" "(p, z) \<in> E" "walk E s xs p"
  then have "walk E s (xs @ [z]) z" by (auto simp: walk_snoc)
  then have "a \<in> set (s # xs @ [z])" using all by blast
  then show "a \<in> set (s # xs)" using \<open>a \<noteq> z\<close> by simp
qed

section \<open>Pointers and chains\<close>

definition pointers :: "'a \<Rightarrow> ('a \<Rightarrow> 'a option) \<Rightarrow> ('a \<times> 'a) set" where
  "pointers s idom = {(x, y). x \<noteq> s \<and> idom x = Some y}"

definition chain :: "'a \<Rightarrow> ('a \<Rightarrow> 'a option) \<Rightarrow> 'a \<Rightarrow> 'a \<Rightarrow> bool" where
  "chain s idom z a = ((z, a) \<in> (pointers s idom)\<^sup>*)"

definition common :: "'a \<Rightarrow> ('a \<Rightarrow> 'a option) \<Rightarrow> 'a set \<Rightarrow> 'a \<Rightarrow> bool" where
  \<comment> \<open>the lowest node on the chains of all the nodes of a set\<close>
  "common s idom ps m = ((\<forall>p \<in> ps. chain s idom p m) \<and> (\<forall>e. (\<forall>p \<in> ps. chain s idom p e) \<longrightarrow> chain s idom m e))"

lemma chain_refl [simp]: "chain s idom z z" and chain_trans: "chain s idom a b \<Longrightarrow> chain s idom b c \<Longrightarrow> chain s idom a c"
  and chain_step: "idom z = Some y \<Longrightarrow> z \<noteq> s \<Longrightarrow> chain s idom y a \<Longrightarrow> chain s idom z a"
  by (auto simp: chain_def pointers_def intro: rtrancl_trans converse_rtrancl_into_rtrancl)

lemma chain_induct [consumes 1, case_names here step]:
  assumes "chain s idom z a" and "P a" and "\<And>z y. z \<noteq> s \<Longrightarrow> idom z = Some y \<Longrightarrow> chain s idom y a \<Longrightarrow> P y \<Longrightarrow> P z"
  shows "P z"
  using assms(1) unfolding chain_def
  by (induction rule: converse_rtrancl_induct) (use assms(2,3) in \<open>auto simp: pointers_def chain_def\<close>)

lemma chain_linear: "chain s idom z a \<Longrightarrow> chain s idom z b \<Longrightarrow> chain s idom a b \<or> chain s idom b a"
  unfolding chain_def using single_valued_confluent [of "pointers s idom" z a b]
  by (auto simp: single_valued_def pointers_def)

context dfs_numbering begin

abbreviation anc :: "'a \<Rightarrow> 'a \<Rightarrow> bool" where "anc a z \<equiv> (a, z) \<in> (treeOf V s par)\<^sup>*"

lemma tree_numbers: "(a, z) \<in> treeOf V s par \<Longrightarrow> post z < post a \<and> a \<in> V \<and> z \<in> V"
  using parent by (auto simp: treeOf_def)

lemma anc_numbers: "anc a z \<Longrightarrow> post z \<le> post a"
  by (induction rule: rtrancl_induct) (auto dest: tree_numbers)

lemma anc_in: "anc a z \<Longrightarrow> z \<in> V \<Longrightarrow> a \<in> V"
  by (induction rule: converse_rtrancl_induct) (auto dest: tree_numbers)

lemma anc_parent: "anc a z \<Longrightarrow> a \<noteq> z \<Longrightarrow> anc a (par z) \<and> z \<noteq> s \<and> z \<in> V"
  by (erule rtranclE) (auto simp: treeOf_def)

lemma anc_strict: "anc a z \<Longrightarrow> a \<noteq> z \<Longrightarrow> post z < post a"
  using anc_parent anc_numbers parent by (meson le_less_trans less_le_trans)

lemma anc_antisym: "anc a z \<Longrightarrow> anc z a \<Longrightarrow> a = z"
  using anc_strict anc_numbers by fastforce

lemma anc_linear: "anc a z \<Longrightarrow> anc b z \<Longrightarrow> anc a b \<or> anc b a"
proof -
  assume "anc a z" "anc b z"
  then have "(z, a) \<in> ((treeOf V s par)\<inverse>)\<^sup>*" "(z, b) \<in> ((treeOf V s par)\<inverse>)\<^sup>*" by (simp_all add: rtrancl_converse)
  moreover have "single_valued ((treeOf V s par)\<inverse>)" by (auto simp: single_valued_def treeOf_def)
  ultimately have "(a, b) \<in> ((treeOf V s par)\<inverse>)\<^sup>* \<or> (b, a) \<in> ((treeOf V s par)\<inverse>)\<^sup>*" by (rule single_valued_confluent [rotated])
  then show ?thesis by (auto simp: rtrancl_converse)
qed

lemma anc_by_number: "anc a z \<Longrightarrow> anc b z \<Longrightarrow> post a \<le> post b \<Longrightarrow> anc b a"
  using anc_linear [of a z b] anc_strict [of a b] by (cases "a = b") auto

lemma anc_start: "z \<in> V \<Longrightarrow> anc s z"
proof (induction "Max (post ` V) - post z" arbitrary: z rule: less_induct)
  case less
  show ?case
  proof (cases "z = s")
    case False
    note p = parent [OF less.prems False]
    have "post (par z) \<le> Max (post ` V)" using p finite_nodes by simp
    then have "anc s (par z)" using less.hyps [of "par z"] p by linarith
    moreover have "(par z, z) \<in> treeOf V s par" using less.prems False by (auto simp: treeOf_def)
    ultimately show ?thesis by (rule rtrancl_into_rtrancl)
  qed simp
qed

end

definition wellPointed :: "('a \<times> 'a) set \<Rightarrow> 'a set \<Rightarrow> 'a \<Rightarrow> ('a \<Rightarrow> 'a option) \<Rightarrow> bool" where
  \<comment> \<open>over the tree \<open>T\<close>: pointers go to proper ancestors, which have one too\<close>
  "wellPointed T V s idom =
     (idom s = Some s \<and> dom idom \<subseteq> V \<and> (\<forall>x y. x \<noteq> s \<longrightarrow> idom x = Some y \<longrightarrow> (y, x) \<in> T\<^sup>* \<and> y \<noteq> x \<and> idom y \<noteq> None))"

definition keepsDominators :: "('a \<times> 'a) set \<Rightarrow> 'a \<Rightarrow> ('a \<Rightarrow> 'a option) \<Rightarrow> bool" where
  "keepsDominators E s idom =
     (\<forall>x y d. x \<noteq> s \<longrightarrow> idom x = Some y \<longrightarrow> onEveryPath E s d x \<longrightarrow> d \<noteq> x \<longrightarrow> onEveryPath E s d y)"

definition laminar :: "('a \<times> 'a) set \<Rightarrow> 'a \<Rightarrow> ('a \<Rightarrow> 'a option) \<Rightarrow> 'a set \<Rightarrow> bool" where
  \<comment> \<open>no pointer from strictly between a node and its target leads above the target\<close>
  "laminar T s idom P =
     (\<forall>z \<in> P. \<forall>l y. z \<noteq> s \<longrightarrow> idom z = Some l \<longrightarrow> (y, z) \<in> T\<^sup>* \<longrightarrow> (l, y) \<in> T\<^sup>* \<longrightarrow> y \<noteq> z \<longrightarrow> y \<noteq> l
        \<longrightarrow> (\<exists>l'. idom y = Some l' \<and> (l, l') \<in> T\<^sup>*))"

definition settled :: "('a \<times> 'a) set \<Rightarrow> 'a \<Rightarrow> 'a set \<Rightarrow> ('a \<Rightarrow> nat) \<Rightarrow> ('a \<Rightarrow> 'a option) \<Rightarrow> 'a \<Rightarrow> bool" where
  \<comment> \<open>the pointer of a node against its forward predecessors, and against all when they are all forward\<close>
  "settled E s V post idom b =
     (\<exists>d. idom b = Some d
        \<and> (\<forall>p \<in> V. (p, b) \<in> E \<longrightarrow> post b < post p \<longrightarrow> chain s idom p d)
        \<and> ((\<forall>p \<in> V. (p, b) \<in> E \<longrightarrow> post b < post p)
             \<longrightarrow> (\<forall>e. (\<forall>p \<in> V. (p, b) \<in> E \<longrightarrow> chain s idom p e) \<longrightarrow> chain s idom d e)))"

context dfs_numbering begin

abbreviation wp :: "('a \<Rightarrow> 'a option) \<Rightarrow> bool" where "wp idom \<equiv> wellPointed (treeOf V s par) V s idom"

lemma wp_pointer: "wp idom \<Longrightarrow> idom x = Some y \<Longrightarrow> x \<noteq> s \<Longrightarrow> anc y x \<and> y \<noteq> x \<and> idom y \<noteq> None \<and> x \<in> V \<and> y \<in> V"
  unfolding wellPointed_def using anc_in by blast

lemma chain_anc:
  assumes "wp idom" and "chain s idom z a"
  shows "anc a z"
  using assms(2)
proof (induction rule: chain_induct)
  case (step z y)
  then show ?case using wp_pointer [OF assms(1) step.hyps(2,1)] by (meson rtrancl_trans)
qed simp

lemma chain_numbers: "wp idom \<Longrightarrow> chain s idom z a \<Longrightarrow> post z \<le> post a"
  using chain_anc anc_numbers by blast

lemma chain_defined:
  assumes "wp idom" and "chain s idom z a"
  shows "idom z \<noteq> None \<Longrightarrow> idom a \<noteq> None"
  using assms(2)
proof (induction rule: chain_induct)
  case (step z y)
  then show ?case using wp_pointer [OF assms(1) step.hyps(2,1)] by simp
qed

lemma pointer_up: "wp idom \<Longrightarrow> idom x = Some y \<Longrightarrow> x \<noteq> s \<Longrightarrow> post x < post y"
  using wp_pointer anc_strict by blast

lemma chain_by_number: "wp idom \<Longrightarrow> chain s idom z a \<Longrightarrow> chain s idom z b \<Longrightarrow> post a \<le> post b \<Longrightarrow> chain s idom a b"
proof -
  assume w: "wp idom" and c: "chain s idom z a" "chain s idom z b" "post a \<le> post b"
  from chain_linear [OF c(1,2)] show ?thesis
  proof
    assume ba: "chain s idom b a"
    then have "post b = post a" using chain_numbers [OF w ba] c(3) by simp
    then have "a = b" using chain_anc [OF w ba] anc_strict [of a b] by fastforce
    then show ?thesis by simp
  qed
qed

lemma chain_start: "wp idom \<Longrightarrow> idom z \<noteq> None \<Longrightarrow> chain s idom z s"
proof (induction "Max (post ` V) - post z" arbitrary: z rule: less_induct)
  case less
  show ?case
  proof (cases "z = s")
    case False
    obtain y where y: "idom z = Some y" using less.prems by blast
    have "y \<in> V" "idom y \<noteq> None" "post z < post y" using wp_pointer pointer_up less.prems(1) y False by blast+
    moreover from this(1) have "post y \<le> Max (post ` V)" using finite_nodes by simp
    ultimately have "chain s idom y s" using less.hyps [of y] less.prems(1) by linarith
    then show ?thesis using chain_step y False by metis
  qed simp
qed

lemma chain_cong:
  "wp idom \<Longrightarrow> (\<And>x. k \<le> post x \<Longrightarrow> idom' x = idom x) \<Longrightarrow> chain s idom z a \<Longrightarrow> k \<le> post z \<Longrightarrow> chain s idom' z a"
proof -
  assume w: "wp idom" and same: "\<And>x. k \<le> post x \<Longrightarrow> idom' x = idom x" and c: "chain s idom z a"
  from c show "k \<le> post z \<Longrightarrow> chain s idom' z a"
  proof (induction rule: chain_induct)
    case (step z y)
    have "post z < post y" using pointer_up [OF w step.hyps(2,1)] .
    then have "chain s idom' y a" "idom' z = Some y" using step same [of z] by simp_all
    then show ?case using chain_step step.hyps(1) by metis
  qed simp
qed

lemma complete_chain:
  assumes "wp idom" and "keepsDominators E s idom" and "idom z \<noteq> None" and "onEveryPath E s d z"
  shows "chain s idom z d"
  using chain_start [OF assms(1,3)] assms(4)
proof (induction rule: chain_induct)
  case here
  then show ?case using onEveryPath_start by fastforce
next
  case (step z y)
  show ?case
  proof (cases "d = z")
    case False
    then have "onEveryPath E s d y" using assms(2) step.hyps(1,2) step.prems unfolding keepsDominators_def by blast
    then show ?thesis using chain_step [of idom z y] step.hyps(1,2) step.IH by simp
  qed simp
qed

lemma dominates_along:
  assumes "wp idom" and "keepsDominators E s idom" and "chain s idom z d" and "onEveryPath E s x z" and "chain s idom d x"
  shows "onEveryPath E s x d"
  using assms(3,4)
proof (induction rule: chain_induct)
  case (step z y)
  have "post z < post y" "post y \<le> post d" "post d \<le> post x"
    using pointer_up [OF assms(1) step.hyps(2,1)] chain_numbers [OF assms(1)] step.hyps(3) assms(5) by blast+
  then have "x \<noteq> z" by auto
  then have "onEveryPath E s x y" using assms(2) step.hyps(1,2) step.prems unfolding keepsDominators_def by blast
  then show ?case by (rule step.IH)
qed simp

lemma chain_skips:
  assumes "wp idom" and "laminar (treeOf V s par) s idom P" and "\<And>z y. z \<in> P \<Longrightarrow> anc y z \<Longrightarrow> y \<in> P"
    and "chain s idom z a" and "z \<in> P" and "anc a y" and "y \<noteq> a" and "anc y z"
  shows "\<exists>l. idom y = Some l \<and> anc a l"
  using assms(4,5,8)
proof (induction rule: chain_induct)
  case here
  then show ?case using anc_antisym assms(6,7) by blast
next
  case (step z z')
  have za: "anc a z'" using chain_anc [OF assms(1)] step.hyps(3) .
  have z': "anc z' z" "z' \<in> P" using wp_pointer [OF assms(1) step.hyps(2,1)] assms(3) step.prems(1) by blast+
  consider "y = z" | "anc y z'" | "y \<noteq> z" "anc z' y" "y \<noteq> z'" using anc_linear [OF step.prems(2) z'(1)] by blast
  then show ?case
  proof cases
    case 1
    then show ?thesis using step.hyps(2) za by blast
  next
    case 2
    then show ?thesis using step.IH z'(2) by blast
  next
    case 3
    then have "\<exists>l'. idom y = Some l' \<and> anc z' l'"
      using assms(2) step.hyps(1,2) step.prems unfolding laminar_def by blast
    then show ?thesis using za rtrancl_trans by metis
  qed
qed

lemma chain_if_skips:
  assumes "wp idom"
  shows "z \<in> V \<Longrightarrow> anc a z \<Longrightarrow> \<forall>y. anc a y \<longrightarrow> y \<noteq> a \<longrightarrow> anc y z \<longrightarrow> (\<exists>l. idom y = Some l \<and> anc a l) \<Longrightarrow> chain s idom z a"
proof (induction "Max (post ` V) - post z" arbitrary: z rule: less_induct)
  case less
  show ?case
  proof (cases "z = a")
    case False
    then have zs: "z \<noteq> s" using anc_parent [OF less.prems(2)] by blast
    obtain l where l: "idom z = Some l" "anc a l" using less.prems False by blast
    have p: "anc l z" "l \<in> V" "post z < post l" using wp_pointer pointer_up assms l(1) zs by blast+
    from p(2) have "post l \<le> Max (post ` V)" using finite_nodes by simp
    then have smaller: "Max (post ` V) - post l < Max (post ` V) - post z" using p(3) by linarith
    have "\<forall>y. anc a y \<longrightarrow> y \<noteq> a \<longrightarrow> anc y l \<longrightarrow> (\<exists>l'. idom y = Some l' \<and> anc a l')"
      using less.prems(3) p(1) by (meson rtrancl_trans)
    from less.hyps [OF smaller p(2) l(2) this] show ?thesis using chain_step l(1) zs by metis
  qed simp
qed

end

end
