(* ===== verification/Dominance_Pass.thy ===== *)
theory Dominance_Pass
  imports Dominance_Tree
begin

text \<open>
  One pass of the iteration over the nodes in reverse postorder: what it keeps of the pointers, that a pointer only
  moves up, and what holds when no pointer moved. The nodes already visited are those with a number of at least \<open>k\<close>.
\<close>

definition startOk :: "('a \<times> 'a) set \<Rightarrow> ('a \<times> 'a) set \<Rightarrow> 'a set \<Rightarrow> 'a \<Rightarrow> ('a \<Rightarrow> nat) \<Rightarrow> ('a \<Rightarrow> 'a option) \<Rightarrow> bool" where
  \<comment> \<open>between two passes: nothing but the start has a pointer, or every node has one and a whole pass was made\<close>
  "startOk T E V s post idom =
     (wellPointed T V s idom \<and> keepsDominators E s idom
      \<and> (dom idom = {s} \<or> (dom idom = V \<and> laminar T s idom V \<and> (\<forall>b \<in> V - {s}. settled E s V post idom b))))"

definition passOk ::
  "('a \<times> 'a) set \<Rightarrow> ('a \<times> 'a) set \<Rightarrow> 'a set \<Rightarrow> 'a \<Rightarrow> ('a \<Rightarrow> nat) \<Rightarrow> ('a \<Rightarrow> 'a option) \<Rightarrow> nat \<Rightarrow> ('a \<Rightarrow> 'a option) \<Rightarrow> bool" where
  "passOk T E V s post idom0 k idom =
     (wellPointed T V s idom \<and> keepsDominators E s idom
      \<and> dom idom = dom idom0 \<union> {s} \<union> {x \<in> V. k \<le> post x}
      \<and> (\<forall>x. post x < k \<longrightarrow> idom x = idom0 x)
      \<and> laminar T s idom {x \<in> V. k \<le> post x}
      \<and> (\<forall>x y0 y. x \<noteq> s \<longrightarrow> idom0 x = Some y0 \<longrightarrow> idom x = Some y \<longrightarrow> post y0 \<le> post y)
      \<and> (\<forall>b \<in> V - {s}. k \<le> post b \<longrightarrow> settled E s V post idom b))"

context dfs_numbering begin

abbreviation between :: "('a \<Rightarrow> 'a option) \<Rightarrow> bool" where "between \<equiv> startOk (treeOf V s par) E V s post"
abbreviation during :: "('a \<Rightarrow> 'a option) \<Rightarrow> nat \<Rightarrow> ('a \<Rightarrow> 'a option) \<Rightarrow> bool" where
  "during \<equiv> passOk (treeOf V s par) E V s post"

definition readyPreds :: "('a \<Rightarrow> 'a option) \<Rightarrow> 'a \<Rightarrow> 'a set" where
  "readyPreds idom b = {p \<in> V. (p, b) \<in> E \<and> idom p \<noteq> None}"

lemma duringD:
  assumes "during idom0 k idom"
  shows "wp idom" "keepsDominators E s idom" "dom idom = dom idom0 \<union> {s} \<union> {x \<in> V. k \<le> post x}"
    "\<And>x. post x < k \<Longrightarrow> idom x = idom0 x" "laminar (treeOf V s par) s idom {x \<in> V. k \<le> post x}"
    "\<And>x y0 y. x \<noteq> s \<Longrightarrow> idom0 x = Some y0 \<Longrightarrow> idom x = Some y \<Longrightarrow> post y0 \<le> post y"
    "\<And>b. b \<in> V - {s} \<Longrightarrow> k \<le> post b \<Longrightarrow> settled E s V post idom b"
  using assms unfolding passOk_def by blast+

lemma visited_up: "z \<in> {x \<in> V. k \<le> post x} \<Longrightarrow> anc y z \<Longrightarrow> y \<in> {x \<in> V. k \<le> post x}"
  using anc_in anc_numbers le_trans by blast

lemma visited_skips:
  assumes run: "during idom0 k idom" and c: "chain s idom z a" and z: "z \<in> V" "k \<le> post z"
    and y: "anc a y" "y \<noteq> a" "anc y z"
  shows "\<exists>l. idom y = Some l \<and> anc a l"
proof (rule chain_skips [OF duringD(1) [OF run] duringD(5) [OF run] _ c _ y])
  show "z \<in> {x \<in> V. k \<le> post x}" using z by simp
qed (rule visited_up)

text \<open>The new pointer of a node: every visited predecessor leads to it, in particular the parent.\<close>

lemma target_above:
  assumes run: "during idom0 (Suc (post b)) idom" and b: "b \<in> V" "b \<noteq> s" and d: "common s idom (readyPreds idom b) d"
  shows "par b \<in> readyPreds idom b" "chain s idom (par b) d" "anc d b" "d \<noteq> b" "post b < post d" "d \<in> V" "idom d \<noteq> None"
proof -
  note w = duringD(1) [OF run] and p = parent [OF b]
  have "par b \<in> dom idom" using duringD(3) [OF run] p by auto
  then show tp: "par b \<in> readyPreds idom b" using p by (auto simp: readyPreds_def)
  then show c: "chain s idom (par b) d" using d by (simp add: common_def)
  have a: "anc d (par b)" by (rule chain_anc [OF w c])
  moreover have "(par b, b) \<in> treeOf V s par" using b by (auto simp: treeOf_def)
  ultimately show ab: "anc d b" by (rule rtrancl_into_rtrancl)
  have "post (par b) \<le> post d" by (rule anc_numbers [OF a])
  then show n: "post b < post d" using p by simp
  then show "d \<noteq> b" by auto
  show "d \<in> V" by (rule anc_in [OF ab b(1)])
  show "idom d \<noteq> None" using chain_defined [OF w c] tp by (simp add: readyPreds_def)
qed

lemma keeps_step:
  assumes run: "during idom0 (Suc (post b)) idom" and b: "b \<in> V" "b \<noteq> s" and d: "common s idom (readyPreds idom b) d"
  shows "keepsDominators E s (idom(b \<mapsto> d))"
  unfolding keepsDominators_def
proof (intro allI impI)
  fix x y e assume x: "x \<noteq> s" "(idom(b \<mapsto> d)) x = Some y" and e: "onEveryPath E s e x" "e \<noteq> x"
  note w = duringD(1) [OF run] and k = duringD(2) [OF run] and t = target_above [OF assms]
  show "onEveryPath E s e y"
  proof (cases "x = b")
    case True
    have all: "chain s idom p e" if "p \<in> readyPreds idom b" for p
      using complete_chain [OF w k, of p e] onEveryPath_pred [of E s e b p] e True that by (auto simp: readyPreds_def)
    then have "chain s idom d e" using d by (simp add: common_def)
    moreover have "onEveryPath E s e (par b)" using onEveryPath_pred [of E s e b "par b"] e True parent [OF b] by blast
    ultimately have "onEveryPath E s e d" using dominates_along [OF w k t(2)] by blast
    then show ?thesis using x True by simp
  next
    case False
    then show ?thesis using k x e unfolding keepsDominators_def by auto
  qed
qed

lemma well_step:
  assumes run: "during idom0 (Suc (post b)) idom" and b: "b \<in> V" "b \<noteq> s" and d: "common s idom (readyPreds idom b) d"
  shows "wp (idom(b \<mapsto> d))"
  using duringD(1) [OF run] target_above [OF assms] b unfolding wellPointed_def by auto

lemma chain_step_same:
  assumes run: "during idom0 (Suc (post b)) idom" and b: "b \<in> V" "b \<noteq> s" and d: "common s idom (readyPreds idom b) d"
    and z: "post b < post z"
  shows "chain s (idom(b \<mapsto> d)) z a = chain s idom z a"
proof
  show "chain s idom z a" if "chain s (idom(b \<mapsto> d)) z a"
    by (rule chain_cong [OF well_step [OF assms(1-4)] _ that, of "Suc (post b)"]) (use z in auto)
  show "chain s (idom(b \<mapsto> d)) z a" if "chain s idom z a"
    by (rule chain_cong [OF duringD(1) [OF run] _ that, of "Suc (post b)"]) (use z in auto)
qed

lemma laminar_step:
  assumes run: "during idom0 (Suc (post b)) idom" and b: "b \<in> V" "b \<noteq> s" and d: "common s idom (readyPreds idom b) d"
  shows "laminar (treeOf V s par) s (idom(b \<mapsto> d)) {x \<in> V. post b \<le> post x}"
  unfolding laminar_def
proof (intro ballI allI impI)
  fix z l y assume z: "z \<in> {x \<in> V. post b \<le> post x}" "z \<noteq> s" "(idom(b \<mapsto> d)) z = Some l"
    and y: "anc y z" "anc l y" "y \<noteq> z" "y \<noteq> l"
  note w = duringD(1) [OF run] and t = target_above [OF assms]
  have yz: "post z < post y" using anc_strict [OF y(1,3)] .
  then have yb: "y \<noteq> b" using z(1) by auto
  show "\<exists>l'. (idom(b \<mapsto> d)) y = Some l' \<and> anc l l'"
  proof (cases "z = b")
    case True
    have "anc y (par b)" using anc_parent [of y b] y True by blast
    moreover have "par b \<in> V" "Suc (post b) \<le> post (par b)" using parent [OF b] by auto
    moreover have "l = d" using z(3) True by simp
    ultimately have "\<exists>l'. idom y = Some l' \<and> anc l l'"
      using visited_skips [OF run t(2)] y by blast
    then show ?thesis using yb by simp
  next
    case False
    then have "post z \<noteq> post b" using numbers z(1) b(1) by (auto dest: inj_onD)
    then have "z \<in> {x \<in> V. Suc (post b) \<le> post x}" using z(1) by simp
    moreover have "idom z = Some l" using z(3) False by simp
    ultimately have "\<exists>l'. idom y = Some l' \<and> anc l l'"
      using duringD(5) [OF run] z(2) y unfolding laminar_def by blast
    then show ?thesis using yb by simp
  qed
qed

lemma up_step:
  assumes start: "between idom0" and run: "during idom0 (Suc (post b)) idom" and b: "b \<in> V" "b \<noteq> s"
    and d: "common s idom (readyPreds idom b) d" and old: "idom b = Some old"
  shows "post old \<le> post d"
proof -
  note w = duringD(1) [OF run] and t = target_above [OF run b d]
  have b0: "idom0 b = Some old" using duringD(4) [OF run, of b] old by simp
  have "dom idom0 \<noteq> {s}" using b0 b(2) by auto
  then have full: "dom idom0 = V" "laminar (treeOf V s par) s idom0 V" "settled E s V post idom0 b" and w0: "wp idom0"
    using start b unfolding startOk_def by blast+
  have all: "idom p \<noteq> None" if "p \<in> V" for p using duringD(3) [OF run] full(1) that by auto
  show ?thesis
  proof (cases "\<forall>p \<in> V. (p, b) \<in> E \<longrightarrow> post b < post p")
    case True
    have "chain s idom0 p d" if p: "p \<in> V" "(p, b) \<in> E" for p
    proof (rule chain_if_skips [OF w0 p(1)])
      have pP: "Suc (post b) \<le> post p" using True p by auto
      have c: "chain s idom p d" using d p all by (auto simp: common_def readyPreds_def)
      then show "anc d p" by (rule chain_anc [OF w])
      show "\<forall>y. anc d y \<longrightarrow> y \<noteq> d \<longrightarrow> anc y p \<longrightarrow> (\<exists>l. idom0 y = Some l \<and> anc d l)"
      proof (intro allI impI)
        fix y assume y: "anc d y" "y \<noteq> d" "anc y p"
        obtain l where l: "idom y = Some l" "anc d l"
          using visited_skips [OF run c p(1) pP y] by blast
        have ys: "y \<noteq> s" "y \<in> V" using anc_parent [OF y(1)] y(2) by blast+
        then obtain l0 where l0: "idom0 y = Some l0" using full(1) by blast
        have "post l0 \<le> post l" using duringD(6) [OF run ys(1) l0 l(1)] .
        moreover have "anc l0 y" "anc l y" using wp_pointer [OF w0 l0 ys(1)] wp_pointer [OF w l(1) ys(1)] by blast+
        ultimately have "anc l l0" using anc_by_number by blast
        then show "\<exists>l. idom0 y = Some l \<and> anc d l" using l(2) l0 by (meson rtrancl_trans)
      qed
    qed
    then have "chain s idom0 old d" using full(3) b0 True unfolding settled_def by auto
    then show ?thesis by (rule chain_numbers [OF w0])
  next
    case False
    then obtain p where p: "p \<in> V" "(p, b) \<in> E" "\<not> post b < post p" by blast
    have bp: "anc b p" using edges p by blast
    have "chain s idom p d" using d p all by (auto simp: common_def readyPreds_def)
    then show ?thesis using bp p(1)
    proof (induction rule: chain_induct)
      case here
      then show ?case using t(3,4) anc_antisym by blast
    next
      case (step p y)
      show ?case
      proof (cases "p = b")
        case True
        then show ?thesis using step.hyps(2,3) old chain_numbers [OF w, of y d] by simp
      next
        case pb: False
        have pq: "post p < post b" using anc_strict [OF step.prems(1)] pb by blast
        have y: "anc y p" "y \<in> V" "idom0 p = Some y"
          using wp_pointer [OF w step.hyps(2,1)] duringD(4) [OF run, of p] pq step.hyps(2) by simp_all
        show ?thesis
        proof (cases "anc b y")
          case True
          then show ?thesis using step.IH y(2) by blast
        next
          case no: False
          then have "anc y b" "y \<noteq> b" using anc_linear [OF step.prems(1) y(1)] by auto
          then have "\<exists>l'. idom0 b = Some l' \<and> anc y l'"
            using full(2) step.hyps(1) y step.prems pb unfolding laminar_def by blast
          then have "post old \<le> post y" using b0 anc_numbers by auto
          also have "post y \<le> post d" by (rule chain_numbers [OF w step.hyps(3)])
          finally show ?thesis .
        qed
      qed
    qed
  qed
qed

lemma settled_step:
  assumes run: "during idom0 (Suc (post b)) idom" and b: "b \<in> V" "b \<noteq> s" and d: "common s idom (readyPreds idom b) d"
    and x: "x \<in> V - {s}" "post b \<le> post x"
  shows "settled E s V post (idom(b \<mapsto> d)) x"
proof -
  note t = target_above [OF run b d] and same = chain_step_same [OF run b d]
  have ready: "idom p \<noteq> None" if "p \<in> V" "post b < post p" for p using duringD(3) [OF run] that by auto
  show ?thesis
  proof (cases "x = b")
    case True
    have fwd: "chain s (idom(b \<mapsto> d)) p d" if "p \<in> V" "(p, b) \<in> E" "post b < post p" for p
      using d ready that same [of p d] by (auto simp: common_def readyPreds_def)
    have "chain s (idom(b \<mapsto> d)) d e"
      if f: "\<forall>p \<in> V. (p, b) \<in> E \<longrightarrow> post b < post p" and e: "\<forall>p \<in> V. (p, b) \<in> E \<longrightarrow> chain s (idom(b \<mapsto> d)) p e" for e
    proof -
      have "\<forall>p \<in> readyPreds idom b. chain s idom p e" using f e same by (auto simp: readyPreds_def)
      then have "chain s idom d e" using d by (simp add: common_def)
      then show ?thesis using same [OF t(5)] by simp
    qed
    then show ?thesis using fwd True by (auto simp: settled_def)
  next
    case False
    then have "post x \<noteq> post b" using numbers x(1) b(1) by (auto dest: inj_onD)
    then have bx: "post b < post x" using x(2) by simp
    obtain y where y: "idom x = Some y" "\<forall>p \<in> V. (p, x) \<in> E \<longrightarrow> post x < post p \<longrightarrow> chain s idom p y"
        "(\<forall>p \<in> V. (p, x) \<in> E \<longrightarrow> post x < post p)
           \<longrightarrow> (\<forall>e. (\<forall>p \<in> V. (p, x) \<in> E \<longrightarrow> chain s idom p e) \<longrightarrow> chain s idom y e)"
      using duringD(7) [OF run x(1)] bx unfolding settled_def by auto
    have xy: "post b < post y" using pointer_up [OF duringD(1) [OF run] y(1)] x(1) bx by simp
    have "\<forall>p \<in> V. (p, x) \<in> E \<longrightarrow> post x < post p \<longrightarrow> chain s (idom(b \<mapsto> d)) p y"
      using y(2) same bx by (metis less_trans)
    moreover have "\<forall>e. (\<forall>p \<in> V. (p, x) \<in> E \<longrightarrow> chain s (idom(b \<mapsto> d)) p e) \<longrightarrow> chain s (idom(b \<mapsto> d)) y e"
      if f: "\<forall>p \<in> V. (p, x) \<in> E \<longrightarrow> post x < post p"
      using y(3) f same [OF xy] same bx by (metis less_trans)
    ultimately show ?thesis using y(1) False by (auto simp: settled_def)
  qed
qed

lemma pass_step:
  assumes start: "between idom0" and run: "during idom0 (Suc (post b)) idom" and b: "b \<in> V" "b \<noteq> s"
    and d: "common s idom (readyPreds idom b) d"
  shows "during idom0 (post b) (idom(b \<mapsto> d))"
  unfolding passOk_def
proof (intro conjI)
  have "x = b" if "x \<in> V" "post x = post b" for x using numbers b(1) that by (auto dest: inj_onD)
  then have "{x \<in> V. post b \<le> post x} = insert b {x \<in> V. Suc (post b) \<le> post x}"
    using b(1) by (auto simp: Suc_le_eq le_less)
  then show "dom (idom(b \<mapsto> d)) = dom idom0 \<union> {s} \<union> {x \<in> V. post b \<le> post x}" using duringD(3) [OF run] by simp
  show "\<forall>x. post x < post b \<longrightarrow> (idom(b \<mapsto> d)) x = idom0 x" using duringD(4) [OF run] by auto
  show "\<forall>x y0 y. x \<noteq> s \<longrightarrow> idom0 x = Some y0 \<longrightarrow> (idom(b \<mapsto> d)) x = Some y \<longrightarrow> post y0 \<le> post y"
  proof (intro allI impI)
    fix x y0 y assume x: "x \<noteq> s" "idom0 x = Some y0" "(idom(b \<mapsto> d)) x = Some y"
    show "post y0 \<le> post y"
    proof (cases "x = b")
      case True
      then have "idom b = Some y0" using duringD(4) [OF run, of b] x(2) by simp
      from up_step [OF start run b d this] show ?thesis using x(3) True by simp
    qed (use duringD(6) [OF run] x in auto)
  qed
  show "\<forall>x \<in> V - {s}. post b \<le> post x \<longrightarrow> settled E s V post (idom(b \<mapsto> d)) x" using settled_step [OF run b d] by blast
qed (use well_step [OF run b d] keeps_step [OF run b d] laminar_step [OF run b d] in blast)+

section \<open>The start and the end of a pass\<close>

lemma during_first:
  assumes "between idom0" and "\<And>x. x \<in> V \<Longrightarrow> post x < k" and "0 < k"
  shows "during idom0 k idom0"
  unfolding passOk_def
proof (intro conjI)
  have none: "{x \<in> V. k \<le> post x} = {}" using assms(2) by fastforce
  show "dom idom0 = dom idom0 \<union> {s} \<union> {x \<in> V. k \<le> post x}"
    using assms(1) none start unfolding startOk_def by auto
  show "laminar (treeOf V s par) s idom0 {x \<in> V. k \<le> post x}" unfolding none by (simp add: laminar_def)
  show "\<forall>b \<in> V - {s}. k \<le> post b \<longrightarrow> settled E s V post idom0 b" using assms(2) by fastforce
qed (use assms(1) in \<open>auto simp: startOk_def\<close>)

lemma between_after: "during idom0 0 idom \<Longrightarrow> between idom0 \<Longrightarrow> between idom \<and> dom idom = V"
proof -
  assume run: "during idom0 0 idom" and b: "between idom0"
  have "dom idom0 \<subseteq> V" using b start unfolding startOk_def by auto
  then have "dom idom = V" using duringD(3) [OF run] start by auto
  then show ?thesis using duringD [OF run] unfolding startOk_def by auto
qed

lemma start_skips: "during idom0 (Suc (post s)) idom \<Longrightarrow> during idom0 (post s) idom"
proof -
  assume run: "during idom0 (Suc (post s)) idom"
  have "x = s" if "x \<in> V" "post x = post s" for x using numbers start that by (auto dest: inj_onD)
  then have top: "{x \<in> V. post s \<le> post x} = insert s {x \<in> V. Suc (post s) \<le> post x}"
    using start by (auto simp: Suc_le_eq le_less)
  show ?thesis
    unfolding passOk_def top
  proof (intro conjI)
    show "laminar (treeOf V s par) s idom (insert s {x \<in> V. Suc (post s) \<le> post x})"
      using duringD(5) [OF run] unfolding laminar_def by blast
    show "\<forall>b \<in> V - {s}. post s \<le> post b \<longrightarrow> settled E s V post idom b"
      using duringD(7) [OF run] \<open>\<And>x. x \<in> V \<Longrightarrow> post x = post s \<Longrightarrow> x = s\<close> by (metis DiffE insertI1 le_less Suc_le_eq)
  qed (use duringD [OF run] in auto)
qed

section \<open>The dominators\<close>

definition stable :: "('a \<Rightarrow> 'a option) \<Rightarrow> bool" where
  \<comment> \<open>every pointer is an ancestor of all the predecessors\<close>
  "stable idom = (\<forall>b \<in> V - {s}. \<exists>d. idom b = Some d \<and> (\<forall>p \<in> V. (p, b) \<in> E \<longrightarrow> chain s idom p d))"

lemma walk_in: "walk E u xs v \<Longrightarrow> u \<in> V \<Longrightarrow> v \<in> V"
  by (induction xs arbitrary: u) (auto dest: closed)

lemma chain_dominates:
  assumes "stable idom" and "walk E s xs z" and "chain s idom z a"
  shows "a \<in> set (s # xs)"
  using assms(2,3)
proof (induction xs arbitrary: z rule: rev_induct)
  case Nil
  have "a = s" using Nil(2) Nil(1) unfolding chain_def by (auto simp: pointers_def elim: converse_rtranclE)
  then show ?case by simp
next
  case (snoc x xs)
  obtain p where p: "x = z" "walk E s xs p" "(p, z) \<in> E" using snoc.prems(1) by (auto simp: walk_snoc)
  have pV: "p \<in> V" "z \<in> V" using walk_in [OF p(2) start] closed p(3) by blast+
  show ?case
  proof (cases "a = z \<or> z = s")
    case True
    have "a = s" if "z = s" using snoc.prems(2) that unfolding chain_def by (auto simp: pointers_def elim: converse_rtranclE)
    then show ?thesis using True p(1) by auto
  next
    case False
    then obtain d where d: "idom z = Some d" "chain s idom p d" using assms(1) pV p(3) unfolding stable_def by blast
    have "chain s idom d a" using snoc.prems(2) False d(1) unfolding chain_def
      by (auto simp: pointers_def elim: converse_rtranclE)
    then show ?thesis using snoc.IH [OF p(2) chain_trans [OF d(2)]] by auto
  qed
qed

lemma chain_is_dominance:
  assumes "between idom" and "dom idom = V" and "stable idom" and "z \<in> V"
  shows "chain s idom z a = onEveryPath E s a z"
proof
  show "onEveryPath E s a z" if "chain s idom z a"
    unfolding onEveryPath_def using chain_dominates [OF assms(3) _ that] by blast
  show "chain s idom z a" if "onEveryPath E s a z"
    by (rule complete_chain [OF _ _ _ that]) (use assms in \<open>auto simp: startOk_def\<close>)
qed

end

end
