(* ===== verification/Dominance_Fixpoint.thy ===== *)
theory Dominance_Fixpoint
  imports Dominance_Pass
begin

text \<open>
  The code's own loops against the proof of the dominators: \<open>intersect\<close> returns the lowest common node of two chains,
  the loop over the predecessors that of all of them, a pass is a sequence of the updates studied in
  \<open>Dominance_Pass\<close>, and the passes end with pointers that no pass changes.
\<close>

section \<open>The predecessors\<close>

fun firstOnly :: "('k \<times> 'v list) list \<Rightarrow> bool" where
  \<comment> \<open>a repeated key has nothing after its first entry\<close>
  "firstOnly [] = True"
| "firstOnly ((k, v) # xs) = ((\<forall>(k', v') \<in> set xs. k' = k \<longrightarrow> v' = []) \<and> firstOnly xs)"

lemma firstOnly_set: "firstOnly xs \<Longrightarrow> firstOnly (obj_set k v xs)"
proof (induction xs rule: firstOnly.induct)
  case (2 k' v' xs)
  then show ?case using set_obj_set [of _ _ k v xs] by fastforce
qed simp

lemma firstOnly_get: "firstOnly xs \<Longrightarrow> (k, v) \<in> set xs \<Longrightarrow> v \<noteq> [] \<Longrightarrow> obj_get xs k = Some v"
  by (induction xs rule: firstOnly.induct) auto

lemma firstOnly_edge: "firstOnly succ \<Longrightarrow> (\<exists>vs. (u, vs) \<in> set succ \<and> v \<in> set vs) = ((u, v) \<in> edgesOf succ)"
proof
  assume f: "firstOnly succ" and "\<exists>vs. (u, vs) \<in> set succ \<and> v \<in> set vs"
  then obtain vs where "(u, vs) \<in> set succ" "v \<in> set vs" by blast
  moreover from this have "obj_get succ u = Some vs" using firstOnly_get [OF f] by force
  ultimately show "(u, v) \<in> edgesOf succ" by (simp add: edgesOf_def neighbors_def)
next
  assume "(u, v) \<in> edgesOf succ"
  then show "\<exists>vs. (u, vs) \<in> set succ \<and> v \<in> set vs"
    by (cases "obj_get succ u") (auto simp: edgesOf_def neighbors_def dest: map_of_SomeD)
qed

lemma inner_preds:
  "set (orElse (obj_get (foldl (\<lambda>m v. if v \<in> V then obj_set v (orElse (obj_get m v) [] @ [u]) m else m) m vs) b) [])
     = set (orElse (obj_get m b) []) \<union> (if b \<in> V \<and> b \<in> set vs then {u} else {})"
  by (induction vs arbitrary: m) (auto simp: obj_get_set)

lemma outer_preds:
  "set (orElse (obj_get (foldl (\<lambda>m (u, vs). if u \<notin> V then m
        else foldl (\<lambda>m v. if v \<in> V then obj_set v (orElse (obj_get m v) [] @ [u]) m else m) m vs) m succ) b) [])
     = set (orElse (obj_get m b) []) \<union> {u \<in> V. b \<in> V \<and> (\<exists>vs. (u, vs) \<in> set succ \<and> b \<in> set vs)}"
proof (induction succ arbitrary: m)
  case (Cons p succ)
  obtain u vs where "p = (u, vs)" by (cases p)
  then show ?case by (cases "u \<in> V") (auto simp: Cons.IH inner_preds)
qed simp

lemma map_of_nils: "orElse (obj_get (map (\<lambda>n. (n, [])) xs) b) [] = []"
  by (induction xs) (auto simp: orElse_def)

lemma preds_of:
  "firstOnly succ \<Longrightarrow> b \<in> set visited
     \<Longrightarrow> set (orElse (obj_get (predMap succ visited) b) []) = {u \<in> set visited. (u, b) \<in> edgesOf succ}"
  by (auto simp: predMap_def outer_preds map_of_nils firstOnly_edge)

lemma nodes_foldl:
  "firstOnly m \<Longrightarrow> firstOnly (foldl (\<lambda>succ e. obj_set (ed_from e) (orElse (obj_get succ (ed_from e)) [] @ [ed_to e]) succ) m es)"
  by (induction es arbitrary: m) (simp_all add: firstOnly_set)

lemma firstOnly_nils: "firstOnly (map (\<lambda>p. (fst p, [])) xs)"
  by (induction xs) auto

lemma succMap_first: "firstOnly (succMap g)"
  by (simp add: succMap_def nodes_foldl firstOnly_nils)

lemma succ_foldl:
  "set (orElse (obj_get (foldl (\<lambda>succ e. obj_set (ed_from e) (orElse (obj_get succ (ed_from e)) [] @ [ed_to e]) succ) m es) u) [])
     = set (orElse (obj_get m u) []) \<union> {ed_to e | e. e \<in> set es \<and> ed_from e = u}"
  by (induction es arbitrary: m) (auto simp: obj_get_set)

definition graphEdges :: "Graph \<Rightarrow> (ustring \<times> ustring) set" where
  "graphEdges g = {(ed_from e, ed_to e) | e. e \<in> set (gr_edges g)}"

lemma succMap_edges: "edgesOf (succMap g) = graphEdges g"
proof -
  have "orElse (obj_get (map (\<lambda>p. (fst p, [])) (gr_nodes g)) u) [] = ([] :: ustring list)" for u
    by (induction "gr_nodes g") (auto simp: orElse_def map_of_eq_None_iff split: option.splits dest!: map_of_SomeD)
  then show ?thesis by (auto simp: edgesOf_def neighbors_def succMap_def succ_foldl graphEdges_def)
qed


section \<open>The lowest common node of two chains\<close>

abbreviation dfsNodes :: "(ustring \<times> ustring list) list \<Rightarrow> ustring \<Rightarrow> ustring set" where
  "dfsNodes succ start \<equiv> set (df_visited (dfsFrom succ start))"
abbreviation dfsNums :: "(ustring \<times> ustring list) list \<Rightarrow> ustring \<Rightarrow> (ustring \<times> nat) list" where
  "dfsNums succ start \<equiv> df_postNum (dfsFrom succ start)"
abbreviation idomWp :: "(ustring \<times> ustring list) list \<Rightarrow> ustring \<Rightarrow> (ustring \<times> ustring) list \<Rightarrow> bool" where
  "idomWp succ start idom \<equiv>
     wellPointed (treeOf (dfsNodes succ start) start (dfsParent succ start)) (dfsNodes succ start) start (obj_get idom)"

lemma chain_unfold: "chain s idom z a = (z = a \<or> (z \<noteq> s \<and> (\<exists>y. idom z = Some y \<and> chain s idom y a)))"
proof
  show "z = a \<or> (z \<noteq> s \<and> (\<exists>y. idom z = Some y \<and> chain s idom y a))" if "chain s idom z a"
    using that unfolding chain_def by (auto simp: pointers_def elim: converse_rtranclE)
qed (auto intro: chain_step)

lemma numLess_post:
  "x \<in> dfsNodes succ start \<Longrightarrow> y \<in> dfsNodes succ start
     \<Longrightarrow> numLess (obj_get (dfsNums succ start) x) (obj_get (dfsNums succ start) y) = (postOf succ start x < postOf succ start y)"
  by (simp add: numLess_def postOf_Some)

lemma idom_in: "idomWp succ start idom \<Longrightarrow> obj_get idom x \<noteq> None \<Longrightarrow> x \<in> dfsNodes succ start"
  unfolding wellPointed_def by blast

lemma start_highest: "x \<in> dfsNodes succ start \<Longrightarrow> postOf succ start x \<le> postOf succ start start"
  using dfsn.anc_numbers [OF dfsn.anc_start] .

lemma climb_at:
  "f1 \<in> dfsNodes succ start \<Longrightarrow> f2 \<in> dfsNodes succ start \<Longrightarrow>
   climb (dfsNums succ start) idom (Some f1) (Some f2) =
     (if postOf succ start f1 < postOf succ start f2 then climb (dfsNums succ start) idom (obj_get idom f1) (Some f2) else Some (Some f1))"
  by (subst climb.simps) (simp add: numLess_post)

lemma climb_up:
  assumes w: "idomWp succ start idom" and f1: "obj_get idom f1 \<noteq> None" and f2: "f2 \<in> dfsNodes succ start"
  shows "\<exists>g. climb (dfsNums succ start) idom (Some f1) (Some f2) = Some (Some g) \<and> chain start (obj_get idom) f1 g
     \<and> postOf succ start f2 \<le> postOf succ start g
     \<and> (\<forall>e. chain start (obj_get idom) f1 e \<longrightarrow> postOf succ start f2 \<le> postOf succ start e \<longrightarrow> chain start (obj_get idom) g e)"
  using dfsn.chain_start [OF w f1] f1
proof (induction rule: chain_induct)
  case here
  have "climb (dfsNums succ start) idom (Some start) (Some f2) = Some (Some start)"
    using start_highest [OF f2] climb_at [OF idom_in [OF w here] f2] by simp
  then show ?case using start_highest [OF f2] by (intro exI [of _ start]) simp
next
  case (step z y)
  note z = idom_in [OF w step.prems] and y = dfsn.wp_pointer [OF w step.hyps(2,1)]
  show ?case
  proof (cases "postOf succ start z < postOf succ start f2")
    case True
    obtain g where g: "climb (dfsNums succ start) idom (Some y) (Some f2) = Some (Some g)" "chain start (obj_get idom) y g"
        "postOf succ start f2 \<le> postOf succ start g"
        "\<And>e. chain start (obj_get idom) y e \<Longrightarrow> postOf succ start f2 \<le> postOf succ start e \<Longrightarrow> chain start (obj_get idom) g e"
      using step.IH y by blast
    have "climb (dfsNums succ start) idom (Some z) (Some f2) = Some (Some g)"
      using g(1) True climb_at [OF z f2] step.hyps(2) by simp
    moreover have "chain start (obj_get idom) z g" using chain_step [of "obj_get idom"] step.hyps(1,2) g(2) by blast
    moreover have "chain start (obj_get idom) g e"
      if "chain start (obj_get idom) z e" "postOf succ start f2 \<le> postOf succ start e" for e
    proof (rule g(4) [OF _ that(2)])
      have "z \<noteq> e" using that(2) True by auto
      then show "chain start (obj_get idom) y e" using that(1) step.hyps(2) by (subst (asm) chain_unfold) simp
    qed
    ultimately show ?thesis using g(3) by blast
  next
    case False
    then have "climb (dfsNums succ start) idom (Some z) (Some f2) = Some (Some z)" using climb_at [OF z f2] by simp
    then show ?thesis using False by (intro exI [of _ z]) simp
  qed
qed

lemma intersect_meets:
  "idomWp succ start idom \<Longrightarrow> obj_get idom f1 \<noteq> None \<Longrightarrow> obj_get idom f2 \<noteq> None
     \<Longrightarrow> \<exists>m. intersect (dfsNums succ start) idom (Some f1) (Some f2) = Some (Some m) \<and> obj_get idom m \<noteq> None
          \<and> (\<forall>e. chain start (obj_get idom) m e = (chain start (obj_get idom) f1 e \<and> chain start (obj_get idom) f2 e))"
proof (induction "(postOf succ start start - postOf succ start f1) + (postOf succ start start - postOf succ start f2)"
    arbitrary: f1 f2 rule: less_induct)
  case less
  note w = less.prems(1)
  show ?case
  proof (cases "f1 = f2")
    case True
    then have "intersect (dfsNums succ start) idom (Some f1) (Some f2) = Some (Some f1)" by (simp add: intersect.simps)
    then show ?thesis using True less.prems(2) by auto
  next
    case False
    let ?p = "postOf succ start" and ?c = "chain start (obj_get idom)"
    note v1 = idom_in [OF w less.prems(2)] and v2 = idom_in [OF w less.prems(3)]
    obtain g1 where g1: "climb (dfsNums succ start) idom (Some f1) (Some f2) = Some (Some g1)" "?c f1 g1" "?p f2 \<le> ?p g1"
        "\<And>e. ?c f1 e \<Longrightarrow> ?p f2 \<le> ?p e \<Longrightarrow> ?c g1 e"
      using climb_up [OF w less.prems(2) v2] by blast
    have d1: "obj_get idom g1 \<noteq> None" by (rule dfsn.chain_defined [OF w g1(2) less.prems(2)])
    note u1 = idom_in [OF w d1]
    obtain g2 where g2: "climb (dfsNums succ start) idom (Some f2) (Some g1) = Some (Some g2)" "?c f2 g2" "?p g1 \<le> ?p g2"
        "\<And>e. ?c f2 e \<Longrightarrow> ?p g1 \<le> ?p e \<Longrightarrow> ?c g2 e"
      using climb_up [OF w less.prems(3) u1] by blast
    have d2: "obj_get idom g2 \<noteq> None" by (rule dfsn.chain_defined [OF w g2(2) less.prems(3)])
    note u2 = idom_in [OF w d2]
    have same: "(?c g1 e \<and> ?c g2 e) = (?c f1 e \<and> ?c f2 e)" for e
    proof
      assume e: "?c g1 e \<and> ?c g2 e"
      show "?c f1 e \<and> ?c f2 e" using chain_trans [OF g1(2)] chain_trans [OF g2(2)] e by blast
    next
      assume e: "?c f1 e \<and> ?c f2 e"
      then have "?c g1 e" using g1(4) dfsn.chain_numbers [OF w] by blast
      then show "?c g1 e \<and> ?c g2 e" using g2(4) dfsn.chain_numbers [OF w] e by blast
    qed
    have "?p f1 \<noteq> ?p f2" using False v1 v2 dfsn.numbers [of succ start] by (auto dest: inj_onD)
    moreover have "?p f1 \<le> ?p g1" "?p f2 \<le> ?p g2" using dfsn.chain_numbers [OF w] g1(2) g2(2) by blast+
    moreover have "?p g1 \<le> ?p start" "?p g2 \<le> ?p start" using start_highest u1 u2 by blast+
    ultimately have "(?p start - ?p g1) + (?p start - ?p g2) < (?p start - ?p f1) + (?p start - ?p f2)"
      using g1(3) g2(3) by linarith
    then obtain m where m: "intersect (dfsNums succ start) idom (Some g1) (Some g2) = Some (Some m)" "obj_get idom m \<noteq> None"
        "\<And>e. ?c m e = (?c g1 e \<and> ?c g2 e)"
      using less.hyps w d1 d2 by blast
    have "intersect (dfsNums succ start) idom (Some f1) (Some f2) = Some (Some m)"
      by (subst intersect.simps) (simp add: False g1(1) g2(1) m(1))
    then show ?thesis using m(2,3) same by blast
  qed
qed

section \<open>The new pointer of a node\<close>

lemma newIdom_meets:
  assumes w: "idomWp succ start idom"
  shows "obj_get idom a \<noteq> None
     \<Longrightarrow> \<exists>m. newIdom (dfsNums succ start) idom ps (Some a) = Some (Some m) \<and> obj_get idom m \<noteq> None
          \<and> (\<forall>e. chain start (obj_get idom) m e =
               (chain start (obj_get idom) a e \<and> (\<forall>p \<in> set ps. obj_get idom p \<noteq> None \<longrightarrow> chain start (obj_get idom) p e)))"
proof (induction ps arbitrary: a)
  case (Cons p ps)
  show ?case
  proof (cases "obj_get idom p = None")
    case True
    then show ?thesis using Cons.IH [OF Cons.prems] by simp
  next
    case False
    obtain r where r: "intersect (dfsNums succ start) idom (Some p) (Some a) = Some (Some r)" "obj_get idom r \<noteq> None"
        "\<And>e. chain start (obj_get idom) r e = (chain start (obj_get idom) p e \<and> chain start (obj_get idom) a e)"
      using intersect_meets [OF w False Cons.prems] by blast
    show ?thesis using Cons.IH [OF r(2)] False by (auto simp: r(1,3))
  qed
qed simp

lemma newIdom_common:
  assumes w: "idomWp succ start idom" and p: "p \<in> set ps" "obj_get idom p \<noteq> None"
  shows "\<exists>m. newIdom (dfsNums succ start) idom ps None = Some (Some m)
     \<and> common start (obj_get idom) {p \<in> set ps. obj_get idom p \<noteq> None} m"
  using p
proof (induction ps)
  case (Cons q ps)
  show ?case
  proof (cases "obj_get idom q = None")
    case True
    then have "{p \<in> set (q # ps). obj_get idom p \<noteq> None} = {p \<in> set ps. obj_get idom p \<noteq> None}" by auto
    moreover have "p \<in> set ps" using Cons.prems True by auto
    ultimately show ?thesis using Cons.IH [OF _ Cons.prems(2)] True by simp
  next
    case False
    obtain m where m: "newIdom (dfsNums succ start) idom ps (Some q) = Some (Some m)"
        "\<And>e. chain start (obj_get idom) m e =
           (chain start (obj_get idom) q e \<and> (\<forall>p \<in> set ps. obj_get idom p \<noteq> None \<longrightarrow> chain start (obj_get idom) p e))"
      using newIdom_meets [OF w False] by blast
    have "common start (obj_get idom) {p \<in> set (q # ps). obj_get idom p \<noteq> None} m"
      using m(2) m(2) [of m] False by (auto simp: common_def simp del: not_None_eq)
    then show ?thesis using m(1) False by auto
  qed
qed simp

section \<open>A pass\<close>

abbreviation idomBetween :: "(ustring \<times> ustring list) list \<Rightarrow> ustring \<Rightarrow> (ustring \<times> ustring) list \<Rightarrow> bool" where
  "idomBetween succ start idom \<equiv>
     startOk (treeOf (dfsNodes succ start) start (dfsParent succ start)) (edgesOf succ) (dfsNodes succ start) start (postOf succ start)
       (obj_get idom)"
abbreviation idomDuring ::
  "(ustring \<times> ustring list) list \<Rightarrow> ustring \<Rightarrow> (ustring \<times> ustring) list \<Rightarrow> nat \<Rightarrow> (ustring \<times> ustring) list \<Rightarrow> bool" where
  "idomDuring succ start idom0 k idom \<equiv>
     passOk (treeOf (dfsNodes succ start) start (dfsParent succ start)) (edgesOf succ) (dfsNodes succ start) start (postOf succ start)
       (obj_get idom0) k (obj_get idom)"

definition pointerWork :: "(ustring \<times> ustring list) list \<Rightarrow> ustring \<Rightarrow> (ustring \<times> ustring) list \<Rightarrow> nat" where
  \<comment> \<open>how far the pointers still are from the start\<close>
  "pointerWork succ start idom =
     (\<Sum>x \<in> dfsNodes succ start. case obj_get idom x of
        None \<Rightarrow> Suc (postOf succ start start) | Some y \<Rightarrow> postOf succ start start - postOf succ start y)"

lemma pointerWork_less:
  assumes b: "b \<in> dfsNodes succ start" and d: "d \<in> dfsNodes succ start" "obj_get idom b \<noteq> Some d"
    and up: "\<And>old. obj_get idom b = Some old \<Longrightarrow> old \<in> dfsNodes succ start \<and> postOf succ start old \<le> postOf succ start d"
  shows "pointerWork succ start (obj_set b d idom) < pointerWork succ start idom"
  unfolding pointerWork_def
proof (rule sum_strict_mono_ex1)
  let ?p = "postOf succ start"
  have b': "(case obj_get (obj_set b d idom) b of None \<Rightarrow> Suc (?p start) | Some y \<Rightarrow> ?p start - ?p y)
      < (case obj_get idom b of None \<Rightarrow> Suc (?p start) | Some y \<Rightarrow> ?p start - ?p y)"
  proof (cases "obj_get idom b")
    case (Some old)
    have "?p old \<noteq> ?p d" using up [OF Some] d Some dfsn.numbers [of succ start] by (auto dest: inj_onD)
    then have "?p old < ?p d" using up [OF Some] by simp
    then have "?p start - ?p d < ?p start - ?p old" using start_highest [OF d(1)] by linarith
    then show ?thesis using Some by (simp add: obj_get_set)
  qed (simp add: obj_get_set)
  then show "\<exists>x \<in> dfsNodes succ start. (case obj_get (obj_set b d idom) x of None \<Rightarrow> Suc (?p start) | Some y \<Rightarrow> ?p start - ?p y)
      < (case obj_get idom x of None \<Rightarrow> Suc (?p start) | Some y \<Rightarrow> ?p start - ?p y)" using b by blast
  show "\<forall>x \<in> dfsNodes succ start. (case obj_get (obj_set b d idom) x of None \<Rightarrow> Suc (?p start) | Some y \<Rightarrow> ?p start - ?p y)
      \<le> (case obj_get idom x of None \<Rightarrow> Suc (?p start) | Some y \<Rightarrow> ?p start - ?p y)"
    using b' by (auto simp: obj_get_set)
qed simp

lemma update_is_fun_upd: "obj_get (obj_set b d idom) = (obj_get idom)(b \<mapsto> d)"
  by (rule ext) (simp add: obj_get_set)

text \<open>One node of a pass: the new pointer exists, and is the lowest common node of the visited predecessors.\<close>

lemma visit_common:
  assumes first: "firstOnly succ" and run: "idomDuring succ start idom0 (Suc (postOf succ start b)) idom"
    and b: "b \<in> dfsNodes succ start" "b \<noteq> start"
  shows "\<exists>d. newIdom (dfsNums succ start) idom (orElse (obj_get (predMap succ (df_visited (dfsFrom succ start))) b) []) None = Some (Some d)
     \<and> common start (obj_get idom) (dfsn.readyPreds succ start (obj_get idom) b) d"
proof -
  let ?ps = "orElse (obj_get (predMap succ (df_visited (dfsFrom succ start))) b) []"
  have ready: "{p \<in> set ?ps. obj_get idom p \<noteq> None} = dfsn.readyPreds succ start (obj_get idom) b"
    unfolding preds_of [OF first b(1)] dfsn.readyPreds_def by auto
  moreover have "dfsParent succ start b \<in> dom (obj_get idom)" using dfsn.parent [OF b] dfsn.duringD(3) [OF run] by auto
  then have "obj_get idom (dfsParent succ start b) \<noteq> None" by blast
  moreover have "dfsParent succ start b \<in> set ?ps" using dfsn.parent [OF b] unfolding preds_of [OF first b(1)] by simp
  ultimately show ?thesis using newIdom_common [OF dfsn.duringD(1) [OF run]] unfolding ready [symmetric] by blast
qed

definition passSettles :: "(ustring \<times> ustring list) list \<Rightarrow> ustring \<Rightarrow> (ustring \<times> ustring) list \<Rightarrow> nat \<Rightarrow> bool" where
  \<comment> \<open>the nodes below \<open>k\<close> have the pointers a pass would give them\<close>
  "passSettles succ start idom k =
     (\<forall>b \<in> dfsNodes succ start - {start}. postOf succ start b < k
        \<longrightarrow> (\<exists>d. obj_get idom b = Some d \<and> common start (obj_get idom) (dfsn.readyPreds succ start (obj_get idom) b) d))"

lemma idomPass_during:
  assumes first: "firstOnly succ" and start: "idomBetween succ start idom0"
  shows "k \<le> length (df_rpo (dfsFrom succ start)) \<Longrightarrow> idomDuring succ start idom0 k idom \<Longrightarrow> distinct (map fst idom)
     \<Longrightarrow> \<exists>r. idomPass (dfsNums succ start) (predMap succ (df_visited (dfsFrom succ start))) start
            (rev (take k (df_rpo (dfsFrom succ start)))) idom changed = Some r
        \<and> idomDuring succ start idom0 0 (fst r) \<and> distinct (map fst (fst r))
        \<and> pointerWork succ start (fst r) \<le> pointerWork succ start idom
        \<and> (snd r \<and> \<not> changed \<longrightarrow> pointerWork succ start (fst r) < pointerWork succ start idom)
        \<and> (\<not> snd r \<longrightarrow> \<not> changed \<and> fst r = idom \<and> passSettles succ start idom k)"
proof (induction k arbitrary: idom changed)
  case (Suc k)
  let ?rpo = "df_rpo (dfsFrom succ start)" and ?pass = "idomPass (dfsNums succ start) (predMap succ (df_visited (dfsFrom succ start))) start"
  define b where "b = ?rpo ! k"
  have k: "k < length ?rpo" using Suc.prems(1) by simp
  have b: "b \<in> dfsNodes succ start" using k nth_mem [of k ?rpo] by (simp add: b_def dfs_rpo)
  have num: "postOf succ start b = k" using postNum_nth [OF k] postOf_Some [OF b] by (simp add: b_def)
  have below: "x = b" if "x \<in> dfsNodes succ start" "postOf succ start x = k" for x
    using visited_nth(2) [OF that(1)] that(2) by (simp add: b_def)
  have list: "rev (take (Suc k) ?rpo) = b # rev (take k ?rpo)" using k by (simp add: take_Suc_conv_app_nth b_def)
  show ?case
  proof (cases "b = start")
    case True
    then have "idomDuring succ start idom0 k idom" using dfsn.start_skips [of succ start "obj_get idom0" "obj_get idom"] Suc.prems(2) num by simp
    moreover have "passSettles succ start idom k = passSettles succ start idom (Suc k)"
      using below True unfolding passSettles_def less_Suc_eq by blast
    ultimately show ?thesis unfolding list using Suc.IH [of idom changed] Suc.prems True by simp
  next
    case False
    have run: "idomDuring succ start idom0 (Suc (postOf succ start b)) idom" using Suc.prems(2) num by simp
    obtain d where d: "newIdom (dfsNums succ start) idom (orElse (obj_get (predMap succ (df_visited (dfsFrom succ start))) b) []) None = Some (Some d)"
        "common start (obj_get idom) (dfsn.readyPreds succ start (obj_get idom) b) d"
      using visit_common [OF first run b False] by blast
    have step: "idomDuring succ start idom0 k (obj_set b d idom)"
      using dfsn.pass_step [OF start run b False d(2)] unfolding update_is_fun_upd num .
    have dV: "d \<in> dfsNodes succ start" using dfsn.target_above(6) [OF run b False d(2)] .
    show ?thesis
    proof (cases "obj_get idom b = Some d")
      case True
      then have same: "obj_get (obj_set b d idom) = obj_get idom" by (auto simp: update_is_fun_upd)
      have "passSettles succ start idom k \<Longrightarrow> passSettles succ start idom (Suc k)"
        using below d(2) True unfolding passSettles_def less_Suc_eq by blast
      moreover have "?pass (b # rev (take k ?rpo)) idom changed = ?pass (rev (take k ?rpo)) idom changed"
        using False d(1) True by simp
      ultimately show ?thesis unfolding list using Suc.IH [of idom changed] step [unfolded same] Suc.prems by auto
    next
      case new: False
      have "pointerWork succ start (obj_set b d idom) < pointerWork succ start idom"
      proof (rule pointerWork_less [OF b dV new])
        fix old assume old: "obj_get idom b = Some old"
        show "old \<in> dfsNodes succ start \<and> postOf succ start old \<le> postOf succ start d"
          using dfsn.wp_pointer [OF dfsn.duringD(1) [OF run] old False] dfsn.up_step [OF start run b False d(2) old] by simp
      qed
      moreover have "?pass (b # rev (take k ?rpo)) idom changed = ?pass (rev (take k ?rpo)) (obj_set b d idom) True"
        using False d(1) new by simp
      moreover have "distinct (map fst (obj_set b d idom))" using Suc.prems(3) by (simp add: distinct_update)
      ultimately show ?thesis unfolding list using Suc.IH [of "obj_set b d idom" True] step k by fastforce
    qed
  qed
qed (simp add: passSettles_def)

section \<open>The fixpoint\<close>

definition idomDone :: "(ustring \<times> ustring list) list \<Rightarrow> ustring \<Rightarrow> (ustring \<times> ustring) list \<Rightarrow> bool" where
  "idomDone succ start idom =
     (idomWp succ start idom \<and> distinct (map fst idom) \<and> dom (obj_get idom) = dfsNodes succ start
      \<and> (\<forall>z \<in> dfsNodes succ start. \<forall>a. chain start (obj_get idom) z a = onEveryPath (edgesOf succ) start a z))"

lemma settles_done:
  assumes between: "idomBetween succ start idom" "dom (obj_get idom) = dfsNodes succ start" and keys: "distinct (map fst idom)"
    and settles: "passSettles succ start idom (length (df_rpo (dfsFrom succ start)))"
  shows "idomDone succ start idom"
proof -
  have "dfsn.stable succ start (obj_get idom)"
    unfolding dfsn.stable_def
  proof
    fix b assume b: "b \<in> dfsNodes succ start - {start}"
    then obtain d where d: "obj_get idom b = Some d" "common start (obj_get idom) (dfsn.readyPreds succ start (obj_get idom) b) d"
      using settles visited_nth(1) unfolding passSettles_def by blast
    have "p \<in> dfsn.readyPreds succ start (obj_get idom) b" if "p \<in> dfsNodes succ start" "(p, b) \<in> edgesOf succ" for p
      using that between(2) by (auto simp: dfsn.readyPreds_def)
    then show "\<exists>d. obj_get idom b = Some d \<and> (\<forall>p \<in> dfsNodes succ start. (p, b) \<in> edgesOf succ \<longrightarrow> chain start (obj_get idom) p d)"
      using d unfolding common_def by blast
  qed
  then have "chain start (obj_get idom) z a = onEveryPath (edgesOf succ) start a z" if "z \<in> dfsNodes succ start" for z a
    by (rule dfsn.chain_is_dominance [OF between _ that])
  moreover have "idomWp succ start idom" using between(1) by (simp add: startOk_def)
  ultimately show ?thesis using between(2) keys unfolding idomDone_def by blast
qed

lemma idomFixpoint_done:
  assumes first: "firstOnly succ"
  shows "idomBetween succ start idom \<Longrightarrow> distinct (map fst idom)
     \<Longrightarrow> \<exists>r. idomFixpoint (dfsNums succ start) (predMap succ (df_visited (dfsFrom succ start))) start (rev (df_rpo (dfsFrom succ start))) idom
            = Some r \<and> idomDone succ start r"
proof (induction "pointerWork succ start idom" arbitrary: idom rule: less_induct)
  case less
  let ?rpo = "df_rpo (dfsFrom succ start)"
  let ?pass = "idomPass (dfsNums succ start) (predMap succ (df_visited (dfsFrom succ start))) start (rev ?rpo)"
  have "0 < length ?rpo" using visited_nth(1) [OF dfs_rpo(3)] by (metis gr_implies_not0 neq0_conv)
  then have "idomDuring succ start idom (length ?rpo) idom" using dfsn.during_first [OF less.prems(1)] visited_nth(1) by blast
  then obtain r where r: "?pass idom False = Some r" "idomDuring succ start idom 0 (fst r)" "distinct (map fst (fst r))"
      "snd r \<longrightarrow> pointerWork succ start (fst r) < pointerWork succ start idom"
      "\<not> snd r \<longrightarrow> fst r = idom \<and> passSettles succ start idom (length ?rpo)"
    using idomPass_during [OF first less.prems(1) order_refl _ less.prems(2), of False] by auto
  have b: "idomBetween succ start (fst r) \<and> dom (obj_get (fst r)) = dfsNodes succ start"
    by (rule dfsn.between_after [OF r(2) less.prems(1)])
  show ?case
  proof (cases "snd r")
    case True
    then obtain q where q: "idomFixpoint (dfsNums succ start) (predMap succ (df_visited (dfsFrom succ start))) start (rev ?rpo) (fst r) = Some q"
        "idomDone succ start q"
      using less.hyps [of "fst r"] b r(3,4) by blast
    then show ?thesis using r(1) True by (subst idomFixpoint.simps) simp
  next
    case False
    then have "idomDone succ start (fst r)" using settles_done [of succ start "fst r"] b r(3,5) by simp
    then show ?thesis using r(1) False by (subst idomFixpoint.simps) simp
  qed
qed

lemma idomBetween_first: "idomBetween succ start [(start, start)]"
  using dfs_rpo(3) [of start succ] by (auto simp: startOk_def wellPointed_def keepsDominators_def split: if_splits)

lemma idomFixpoint_dominators:
  "firstOnly succ \<Longrightarrow> \<exists>idom. idomFixpoint (dfsNums succ start) (predMap succ (df_visited (dfsFrom succ start))) start
     (rev (df_rpo (dfsFrom succ start))) [(start, start)] = Some idom \<and> idomDone succ start idom"
  using idomFixpoint_done idomBetween_first by simp

end
