(* ===== verification/Dominance_Intervals.thy ===== *)
theory Dominance_Intervals
  imports Dominance_Fixpoint
begin

text \<open>
  The walk over the dominator tree ends, and the interval of a node contains that of another exactly when the one is
  on the chain of pointers of the other; with the fixpoint, the oracle is the dominance of its specification.
\<close>

section \<open>The children\<close>

lemma children_foldl:
  "orElse (obj_get (foldl (\<lambda>children (n, d). if n \<noteq> d then obj_set d (orElse (obj_get children d) [] @ [n]) children else children) m ps) x) []
     = orElse (obj_get m x) [] @ map fst (filter (\<lambda>(n, d). n \<noteq> d \<and> d = x) ps)"
proof (induction ps arbitrary: m)
  case (Cons p ps)
  obtain n d where "p = (n, d)" by (cases p)
  then show ?case by (cases "n = d") (auto simp: Cons.IH obj_get_set)
qed simp

lemma children_of: "neighbors (childMap visited idom) x = map fst (filter (\<lambda>(n, d). n \<noteq> d \<and> d = x) idom)"
  by (simp add: neighbors_def childMap_def children_foldl map_of_nils)

section \<open>Regions of the walk\<close>

definition encloses :: "Intervals \<Rightarrow> ustring \<Rightarrow> ustring \<Rightarrow> bool" where
  "encloses s y z =
     (\<exists>a b c d. obj_get (iv_enter s) y = Some a \<and> obj_get (iv_exit s) y = Some b
        \<and> obj_get (iv_enter s) z = Some c \<and> obj_get (iv_exit s) z = Some d \<and> a \<le> c \<and> d \<le> b)"

definition untouched :: "ustring set \<Rightarrow> Intervals \<Rightarrow> Intervals \<Rightarrow> bool" where
  "untouched D s s' = (\<forall>z. z \<notin> D \<longrightarrow> obj_get (iv_enter s') z = obj_get (iv_enter s) z \<and> obj_get (iv_exit s') z = obj_get (iv_exit s) z)"

definition clocked :: "ustring set \<Rightarrow> Intervals \<Rightarrow> Intervals \<Rightarrow> bool" where
  "clocked D s s' =
     (iv_clock s \<le> iv_clock s'
      \<and> (\<forall>z \<in> D. \<exists>a b. obj_get (iv_enter s') z = Some a \<and> obj_get (iv_exit s') z = Some b \<and> iv_clock s \<le> a \<and> a < b \<and> b < iv_clock s'))"

definition walked :: "(ustring \<Rightarrow> ustring \<Rightarrow> bool) \<Rightarrow> ustring set \<Rightarrow> Intervals \<Rightarrow> Intervals \<Rightarrow> bool" where
  \<comment> \<open>the walk gave the nodes of a region their intervals, which nest as the relation says\<close>
  "walked C D s s' = (untouched D s s' \<and> clocked D s s' \<and> (\<forall>y \<in> D. \<forall>z \<in> D. encloses s' y z = C z y))"

definition enterNode :: "ustring \<Rightarrow> Intervals \<Rightarrow> Intervals" where
  "enterNode c s = s\<lparr>iv_enter := obj_set c (iv_clock s) (iv_enter s), iv_clock := iv_clock s + 1\<rparr>"

definition exitNode :: "ustring \<Rightarrow> Intervals \<Rightarrow> Intervals" where
  "exitNode c s = s\<lparr>iv_exit := obj_set c (iv_clock s) (iv_exit s), iv_clock := iv_clock s + 1\<rparr>"

lemma treeWalk_down:
  "i < length (neighbors ch x) \<Longrightarrow>
   treeWalk ch ((x, i) # rest) s =
     treeWalk ch ((neighbors ch x ! i, 0) # (x, Suc i) # rest) (enterNode (neighbors ch x ! i) s)"
  by (subst treeWalk.simps) (simp add: enterNode_def Let_def)

lemma treeWalk_up:
  "\<not> i < length (neighbors ch x) \<Longrightarrow> treeWalk ch ((x, i) # rest) s = treeWalk ch rest (exitNode x s)"
  by (subst treeWalk.simps) (simp add: exitNode_def)

lemma treeWalk_end: "treeWalk ch [] s = Some s"
  by (subst treeWalk.simps) simp

lemma walked_none: "walked C {} s s"
  by (simp add: walked_def untouched_def clocked_def)

lemma encloses_same: "untouched D s s' \<Longrightarrow> y \<notin> D \<Longrightarrow> z \<notin> D \<Longrightarrow> encloses s' y z = encloses s y z"
  by (simp add: untouched_def encloses_def)

lemma clockedD:
  assumes "clocked D s s'" and "z \<in> D"
  obtains a b where "obj_get (iv_enter s') z = Some a" "obj_get (iv_exit s') z = Some b" "iv_clock s \<le> a" "a < b" "b < iv_clock s'"
  using assms unfolding clocked_def by blast

lemma walked_join:
  assumes one: "walked C D1 s s1" and two: "walked C D2 s1 s2" and apart: "D1 \<inter> D2 = {}"
    and cross: "\<And>y z. y \<in> D1 \<Longrightarrow> z \<in> D2 \<Longrightarrow> \<not> C z y \<and> \<not> C y z"
  shows "walked C (D1 \<union> D2) s s2"
proof -
  have u: "untouched D1 s s1" "untouched D2 s1 s2" and c: "clocked D1 s s1" "clocked D2 s1 s2"
    using one two by (simp_all add: walked_def)
  have same: "obj_get (iv_enter s2) z = obj_get (iv_enter s1) z \<and> obj_get (iv_exit s2) z = obj_get (iv_exit s1) z" if "z \<in> D1" for z
    using u(2) apart that unfolding untouched_def by blast
  have first: "\<exists>a b. obj_get (iv_enter s2) z = Some a \<and> obj_get (iv_exit s2) z = Some b \<and> iv_clock s \<le> a \<and> a < b \<and> b < iv_clock s1"
    if "z \<in> D1" for z
    using clockedD [OF c(1) that] same [OF that] by metis
  have "untouched (D1 \<union> D2) s s2" using u by (simp add: untouched_def)
  moreover have "clocked (D1 \<union> D2) s s2"
  proof -
    have le: "iv_clock s \<le> iv_clock s1" "iv_clock s1 \<le> iv_clock s2" using c by (simp_all add: clocked_def)
    have "\<exists>a b. obj_get (iv_enter s2) z = Some a \<and> obj_get (iv_exit s2) z = Some b \<and> iv_clock s \<le> a \<and> a < b \<and> b < iv_clock s2"
      if "z \<in> D1 \<union> D2" for z
      using that
    proof
      assume "z \<in> D1"
      then obtain a b where "obj_get (iv_enter s2) z = Some a" "obj_get (iv_exit s2) z = Some b" "iv_clock s \<le> a" "a < b" "b < iv_clock s1"
        using first by blast
      then show ?thesis using le(2) by auto
    next
      assume "z \<in> D2"
      then obtain a b where "obj_get (iv_enter s2) z = Some a" "obj_get (iv_exit s2) z = Some b" "iv_clock s1 \<le> a" "a < b" "b < iv_clock s2"
        using clockedD [OF c(2)] by blast
      then show ?thesis using le(1) by auto
    qed
    then show ?thesis using le unfolding clocked_def by simp
  qed
  moreover have "encloses s2 y z = C z y" if region: "y \<in> D1 \<union> D2" "z \<in> D1 \<union> D2" for y z
  proof -
    have apart': "\<not> encloses s2 y z \<and> \<not> encloses s2 z y" if yz: "y \<in> D1" "z \<in> D2" for y z
    proof -
      obtain a b where y: "obj_get (iv_enter s2) y = Some a" "obj_get (iv_exit s2) y = Some b" "a < b" "b < iv_clock s1"
        using first [OF yz(1)] by blast
      obtain a' b' where z: "obj_get (iv_enter s2) z = Some a'" "obj_get (iv_exit s2) z = Some b'" "iv_clock s1 \<le> a'" "a' < b'"
        using clockedD [OF c(2) yz(2)] by blast
      show ?thesis using y z by (auto simp: encloses_def)
    qed
    consider "y \<in> D1" "z \<in> D1" | "y \<in> D1" "z \<in> D2" | "y \<in> D2" "z \<in> D1" | "y \<in> D2" "z \<in> D2" using region by blast
    then show ?thesis
    proof cases
      case 1
      then have "encloses s2 y z = encloses s1 y z" using encloses_same [OF u(2)] apart by blast
      then show ?thesis using 1 one by (simp add: walked_def)
    next
      case 4
      then show ?thesis using two by (simp add: walked_def)
    qed (use apart' cross in blast)+
  qed
  ultimately show ?thesis by (simp add: walked_def)
qed

lemma walked_around:
  assumes inner: "walked C D (enterNode x s) s1" and x: "x \<notin> D" and here: "C x x" and under: "\<And>z. z \<in> D \<Longrightarrow> C z x \<and> \<not> C x z"
  shows "walked C (insert x D) s (exitNode x s1)"
proof -
  let ?s2 = "exitNode x s1"
  have u: "untouched D (enterNode x s) s1" and c: "clocked D (enterNode x s) s1" using inner by (simp_all add: walked_def)
  have le: "iv_clock s < iv_clock s1" using c by (simp add: clocked_def enterNode_def)
  have own: "obj_get (iv_enter ?s2) x = Some (iv_clock s)" "obj_get (iv_exit ?s2) x = Some (iv_clock s1)"
    using u x by (simp_all add: untouched_def exitNode_def enterNode_def obj_get_set)
  have off: "obj_get (iv_enter ?s2) z = obj_get (iv_enter s1) z" "obj_get (iv_exit ?s2) z = obj_get (iv_exit s1) z" if "z \<noteq> x" for z
    using that by (simp_all add: exitNode_def obj_get_set)
  have inside: "\<exists>a b. obj_get (iv_enter ?s2) z = Some a \<and> obj_get (iv_exit ?s2) z = Some b \<and> iv_clock s < a \<and> a < b \<and> b < iv_clock s1"
    if "z \<in> D" for z
  proof -
    have "z \<noteq> x" using that x by blast
    then show ?thesis using clockedD [OF c that] off [of z] by (simp add: enterNode_def) (metis Suc_le_lessD)
  qed
  have "untouched (insert x D) s ?s2"
    using u off unfolding untouched_def by (simp add: enterNode_def obj_get_set)
  moreover have "clocked (insert x D) s ?s2"
    unfolding clocked_def
  proof (intro conjI ballI)
    show "iv_clock s \<le> iv_clock ?s2" using le by (simp add: exitNode_def)
    fix z assume "z \<in> insert x D"
    then show "\<exists>a b. obj_get (iv_enter ?s2) z = Some a \<and> obj_get (iv_exit ?s2) z = Some b \<and> iv_clock s \<le> a \<and> a < b \<and> b < iv_clock ?s2"
    proof
      assume "z = x"
      then show ?thesis using own le by (simp add: exitNode_def)
    next
      assume "z \<in> D"
      then show ?thesis using inside by (fastforce simp: exitNode_def)
    qed
  qed
  moreover have "encloses ?s2 y z = C z y" if region: "y \<in> insert x D" "z \<in> insert x D" for y z
  proof -
    have edge: "encloses ?s2 x z \<and> \<not> encloses ?s2 z x" if "z \<in> D" for z
      using inside [OF that] own unfolding encloses_def by fastforce
    have old: "encloses ?s2 y z = encloses s1 y z" if "y \<noteq> x" "z \<noteq> x" for y z using that off by (simp add: encloses_def)
    have self: "encloses ?s2 x x" using own by (simp add: encloses_def)
    consider "y = x" "z = x" | "y = x" "z \<in> D" | "y \<in> D" "z = x" | "y \<in> D" "z \<in> D" using region by blast
    then show ?thesis
    proof cases
      case 4
      then have "y \<noteq> x" "z \<noteq> x" using x by blast+
      then show ?thesis using old inner 4 by (simp add: walked_def)
    qed (use self here edge under in simp_all)
  qed
  ultimately show ?thesis by (simp add: walked_def)
qed

section \<open>The walk\<close>

abbreviation below :: "ustring \<Rightarrow> (ustring \<times> ustring) list \<Rightarrow> ustring \<Rightarrow> ustring set" where
  "below start idom x \<equiv> {z. chain start (obj_get idom) z x}"

lemma idomDoneD:
  assumes "idomDone succ start idom"
  shows "idomWp succ start idom" "distinct (map fst idom)" "dom (obj_get idom) = dfsNodes succ start"
    "\<And>z a. z \<in> dfsNodes succ start \<Longrightarrow> chain start (obj_get idom) z a = onEveryPath (edgesOf succ) start a z"
  using assms unfolding idomDone_def by blast+

lemma kids:
  assumes done': "idomDone succ start idom"
  shows "distinct (neighbors (childMap visited idom) x)"
    "k \<in> set (neighbors (childMap visited idom) x) = (k \<noteq> start \<and> obj_get idom k = Some x)"
proof -
  note d = idomDoneD [OF done']
  show "distinct (neighbors (childMap visited idom) x)"
    unfolding children_of using d(2) by (auto simp: distinct_map intro: inj_on_subset)
  have "(k, x) \<in> set idom = (obj_get idom k = Some x)" using d(2) by simp
  moreover have "obj_get idom start = Some start" using d(1) by (simp add: wellPointed_def)
  moreover have "k \<noteq> x" if "k \<noteq> start" "obj_get idom k = Some x" using dfsn.wp_pointer [OF d(1) that(2,1)] by blast
  ultimately show "k \<in> set (neighbors (childMap visited idom) x) = (k \<noteq> start \<and> obj_get idom k = Some x)"
    unfolding children_of by force
qed

lemma kid_facts:
  assumes done': "idomDone succ start idom" and k: "k \<in> set (neighbors (childMap visited idom) x)"
  shows "k \<in> dfsNodes succ start" "postOf succ start k < postOf succ start x" "chain start (obj_get idom) k x"
proof -
  have p: "k \<noteq> start" "obj_get idom k = Some x" using k kids(2) [OF done'] by simp_all
  show "k \<in> dfsNodes succ start" using dfsn.wp_pointer [OF idomDoneD(1) [OF done'] p(2,1)] by blast
  show "postOf succ start k < postOf succ start x" using dfsn.pointer_up [OF idomDoneD(1) [OF done'] p(2,1)] .
  show "chain start (obj_get idom) k x" using p by (subst chain_unfold) simp
qed

lemma below_kids:
  assumes "idomDone succ start idom"
  shows "below start idom x = insert x (\<Union>k \<in> set (neighbors (childMap visited idom) x). below start idom k)"
proof -
  have up: "z = x \<or> (\<exists>k. k \<noteq> start \<and> obj_get idom k = Some x \<and> chain start (obj_get idom) z k)" if "chain start (obj_get idom) z x" for z
    using that unfolding chain_def by (cases rule: rtranclE) (auto simp: pointers_def)
  have "below start idom x \<subseteq> insert x (\<Union>k \<in> set (neighbors (childMap visited idom) x). below start idom k)"
  proof (intro subsetI)
    fix z assume "z \<in> below start idom x"
    then consider "z = x" | k where "k \<noteq> start" "obj_get idom k = Some x" "chain start (obj_get idom) z k" using up by blast
    then show "z \<in> insert x (\<Union>k \<in> set (neighbors (childMap visited idom) x). below start idom k)"
    proof cases
      case 2
      then have "k \<in> set (neighbors (childMap visited idom) x)" using kids(2) [OF assms] by blast
      then show ?thesis using 2(3) by blast
    qed simp
  qed
  moreover have "below start idom k \<subseteq> below start idom x" if "k \<in> set (neighbors (childMap visited idom) x)" for k
    using chain_trans [OF _ kid_facts(3) [OF assms that]] by blast
  then have "insert x (\<Union>k \<in> set (neighbors (childMap visited idom) x). below start idom k) \<subseteq> below start idom x" by auto
  ultimately show ?thesis by blast
qed

lemma kids_apart:
  assumes done': "idomDone succ start idom" and k: "k \<in> set (neighbors (childMap visited idom) x)" "l \<in> set (neighbors (childMap visited idom) x)"
    and "k \<noteq> l"
  shows "below start idom k \<inter> below start idom l = {}"
proof (rule ccontr)
  assume "below start idom k \<inter> below start idom l \<noteq> {}"
  then obtain z where "chain start (obj_get idom) z k" "chain start (obj_get idom) z l" by blast
  moreover have "\<not> chain start (obj_get idom) k l"
    if k: "k \<in> set (neighbors (childMap visited idom) x)" "l \<in> set (neighbors (childMap visited idom) x)" "k \<noteq> l" for k l
  proof
    assume "chain start (obj_get idom) k l"
    then have "chain start (obj_get idom) x l"
      using k(1,3) kids(2) [OF done', of k visited x] by (subst (asm) chain_unfold) simp
    then show False using dfsn.chain_numbers [OF idomDoneD(1) [OF done']] kid_facts(2) [OF done' k(2)] by (meson not_less)
  qed
  ultimately show False using chain_linear k \<open>k \<noteq> l\<close> by metis
qed

lemma walk_kids:
  assumes done': "idomDone succ start idom"
    and each: "\<And>k rest s. k \<in> set (neighbors (childMap visited idom) x) \<Longrightarrow>
      \<exists>s'. treeWalk (childMap visited idom) ((k, 0) # rest) (enterNode k s) = treeWalk (childMap visited idom) rest s'
         \<and> walked (chain start (obj_get idom)) (below start idom k) s s'"
  shows "i + n = length (neighbors (childMap visited idom) x) \<Longrightarrow>
    \<exists>s'. treeWalk (childMap visited idom) ((x, i) # rest) s = treeWalk (childMap visited idom) ((x, i + n) # rest) s'
       \<and> walked (chain start (obj_get idom)) (\<Union>k \<in> set (drop i (neighbors (childMap visited idom) x)). below start idom k) s s'"
proof (induction n arbitrary: i s)
  case 0
  then show ?case using walked_none by auto
next
  case (Suc n)
  let ?ch = "childMap visited idom" and ?C = "chain start (obj_get idom)"
  let ?ks = "neighbors ?ch x"
  let ?k = "?ks ! i"
  have i: "i < length ?ks" using Suc.prems by simp
  have split': "drop i ?ks = ?k # drop (Suc i) ?ks" using i by (simp add: Cons_nth_drop_Suc)
  have k: "?k \<in> set ?ks" "\<And>l. l \<in> set (drop (Suc i) ?ks) \<Longrightarrow> l \<in> set ?ks \<and> ?k \<noteq> l"
  proof -
    show "?k \<in> set ?ks" using i by simp
    have "distinct (drop i ?ks)" using kids(1) [OF done'] by (rule distinct_drop)
    then show "l \<in> set ?ks \<and> ?k \<noteq> l" if "l \<in> set (drop (Suc i) ?ks)" for l
      using that set_drop_subset [of "Suc i" ?ks] unfolding split' by auto
  qed
  obtain s1 where s1: "treeWalk ?ch ((?k, 0) # (x, Suc i) # rest) (enterNode ?k s) = treeWalk ?ch ((x, Suc i) # rest) s1"
      "walked ?C (below start idom ?k) s s1"
    using each [OF k(1)] by blast
  obtain s2 where s2: "treeWalk ?ch ((x, Suc i) # rest) s1 = treeWalk ?ch ((x, Suc i + n) # rest) s2"
      "walked ?C (\<Union>k \<in> set (drop (Suc i) ?ks). below start idom k) s1 s2"
    using Suc.IH [of "Suc i" s1] Suc.prems by auto
  have apart: "below start idom ?k \<inter> below start idom l = {}" if "l \<in> set (drop (Suc i) ?ks)" for l
    using kids_apart [OF done' k(1)] k(2) [OF that] by blast
  have all: "walked ?C (below start idom ?k \<union> (\<Union>k \<in> set (drop (Suc i) ?ks). below start idom k)) s s2"
  proof (rule walked_join [OF s1(2) s2(2)])
    show "below start idom ?k \<inter> (\<Union>k \<in> set (drop (Suc i) ?ks). below start idom k) = {}" using apart by blast
    fix y z assume "y \<in> below start idom ?k" "z \<in> (\<Union>k \<in> set (drop (Suc i) ?ks). below start idom k)"
    then obtain l where l: "l \<in> set (drop (Suc i) ?ks)" "?C y ?k" "?C z l" by blast
    show "\<not> ?C z y \<and> \<not> ?C y z" using apart [OF l(1)] l(2,3) chain_trans [OF _ l(2)] chain_trans [OF _ l(3)] by blast
  qed
  have "treeWalk ?ch ((x, i) # rest) s = treeWalk ?ch ((x, i + Suc n) # rest) s2"
    unfolding treeWalk_down [OF i] s1(1) s2(1) by simp
  then show ?case unfolding split' list.set UN_insert using all by blast
qed

lemma walk_below:
  assumes done': "idomDone succ start idom"
  shows "\<exists>s'. treeWalk (childMap visited idom) ((x, 0) # rest) (enterNode x s) = treeWalk (childMap visited idom) rest s'
     \<and> walked (chain start (obj_get idom)) (below start idom x) s s'"
proof (induction "postOf succ start x" arbitrary: x rest s rule: less_induct)
  case less
  let ?ch = "childMap visited idom" and ?C = "chain start (obj_get idom)"
  let ?kids = "\<Union>k \<in> set (neighbors ?ch x). below start idom k"
  have "\<exists>s'. treeWalk ?ch ((k, 0) # rest) (enterNode k s) = treeWalk ?ch rest s' \<and> walked ?C (below start idom k) s s'"
    if "k \<in> set (neighbors ?ch x)" for k rest s
    by (rule less.hyps [OF kid_facts(2) [OF done' that]])
  from walk_kids [OF done' this, where i = 0 and n = "length (neighbors ?ch x)" and rest = rest and s = "enterNode x s"]
  obtain s1 where s1: "treeWalk ?ch ((x, 0) # rest) (enterNode x s) = treeWalk ?ch ((x, length (neighbors ?ch x)) # rest) s1"
      "walked ?C ?kids (enterNode x s) s1"
    by auto
  have under: "?C z x \<and> \<not> ?C x z" if zk: "z \<in> ?kids" for z
  proof -
    obtain k where k: "k \<in> set (neighbors ?ch x)" "?C z k" using zk by blast
    have "postOf succ start z < postOf succ start x"
      using dfsn.chain_numbers [OF idomDoneD(1) [OF done'] k(2)] kid_facts(2) [OF done' k(1)] by linarith
    then show ?thesis using chain_trans [OF k(2) kid_facts(3) [OF done' k(1)]]
      dfsn.chain_numbers [OF idomDoneD(1) [OF done'], of x z] by linarith
  qed
  then have "x \<notin> ?kids" by fastforce
  then have "walked ?C (insert x ?kids) s (exitNode x s1)" using walked_around [OF s1(2)] under by simp
  moreover have "below start idom x = insert x ?kids" by (rule below_kids [OF done'])
  moreover have "treeWalk ?ch ((x, 0) # rest) (enterNode x s) = treeWalk ?ch rest (exitNode x s1)"
    using s1(1) by (simp add: treeWalk_up)
  ultimately show ?case by auto
qed

section \<open>The oracle\<close>

lemma dominates_region:
  assumes "walked C D \<lparr>iv_clock = 0, iv_enter = [], iv_exit = []\<rparr> s"
  shows "dominates s p n = (p \<noteq> n \<and> p \<in> D \<and> n \<in> D \<and> C n p)"
proof -
  have "obj_get (iv_enter s) z = None" if "z \<notin> D" for z using assms that by (simp add: walked_def untouched_def)
  then have "dominates s p n = (p \<noteq> n \<and> p \<in> D \<and> n \<in> D \<and> encloses s p n)"
    by (cases "p \<in> D"; cases "n \<in> D") (auto simp: dominates_def encloses_def split: option.splits)
  then show ?thesis using assms by (auto simp: walked_def)
qed

lemma oracle_dominators:
  assumes "dominanceStart g = Some start"
  shows "\<exists>d. buildRunDominance g = Some d
     \<and> (\<forall>p n. d p n = (p \<noteq> n \<and> (start, n) \<in> (graphEdges g)\<^sup>* \<and> onEveryPath (graphEdges g) start p n))"
proof -
  let ?succ = "succMap g"
  let ?visited = "df_visited (dfsFrom ?succ start)"
  obtain idom where fix': "idomFixpoint (dfsNums ?succ start) (predMap ?succ ?visited) start (rev (df_rpo (dfsFrom ?succ start))) [(start, start)]
        = Some idom" and done': "idomDone ?succ start idom"
    using idomFixpoint_dominators [OF succMap_first] by blast
  note d = idomDoneD [OF done']
  obtain s' where "treeWalk (childMap ?visited idom) [(start, 0)] (enterNode start \<lparr>iv_clock = 0, iv_enter = [], iv_exit = []\<rparr>)
        = treeWalk (childMap ?visited idom) [] s'"
      and w: "walked (chain start (obj_get idom)) (below start idom start) \<lparr>iv_clock = 0, iv_enter = [], iv_exit = []\<rparr> s'"
    using walk_below [OF done'] by blast
  then have tw: "treeWalk (childMap ?visited idom) [(start, 0)] \<lparr>iv_clock = 1, iv_enter = [(start, 0)], iv_exit = []\<rparr> = Some s'"
    by (simp add: enterNode_def treeWalk_end)
  have V: "below start idom start = set ?visited"
  proof -
    have "chain start (obj_get idom) z start" if "z \<in> set ?visited" for z
      by (rule dfsn.chain_start [OF d(1)]) (use d(3) that in blast)
    moreover have "z \<in> set ?visited" if "chain start (obj_get idom) z start" for z
      using that d(3) dfs_rpo(3) [of start ?succ] by (subst (asm) chain_unfold) blast
    ultimately show ?thesis by blast
  qed
  have reach: "n \<in> set ?visited \<longleftrightarrow> (start, n) \<in> (edgesOf ?succ)\<^sup>*" for n
  proof
    show "n \<in> set ?visited" if "(start, n) \<in> (edgesOf ?succ)\<^sup>*"
      using that by (induction rule: rtrancl_induct) (use dfs_rpo(3) dfsn.closed in blast)+
  qed (rule dfsn.reached)
  have "dominates s' p n = (p \<noteq> n \<and> n \<in> set ?visited \<and> onEveryPath (edgesOf ?succ) start p n)" for p n
  proof -
    have "p \<in> set ?visited" if "n \<in> set ?visited" "chain start (obj_get idom) n p"
    proof -
      have "obj_get idom n \<noteq> None" using d(3) that(1) by blast
      from dfsn.chain_defined [OF d(1) that(2) this] show ?thesis using d(3) by blast
    qed
    then show ?thesis unfolding dominates_region [OF w] V using d(4) by blast
  qed
  then have "\<forall>p n. dominates s' p n = (p \<noteq> n \<and> (start, n) \<in> (graphEdges g)\<^sup>* \<and> onEveryPath (graphEdges g) start p n)"
    unfolding reach succMap_edges by blast
  moreover have "buildRunDominance g = Some (dominates s')"
    by (simp add: buildRunDominance_def assms Let_def fix' tw [unfolded One_nat_def])
  ultimately show ?thesis by blast
qed

lemma oracle_empty: "dominanceStart g = None \<Longrightarrow> buildRunDominance g = Some (\<lambda>p n. False)"
  by (simp add: buildRunDominance_def)

definition runDominates :: "Graph \<Rightarrow> ustring \<Rightarrow> ustring \<Rightarrow> bool" where
  \<comment> \<open>the documented meaning: every path from the start to the consumer crosses the producer, which is another node\<close>
  "runDominates g p n =
     (\<exists>s. dominanceStart g = Some s \<and> p \<noteq> n \<and> (s, n) \<in> (graphEdges g)\<^sup>* \<and> onEveryPath (graphEdges g) s p n)"

lemma oracle_meaning: "\<exists>d. buildRunDominance g = Some d \<and> d = runDominates g"
proof (cases "dominanceStart g")
  case None
  then show ?thesis using oracle_empty by (auto simp: runDominates_def fun_eq_iff)
next
  case (Some s)
  then show ?thesis using oracle_dominators [OF Some] by (auto simp: runDominates_def fun_eq_iff)
qed

text \<open>C11: The run-dominance oracle of the validator always returns, on every graph, and answers its documented question:
  a producer dominates a consumer exactly when they are two nodes, the consumer is reachable from the start, and
  every path from the start to the consumer crosses the producer. So none of its loops (the depth-first search, the climbs
  of \<open>intersect\<close>, the passes of the fixpoint, the walk over the dominator tree) runs for ever, and neither the order
  of the passes nor the intervals give another answer.\<close>

theorem run_dominance_is_dominance: "buildRunDominance g = Some (runDominates g)"
  using oracle_meaning by blast

end
