(* ===== verification/Spec2Isabelle.thy ===== *)
theory Spec2Isabelle
  imports Transition_Properties Fanout_Properties Semaphore_Gate Store_Concurrency Substitution_Properties Typed_References Dominance_Intervals
begin

text \<open>
  The verification development of fragua, an orchestrator that executes workflow graphs of agents, tools and
  people. A run is a row of a SQLite store and a log of events. The daemon claims a run, dispatches the node it is at
  to a handler, plans the facts and the routing patch that record what happened, and commits both with an
  optimistic version check; operators act through intents, which are events of the same log; everything a
  reader shows is a fold of the log. The development follows that flow, from the values the code computes with
  to the interleaving of the writers of one store.

  \<^bold>\<open>The parts, in the order of the imports\<close>

  \<^item> \<open>Fragua_Prelude\<close>: the values of the source language (numbers, UTF-16 strings, JSON values, objects as
    association lists, optional values), and the locales \<open>entry_gate\<close>, \<open>step_invariant\<close> and \<open>additive_measure\<close>, which
    the components interpret.
  \<^item> \<open>Payload_Text\<close>: \<open>core/src/payload-text.ts\<close>, the clipper of free texts in facts, with code points, JSON
    escapes and UTF-8 sizes written out.
  \<^item> \<open>Events\<close>, \<open>Reducers\<close>: \<open>types/src/events.ts\<close> and \<open>store/src/reducers.ts\<close>. An event is a constructor of
    \<open>FactEvent\<close> with a record for its payload; \<open>applyFact\<close> is the reducer with a definition per branch;
    \<open>deriveRunState\<close> is the replay of a log.
  \<^item> \<open>Graph_Model\<close>: \<open>core/src/types/graph.ts\<close>, \<open>types/outcome.ts\<close>, \<open>engine/edge-selection.ts\<close>, \<open>fanout.ts\<close> and
    \<open>thread.ts\<close>: the graph, the choice of an edge and the two searches, whose contract is the locale
    \<open>closed_search\<close>.
  \<^item> \<open>Routing\<close>, \<open>Routing_Blobs\<close>: \<open>core/src/routing.ts\<close>, the vocabulary of the routing map, its
    readers and write gate, and \<open>store/src/routing-blobs.ts\<close>, the spill of large inputs to blobs.
  \<^item> \<open>Budget_Policy\<close>, \<open>Retry_Policy\<close>, \<open>Goal_Gate\<close>, \<open>Intent_Fold\<close>: the pure policies
    (\<open>engine/budget-policy.ts\<close>, \<open>retry-policy.ts\<close>, \<open>goal-gate-policy.ts\<close>, \<open>daemon/src/provider-retry-policy.ts\<close>,
    \<open>handler/intent-fold.ts\<close>), one definition per function.
  \<^item> \<open>Result_To_Facts\<close>, \<open>Exit_Planner\<close>, \<open>Transition_Planner\<close>, \<open>Transition_Properties\<close>: the planners of one turn
    (\<open>daemon/src/result-to-facts.ts\<close>, \<open>abort-planner.ts\<close>, \<open>lifecycle-planner.ts\<close>, \<open>predispatch-planner.ts\<close>,
    \<open>transition-planner.ts\<close>). \<open>planTransition\<close> is composed of the stages of the code (edge, gates,
    retry, budget, provider, steer and pause), each a definition, so that each stage has its own lemma.
  \<^item> \<open>Fanout_Planner\<close>, \<open>Fanout_Properties\<close>, \<open>Semaphore_Gate\<close>: \<open>daemon/src/fanout-planner.ts\<close> and the parts of
    \<open>fanout.ts\<close> and \<open>fanout-support.ts\<close> that decide what a superstep commits and how many branches run. The
    semaphore is a step function on its holders and waiters, run over a sequence of calls.
  \<^item> \<open>Store_Rows\<close>, \<open>Store_Writer\<close>: the tables, the SQL statements of the write path and the operations of
    \<open>store/src/store-writer.ts\<close> and \<open>sweep.ts\<close>, with their preparation outside the lock and their transaction
    apart. \<open>Store_Columns\<close>, \<open>Store_Writes\<close>, \<open>Store_Spend\<close>, \<open>Store_Properties\<close>, \<open>Store_Concurrency\<close>,
    \<open>Store_Example\<close>: the locale \<open>store_writes\<close> of relations that every write respects, its interpretations, and
    the system of concurrent writers.
  \<^item> \<open>Shell_Quote\<close>, \<open>Shell_Inert\<close>, \<open>Shell_Pieces\<close>, \<open>Shell_Simulation\<close>: \<open>core/src/engine/shell-quote.ts\<close>, the escapes
    and the scanner of a shell template, and the simulation between the scan of a template and the scan
    of the command that is run.
  \<^item> \<open>Js_Objects\<close>, \<open>Template_Refs\<close>, \<open>Substitution\<close>, \<open>Substitution_Properties\<close>: \<open>engine/substitution.ts\<close> and
    \<open>outputs-substitution.ts\<close>, the token expressions as matchers and the single pass that replaces them.
  \<^item> \<open>Output_Types\<close>, \<open>Run_Inputs\<close>, \<open>Typed_References\<close>: \<open>types/outputs.ts\<close> and \<open>engine/inputs.ts\<close>, the typed values of a
    workflow, their validation and coercion, and what a validated value guarantees to the references that read it.

  \<^bold>\<open>What the groups of theorems show\<close>

  \<^item> \<^bold>\<open>The store.\<close> Whatever writers prepare, commit, fail and die in whatever order, the content of the store is that of
    some sequence of atomic operations (\<open>interleaving_refines_atomic\<close>); a late commit is an append at commit time;
    logs have no gap; the totals of a row are the sums of its log; a stale claim writes nothing; a checkout
    is held once; the SQL of the sweep and of an enqueue agree with the fold of the events they log.
  \<^item> \<^bold>\<open>Spend.\<close> The facts a turn plans charge what its handler reported, in each of the ten totals, through every
    stage of the planner, through an exit without a result and through a fan-out settlement or bail.
  \<^item> \<^bold>\<open>Control.\<close> A planned batch ends in one disposition, which decides the run's status; the epoch stamped
    on a started node is the one the commit leaves; the frontier of a fan-out is the set the facts describe; chains of
    provider retries end; the semaphore bounds the pool and starves no branch; the intent fold is a function of the batch.
  \<^item> \<^bold>\<open>Text.\<close> A value substituted into a command is inert and reads back; the substitution fails closed; the
    rendering of a value ignores the order of keys; a spilled input is resolved back to itself.
  \<^item> \<^bold>\<open>Types.\<close> A reference that its producer's declaration guarantees resolves; validated inputs are bound; coerced
    inputs validate; the routing patch of a plan passes the write gate.

  \<^bold>\<open>Conventions\<close>

  \<^item> A quantity (cost, tokens, time) is an exact rational; IEEE rounding is not modelled. A string is the list of its UTF-16
    units. Run ids are compared as UTF-16 units where SQLite compares bytes; ids are ASCII, where the orders agree.
  \<^item> A \<open>Map\<close> or object is an association list in insertion order. An exception or a refused write is a value of a sum type.
    A transaction is a function of the whole database that returns it unchanged on an error.
  \<^item> What is not code of the repository is a parameter: the hash of a blob or of a wrapped value, the random draw of a
    jitter, the clock, \<open>JSON.parse\<close> of a structured input (its error texts depend on the engine).
  \<^item> Loops are recursive functions with a termination proof; no theorem rests on fuel.

  \<^bold>\<open>Not modelled\<close>

  The code that talks to the outside: the handlers' I/O (model calls, processes, MCP, worktrees), the HTTP server and its
  schemas, the CLI, the web interface, file and blob storage below the writer, bundles, migrations, the executor's loop around
  the planners (its decisions are the planners' and its effects are the store's operations). The
  YAML parser rests on a third-party parser's syntax tree. The validator only reports diagnostics; its rules are not modelled.
\<close>

end
